(* ===== verification/Prelude.thy ===== *)
theory Prelude
  imports Complex_Main "HOL-Library.Char_ord" "HOL-Library.List_Lexorder"
begin

text \<open>
  What every component of the model shares: the Python values the code passes around, the
  exceptions it can raise, and the operations of Python's \<open>str\<close>, \<open>int\<close> and \<open>float\<close> it uses.

  A Python \<open>str\<close> is the \<open>string\<close> of its UTF-8 bytes; so \<open>encode\<close> is the identity, and
  \<open>decode\<close> can fail. Case, digit and white-space classes are the ASCII ones: the code applies
  them to device ids, command words, codes, phone numbers and switch values, which are ASCII.
  Clock readings (\<open>time.time()\<close>, \<open>time.monotonic()\<close>) are rational seconds.
\<close>

named_theorems py_simps \<open>evaluation rules of the Python string operations\<close>

type_synonym time = rat

datatype exn =
    TypeError
  | ValueError
  | KeyError
  | OSError
  | IntegrityError
  | BinasciiError
  | StructError
  | RuntimeError
  | OtherError string

section \<open>Python values\<close>

text \<open>
  A value of a decoded JSON document or of a settings dictionary. A float carries its value and
  the text \<open>str()\<close> gives for it; a list or dict carries that text and whether it is non-empty,
  which is all the modelled code asks of it.
\<close>

datatype pyval =
    PNone
  | PBool bool
  | PInt int
  | PFloat rat string
  | PStr string
  | PCont string bool

fun py_truthy :: "pyval \<Rightarrow> bool" where
  "py_truthy PNone = False"
| "py_truthy (PBool b) = b"
| "py_truthy (PInt i) = (i \<noteq> 0)"
| "py_truthy (PFloat r _) = (r \<noteq> 0)"
| "py_truthy (PStr s) = (s \<noteq> [])"
| "py_truthy (PCont _ nonempty) = nonempty"

section \<open>Characters and decimal digits\<close>

definition code :: "char \<Rightarrow> nat" where
  "code c = of_char c"

definition is_digit :: "char \<Rightarrow> bool" where
  "is_digit c \<longleftrightarrow> 48 \<le> code c \<and> code c \<le> 57"

definition is_space :: "char \<Rightarrow> bool" where
  "is_space c \<longleftrightarrow> 9 \<le> code c \<and> code c \<le> 13 \<or> 28 \<le> code c \<and> code c \<le> 32"

definition is_ascii :: "string \<Rightarrow> bool" where
  "is_ascii s \<longleftrightarrow> list_all (\<lambda>c. code c < 128) s"

definition digit_char :: "nat \<Rightarrow> char" where
  "digit_char n = char_of (48 + n)"

definition digit_val :: "char \<Rightarrow> nat" where
  "digit_val c = code c - 48"

definition to_upper :: "char \<Rightarrow> char" where
  "to_upper c = (if 97 \<le> code c \<and> code c \<le> 122 then char_of (code c - 32) else c)"

definition to_lower :: "char \<Rightarrow> char" where
  "to_lower c = (if 65 \<le> code c \<and> code c \<le> 90 then char_of (code c + 32) else c)"

abbreviation upper :: "string \<Rightarrow> string" where
  "upper s \<equiv> map to_upper s"

abbreviation lower :: "string \<Rightarrow> string" where
  "lower s \<equiv> map to_lower s"

lemma code_char_of [simp]: "n < 256 \<Longrightarrow> code (char_of n) = n"
  by (simp add: code_def)

lemma code_less [simp]: "code c < 256"
  by (metis code_def of_char_mod_256 mod_less_divisor zero_less_numeral)

lemma char_of_code [simp]: "char_of (code c) = c"
  by (simp add: code_def)

lemma code_inject [simp]: "code a = code b \<longleftrightarrow> a = b"
  by (simp add: code_def)

lemma code_upper: "code (to_upper c) = (if 97 \<le> code c \<and> code c \<le> 122 then code c - 32 else code c)"
  using code_less [of c] by (auto simp: to_upper_def)

lemma code_lower: "code (to_lower c) = (if 65 \<le> code c \<and> code c \<le> 90 then code c + 32 else code c)"
  by (auto simp: to_lower_def)

lemma to_upper_idem [simp]: "to_upper (to_upper c) = to_upper c"
  by (simp add: code_inject [symmetric] code_upper del: code_inject) arith

lemma to_lower_idem [simp]: "to_lower (to_lower c) = to_lower c"
  by (simp add: code_inject [symmetric] code_lower del: code_inject)

lemma upper_upper [simp]: "upper (upper s) = upper s"
  by (induction s) auto

lemma lower_lower [simp]: "lower (lower s) = lower s"
  by (induction s) auto

lemma to_upper_eq_iff: "(to_upper c = d) = (if 97 \<le> code c \<and> code c \<le> 122 then code d = code c - 32 else c = d)"
  using code_upper [of c] by (auto simp: code_inject [symmetric] simp del: code_inject)

lemma to_lower_eq_iff: "(to_lower c = d) = (if 65 \<le> code c \<and> code c \<le> 90 then code d = code c + 32 else c = d)"
  using code_lower [of c] by (auto simp: code_inject [symmetric] simp del: code_inject)

lemma digit_char_digit: "n < 10 \<Longrightarrow> is_digit (digit_char n)"
  by (simp add: is_digit_def digit_char_def)

lemma digit_val_char [simp]: "n < 10 \<Longrightarrow> digit_val (digit_char n) = n"
  by (simp add: digit_val_def digit_char_def)

lemma digit_val_less: "is_digit c \<Longrightarrow> digit_val c < 10"
  by (auto simp: is_digit_def digit_val_def)

lemma digit_not_space: "is_digit c \<Longrightarrow> \<not> is_space c"
  by (auto simp: is_digit_def is_space_def)

lemma newline_char: "char_of (10::nat) = CHR 0x0A"
  by code_simp

lemma code_literals:
  "code (CHR ''-'') = 45" "code (CHR ''+'') = 43" "code (CHR ''_'') = 95" "code (CHR '':'') = 58"
  "code (CHR '' '') = 32" "code (CHR ''.'') = 46" "code (CHR ''/'') = 47" "code (CHR ''='') = 61"
  by (simp_all add: code_def)

section \<open>str: strip, split, join\<close>

definition lstrip :: "string \<Rightarrow> string" where
  "lstrip s = dropWhile is_space s"

definition rstrip_of :: "(char \<Rightarrow> bool) \<Rightarrow> string \<Rightarrow> string" where
  "rstrip_of p s = rev (dropWhile p (rev s))"

definition strip :: "string \<Rightarrow> string" where
  "strip s = rstrip_of is_space (lstrip s)"

text \<open>\<open>s.split(c)\<close> with a one-character separator: always at least one part.\<close>

fun split_on :: "char \<Rightarrow> string \<Rightarrow> string list" where
  "split_on c [] = [[]]"
| "split_on c (x # xs) =
     (if x = c then [] # split_on c xs
      else case split_on c xs of [] \<Rightarrow> [[x]] | p # ps \<Rightarrow> (x # p) # ps)"

text \<open>\<open>c.join(parts)\<close>.\<close>

fun join :: "string \<Rightarrow> string list \<Rightarrow> string" where
  "join sep [] = []"
| "join sep [x] = x"
| "join sep (x # y # xs) = x @ sep @ join sep (y # xs)"

text \<open>\<open>s.split()\<close>: the maximal runs of non-space characters.\<close>

fun split_ws_acc :: "string \<Rightarrow> string \<Rightarrow> string list" where
  "split_ws_acc w [] = (if w = [] then [] else [w])"
| "split_ws_acc w (x # xs) =
     (if is_space x then (if w = [] then split_ws_acc [] xs else w # split_ws_acc [] xs)
      else split_ws_acc (w @ [x]) xs)"

definition split_ws :: "string \<Rightarrow> string list" where
  "split_ws s = split_ws_acc [] s"

text \<open>\<open>s.splitlines()\<close>: \<open>\r\n\<close> is one break, and a break at the end opens no further line.\<close>

definition is_line_break :: "char \<Rightarrow> bool" where
  "is_line_break c \<longleftrightarrow> 10 \<le> code c \<and> code c \<le> 13 \<or> 28 \<le> code c \<and> code c \<le> 30"

fun splitlines_acc :: "string \<Rightarrow> string \<Rightarrow> string list" where
  "splitlines_acc w [] = (if w = [] then [] else [w])"
| "splitlines_acc w (x # xs) =
     (if code x = 13
      then (case xs of y # ys \<Rightarrow> (if code y = 10 then w # splitlines_acc [] ys
                                 else w # splitlines_acc [] xs)
            | [] \<Rightarrow> w # splitlines_acc [] xs)
      else if is_line_break x then w # splitlines_acc [] xs
      else splitlines_acc (w @ [x]) xs)"

definition splitlines :: "string \<Rightarrow> string list" where
  "splitlines s = splitlines_acc [] s"

definition starts_with :: "string \<Rightarrow> string \<Rightarrow> bool" where
  "starts_with s p \<longleftrightarrow> take (length p) s = p"

definition ends_with :: "string \<Rightarrow> string \<Rightarrow> bool" where
  "ends_with s p \<longleftrightarrow> length p \<le> length s \<and> drop (length s - length p) s = p"

lemma split_on_not_Nil [simp]: "split_on c s \<noteq> []"
  by (induction s) (auto split: list.splits)

lemma split_on_no_sep: "c \<notin> set s \<Longrightarrow> split_on c s = [s]"
  by (induction s) auto

lemma split_on_append: "c \<notin> set s \<Longrightarrow> split_on c (s @ c # t) = s # split_on c t"
  by (induction s) auto

lemma split_on_parts: "p \<in> set (split_on c s) \<Longrightarrow> c \<notin> set p"
proof (induction s arbitrary: p)
  case Nil
  then show ?case by simp
next
  case (Cons x xs)
  show ?case
  proof (cases "x = c")
    case True
    with Cons show ?thesis by auto
  next
    case False
    with Cons show ?thesis by (cases "split_on c xs") fastforce+
  qed
qed

lemma split_on_join:
  "xs \<noteq> [] \<Longrightarrow> \<forall>x\<in>set xs. c \<notin> set x \<Longrightarrow> split_on c (join [c] xs) = xs"
  by (induction "[c]" xs rule: join.induct) (auto simp: split_on_no_sep split_on_append)

lemma join_split_on: "join [c] (split_on c s) = s"
proof (induction s)
  case Nil
  then show ?case by simp
next
  case (Cons x xs)
  obtain p ps where p: "split_on c xs = p # ps" by (cases "split_on c xs") auto
  with Cons show ?case by (cases ps) auto
qed

lemma dropWhile_nospace: "s = [] \<or> \<not> is_space (hd s) \<Longrightarrow> dropWhile is_space s = s"
  by (cases s) auto

lemma strip_nospace: "\<forall>c\<in>set s. \<not> is_space c \<Longrightarrow> strip s = s"
  by (cases s rule: rev_cases)
     (auto simp: strip_def lstrip_def rstrip_of_def dropWhile_nospace hd_append)

lemma strip_Nil [simp]: "strip [] = []"
  by (simp add: strip_def lstrip_def rstrip_of_def)

lemma starts_with_append [simp]: "starts_with (p @ s) p"
  by (simp add: starts_with_def)

lemma starts_with_iff: "starts_with s p \<longleftrightarrow> (\<exists>t. s = p @ t)"
  unfolding starts_with_def by (metis append_eq_conv_conj append_take_drop_id)

lemma ends_with_iff: "ends_with s p \<longleftrightarrow> (\<exists>t. s = t @ p)"
  unfolding ends_with_def
  by (metis append_take_drop_id append_eq_conv_conj diff_add_inverse2 le_add2 length_append)

lemma rstrip_of_append: "p c \<Longrightarrow> rstrip_of p (s @ [c]) = rstrip_of p s"
  by (simp add: rstrip_of_def)

lemma rstrip_of_replicate: "p c \<Longrightarrow> rstrip_of p (s @ replicate n c) = rstrip_of p s"
  by (induction n) (simp_all add: replicate_append_same [symmetric] rstrip_of_append
        append_assoc [symmetric] del: append_assoc)

lemma rstrip_of_id: "\<forall>c\<in>set s. \<not> p c \<Longrightarrow> rstrip_of p s = s"
  by (cases s rule: rev_cases) (auto simp: rstrip_of_def)

lemma strip_blanks: "\<forall>c\<in>set s. \<not> is_space c \<Longrightarrow> strip ('' '' @ s @ '' '') = s"
proof -
  assume ns: "\<forall>c\<in>set s. \<not> is_space c"
  have sp: "is_space (CHR '' '')" by code_simp
  show ?thesis
  proof (cases "s = []")
    case True
    then show ?thesis by (simp add: strip_def lstrip_def rstrip_of_def sp)
  next
    case False
    then have "lstrip ('' '' @ s @ '' '') = s @ '' ''"
      using ns sp by (cases s) (simp_all add: lstrip_def)
    then show ?thesis
      using ns by (simp add: strip_def rstrip_of_append [where p = is_space, OF sp] rstrip_of_id)
  qed
qed

section \<open>int(), str() and zfill()\<close>

fun dec_nat :: "nat \<Rightarrow> string" where
  "dec_nat n = (if n < 10 then [digit_char n] else dec_nat (n div 10) @ [digit_char (n mod 10)])"

declare dec_nat.simps [simp del]

definition dec_int :: "int \<Rightarrow> string" where
  "dec_int i = (if i < 0 then CHR ''-'' # dec_nat (nat (- i)) else dec_nat (nat i))"

text \<open>Digits with single underscores between them, as \<open>int()\<close> accepts.\<close>

fun scan_digits :: "nat \<Rightarrow> bool \<Rightarrow> string \<Rightarrow> nat option" where
  "scan_digits acc after_digit [] = (if after_digit then Some acc else None)"
| "scan_digits acc after_digit (c # cs) =
     (if is_digit c then scan_digits (10 * acc + digit_val c) True cs
      else if c = CHR ''_'' \<and> after_digit then scan_digits acc False cs
      else None)"

text \<open>\<open>int(s)\<close>: \<open>None\<close> is the \<open>ValueError\<close>.\<close>

definition py_int :: "string \<Rightarrow> int option" where
  "py_int s = (case strip s of
       [] \<Rightarrow> None
     | c # cs \<Rightarrow>
         if c = CHR ''-'' then map_option (\<lambda>n. - int n) (scan_digits 0 False cs)
         else if c = CHR ''+'' then map_option int (scan_digits 0 False cs)
         else map_option int (scan_digits 0 False (c # cs)))"

definition zfill :: "nat \<Rightarrow> string \<Rightarrow> string" where
  "zfill n s = replicate (n - length s) (CHR ''0'') @ s"

text \<open>\<open>str(v)\<close>.\<close>

fun py_str :: "pyval \<Rightarrow> string" where
  "py_str PNone = ''None''"
| "py_str (PBool b) = (if b then ''True'' else ''False'')"
| "py_str (PInt i) = dec_int i"
| "py_str (PFloat _ s) = s"
| "py_str (PStr s) = s"
| "py_str (PCont s _) = s"

lemma dec_nat_digits: "\<forall>c\<in>set (dec_nat n). is_digit c"
proof (induction n rule: dec_nat.induct)
  case (1 n)
  then show ?case
    by (cases "n < 10") (auto simp: dec_nat.simps [of n] digit_char_digit)
qed

lemma dec_nat_not_Nil [simp]: "dec_nat n \<noteq> []"
  by (subst dec_nat.simps) simp

lemma scan_digits_all:
  "\<forall>c\<in>set s. is_digit c \<Longrightarrow> s \<noteq> [] \<Longrightarrow>
   scan_digits acc b s = Some (foldl (\<lambda>a c. 10 * a + digit_val c) acc s)"
proof (induction s arbitrary: acc b)
  case Nil
  then show ?case by simp
next
  case (Cons c s)
  then show ?case by (cases "s = []") simp_all
qed

lemma foldl_dec_nat: "foldl (\<lambda>a c. 10 * a + digit_val c) 0 (dec_nat n) = n"
proof (induction n rule: dec_nat.induct)
  case (1 n)
  then show ?case
    by (cases "n < 10") (simp_all add: dec_nat.simps [of n])
qed

lemma scan_dec_nat: "scan_digits 0 b (dec_nat n) = Some n"
  by (simp add: scan_digits_all dec_nat_digits foldl_dec_nat)

lemma dec_int_nospace: "\<forall>c\<in>set (dec_int i). \<not> is_space c"
  using dec_nat_digits digit_not_space
  by (auto simp: dec_int_def is_space_def code_literals)

lemma py_int_dec_int [simp]: "py_int (dec_int i) = Some i"
proof -
  have st: "strip (dec_int i) = dec_int i"
    by (rule strip_nospace [OF dec_int_nospace])
  show ?thesis
  proof (cases "i < 0")
    case True
    then show ?thesis by (simp add: py_int_def st, simp add: dec_int_def scan_dec_nat)
  next
    case False
    obtain c cs where d: "dec_nat (nat i) = c # cs"
      by (cases "dec_nat (nat i)") auto
    with dec_nat_digits [of "nat i"] have "is_digit c" by simp
    then have "c \<noteq> CHR ''-''" "c \<noteq> CHR ''+''"
      by (auto simp: is_digit_def code_literals)
    with False d scan_dec_nat [of False "nat i"] show ?thesis
      by (simp add: py_int_def st, simp add: dec_int_def)
  qed
qed

lemma dec_int_inject [simp]: "dec_int i = dec_int j \<longleftrightarrow> i = j"
  by (metis option.inject py_int_dec_int)

lemma dec_int_not_Nil [simp]: "dec_int i \<noteq> []"
  by (simp add: dec_int_def)

lemma length_zfill: "length s \<le> n \<Longrightarrow> length (zfill n s) = n"
  by (simp add: zfill_def)

lemma length_dec_nat: "n < 10 ^ d \<Longrightarrow> 0 < d \<Longrightarrow> length (dec_nat n) \<le> d"
proof (induction n arbitrary: d rule: dec_nat.induct)
  case (1 n)
  show ?case
  proof (cases "n < 10")
    case True
    with "1.prems" show ?thesis by (simp add: dec_nat.simps [of n])
  next
    case False
    then obtain e where e: "d = Suc e" "0 < e"
      using "1.prems" by (cases d; cases "d - 1") auto
    with "1.prems" have "n div 10 < 10 ^ e" by auto
    with "1.IH" [OF False this e(2)] e(1) False show ?thesis
      by (simp add: dec_nat.simps [of n])
  qed
qed

section \<open>float()\<close>

datatype pyfloat = Fin rat | PosInf | NegInf | NaN

definition digits_part :: "string \<Rightarrow> (nat \<times> nat) option" where
  \<comment> \<open>value and number of digits; the empty part counts as no digits\<close>
  "digits_part s = (if s = [] then Some (0, 0)
     else map_option (\<lambda>v. (v, length (filter is_digit s))) (scan_digits 0 False s))"

definition exponent_part :: "string \<Rightarrow> int option" where
  "exponent_part s = (case s of
       [] \<Rightarrow> Some 0
     | c # r \<Rightarrow>
         if c = CHR ''e'' \<or> c = CHR ''E''
         then (case r of
                 d # r' \<Rightarrow>
                   if d = CHR ''-'' then map_option (\<lambda>n. - int n) (scan_digits 0 False r')
                   else if d = CHR ''+'' then map_option int (scan_digits 0 False r')
                   else map_option int (scan_digits 0 False r)
               | [] \<Rightarrow> None)
         else None)"

definition scale10 :: "rat \<Rightarrow> int \<Rightarrow> rat" where
  "scale10 r e = (if 0 \<le> e then r * 10 ^ nat e else r / 10 ^ nat (- e))"

definition unsigned_float :: "string \<Rightarrow> pyfloat option" where
  "unsigned_float s =
    (if lower s = ''inf'' \<or> lower s = ''infinity'' then Some PosInf
     else if lower s = ''nan'' then Some NaN
     else
      let dp = (\<lambda>c. is_digit c \<or> c = CHR ''_'');
          ip = takeWhile dp s; r1 = dropWhile dp s;
          (fp, r2) = (case r1 of
              c # r \<Rightarrow> if c = CHR ''.'' then (takeWhile dp r, dropWhile dp r) else ([], r1)
            | [] \<Rightarrow> ([], []))
      in if ip = [] \<and> fp = [] then None
         else case (digits_part ip, digits_part fp, exponent_part r2) of
                (Some (iv, _), Some (fv, fn), Some e) \<Rightarrow>
                   Some (Fin (scale10 (of_nat iv + of_nat fv / 10 ^ fn) e))
              | _ \<Rightarrow> None)"

fun neg_float :: "pyfloat \<Rightarrow> pyfloat" where
  "neg_float (Fin r) = Fin (- r)"
| "neg_float PosInf = NegInf"
| "neg_float NegInf = PosInf"
| "neg_float NaN = NaN"

text \<open>\<open>float(s)\<close>, exact (the rounding to binary64 is not modelled); \<open>None\<close> is the \<open>ValueError\<close>.\<close>

definition py_float :: "string \<Rightarrow> pyfloat option" where
  "py_float s = (case strip s of
       [] \<Rightarrow> None
     | c # cs \<Rightarrow>
         if c = CHR ''-'' then map_option neg_float (unsigned_float cs)
         else if c = CHR ''+'' then unsigned_float cs
         else unsigned_float (c # cs))"

text \<open>\<open>lo <= x <= hi\<close> on floats: every comparison with a NaN is false.\<close>

fun float_between :: "rat \<Rightarrow> pyfloat \<Rightarrow> rat \<Rightarrow> bool" where
  "float_between lo (Fin r) hi \<longleftrightarrow> lo \<le> r \<and> r \<le> hi"
| "float_between lo _ hi \<longleftrightarrow> False"

section \<open>Lists and transition systems\<close>

lemma map_of_filter_neq:
  "map_of (filter (\<lambda>p. fst p \<noteq> k) xs) = (map_of xs)(k := None)"
  by (induction xs) (auto simp: fun_eq_iff)

text \<open>
  The contract of a component driven by a sequence of events: an invariant that holds at the
  start and that every event keeps holds after every run. The provider proves the two laws for
  its own step function.
\<close>

fun run_events :: "('s \<Rightarrow> 'e \<Rightarrow> 's) \<Rightarrow> 's \<Rightarrow> 'e list \<Rightarrow> 's" where
  "run_events step s [] = s"
| "run_events step s (e # es) = run_events step (step s e) es"

lemma run_events_append [simp]:
  "run_events step s (xs @ ys) = run_events step (run_events step s xs) ys"
  by (induction xs arbitrary: s) auto

locale event_system =
  fixes start :: "'s \<Rightarrow> bool"
    and step :: "'s \<Rightarrow> 'e \<Rightarrow> 's"
    and inv :: "'s \<Rightarrow> bool"
  assumes start_inv: "start s \<Longrightarrow> inv s"
    and step_inv: "inv s \<Longrightarrow> inv (step s e)"
begin

lemma run_inv: "inv s \<Longrightarrow> inv (run_events step s es)"
  by (induction es arbitrary: s) (auto intro: step_inv)

lemma reachable_inv: "start s \<Longrightarrow> inv (run_events step s es)"
  by (blast intro: run_inv start_inv)

end

end
