(* ===== verification/Paths.thy ===== *)
theory Paths
  imports Prelude
begin

text \<open>
  \<open>fmd/paths.py\<close>: where the data is kept, and the one-time move of the data of older versions into the
  nested directory; \<open>daemon-rpm/src/notify.py\<close>: the local notification. What a move or D-Bus answers is an
  argument.
\<close>

section \<open>Names\<close>

definition APP_NAME :: string where "APP_NAME = ''harbour-find-my-device''"
definition DB_FILENAME :: string where "DB_FILENAME = ''findmydevice.db''"

definition path_join :: "string \<Rightarrow> string \<Rightarrow> string" where
  "path_join a b = a @ ''/'' @ b"

definition data_path :: "string \<Rightarrow> string" where
  "data_path home = path_join (path_join (home @ ''/.local/share'') APP_NAME) APP_NAME"

section \<open>The move of older data\<close>

text \<open>What a name stands for in one of the two directories: a file, or a directory with its files.\<close>

datatype entry = Regular string | Directory "(string \<times> string) list"

record dirs =
  old_dir :: "string \<rightharpoonup> entry"
  new_dir :: "string \<rightharpoonup> entry"
  migration_done :: bool

text \<open>
  How \<open>shutil.move\<close> ends: it moves the entry, or it raises, be it before the copy is complete, with the
  source untouched and perhaps a part of it at the destination, or while it removes the source.
\<close>

datatype move_outcome = Moved | NotCopied "entry option" | NotRemoved "entry option"

definition move_entry :: "move_outcome \<Rightarrow> string \<Rightarrow> entry \<Rightarrow> dirs \<Rightarrow> dirs" where
  "move_entry outcome name e d =
    (case outcome of
       Moved \<Rightarrow> d\<lparr>old_dir := (old_dir d)(name := None), new_dir := (new_dir d)(name := Some e)\<rparr>
     | NotCopied part \<Rightarrow> d\<lparr>new_dir := (new_dir d)(name := part)\<rparr>
     | NotRemoved rest \<Rightarrow> d\<lparr>old_dir := (old_dir d)(name := rest), new_dir := (new_dir d)(name := Some e)\<rparr>)"

definition migrated_entries :: "string list" where
  "migrated_entries = [DB_FILENAME, DB_FILENAME @ ''-wal'', DB_FILENAME @ ''-shm'', ''photos'', ''ring_active'']"

definition migrate_entry :: "(string \<Rightarrow> move_outcome) \<Rightarrow> string \<Rightarrow> dirs \<Rightarrow> dirs" where
  "migrate_entry outcome name d =
    (case old_dir d name of
       None \<Rightarrow> d
     | Some e \<Rightarrow> if new_dir d name \<noteq> None then d else move_entry (outcome name) name e d)"

definition is_regular :: "entry option \<Rightarrow> bool" where
  "is_regular e = (case e of Some (Regular _) \<Rightarrow> True | _ \<Rightarrow> False)"

definition migrate_legacy_data :: "(string \<Rightarrow> move_outcome) \<Rightarrow> dirs \<Rightarrow> dirs" where
  "migrate_legacy_data outcome d =
    (if migration_done d then d
     else
      let d1 = d\<lparr>migration_done := True\<rparr>
      in if \<not> is_regular (old_dir d1 DB_FILENAME) \<or> new_dir d1 DB_FILENAME \<noteq> None then d1
         else fold (migrate_entry outcome) migrated_entries d1)"

definition data_dir :: "string \<Rightarrow> (string \<Rightarrow> move_outcome) \<Rightarrow> dirs \<Rightarrow> string \<times> dirs" where
  "data_dir home outcome d = (data_path home, migrate_legacy_data outcome d)"

definition db_path :: "string \<Rightarrow> (string \<Rightarrow> move_outcome) \<Rightarrow> dirs \<Rightarrow> string \<times> dirs" where
  "db_path home outcome d = (case data_dir home outcome d of (p, d') \<Rightarrow> (path_join p DB_FILENAME, d'))"

definition photos_dir :: "string \<Rightarrow> (string \<Rightarrow> move_outcome) \<Rightarrow> dirs \<Rightarrow> string \<times> dirs" where
  "photos_dir home outcome d = (case data_dir home outcome d of (p, d') \<Rightarrow> (path_join p ''photos'', d'))"

section \<open>Nothing is lost\<close>

text \<open>An entry of either directory is afterwards complete in one of them, and what the new one has stays.\<close>

definition kept :: "dirs \<Rightarrow> dirs \<Rightarrow> bool" where
  "kept d d' \<longleftrightarrow> (\<forall>name e. new_dir d name = Some e \<longrightarrow> new_dir d' name = Some e)
    \<and> (\<forall>name e. old_dir d name = Some e \<and> new_dir d name = None \<longrightarrow> old_dir d' name = Some e \<or> new_dir d' name = Some e)"

lemma migrate_entry_other: "n \<noteq> name \<Longrightarrow>
    old_dir (migrate_entry outcome name d) n = old_dir d n \<and> new_dir (migrate_entry outcome name d) n = new_dir d n"
  by (simp add: migrate_entry_def move_entry_def split: option.splits move_outcome.splits)

lemma migrate_entry_same: "kept d (migrate_entry outcome name d)"
  by (auto simp: kept_def migrate_entry_def move_entry_def split: option.splits move_outcome.splits)

lemma fold_other: "n \<notin> set names \<Longrightarrow>
    old_dir (fold (migrate_entry outcome) names d) n = old_dir d n \<and> new_dir (fold (migrate_entry outcome) names d) n = new_dir d n"
  by (induction names arbitrary: d) (simp_all add: migrate_entry_other)

text \<open>Each name comes once, so its entry is touched by one move only.\<close>

lemma fold_at: "distinct names \<Longrightarrow> n \<in> set names \<Longrightarrow>
    old_dir (fold (migrate_entry outcome) names d) n = old_dir (migrate_entry outcome n d) n
    \<and> new_dir (fold (migrate_entry outcome) names d) n = new_dir (migrate_entry outcome n d) n"
proof (induction names arbitrary: d)
  case (Cons a names)
  show ?case
  proof (cases "n = a")
    case True
    then show ?thesis using Cons.prems fold_other [of n names outcome "migrate_entry outcome a d"] by simp
  next
    case False
    then have "n \<in> set names" "distinct names" using Cons.prems by simp_all
    moreover have "old_dir (migrate_entry outcome n (migrate_entry outcome a d)) n = old_dir (migrate_entry outcome n d) n
        \<and> new_dir (migrate_entry outcome n (migrate_entry outcome a d)) n = new_dir (migrate_entry outcome n d) n"
      using migrate_entry_other [OF False, of outcome d]
      by (simp add: migrate_entry_def [of _ n] move_entry_def split: option.splits move_outcome.splits)
    ultimately show ?thesis using Cons.IH by simp
  qed
qed simp

lemma entries_distinct: "distinct migrated_entries"
  by (simp add: migrated_entries_def DB_FILENAME_def)

lemma entries_known: "DB_FILENAME \<in> set migrated_entries" "DB_FILENAME @ ''-wal'' \<in> set migrated_entries"
  by (simp_all add: migrated_entries_def)

lemma migration_loses_nothing: "kept d (migrate_legacy_data outcome d)"
proof -
  let ?d = "d\<lparr>migration_done := True\<rparr>"
  let ?r = "fold (migrate_entry outcome) migrated_entries ?d"
  have "(old_dir ?r n = old_dir d n \<and> new_dir ?r n = new_dir d n)
    \<or> (old_dir ?r n = old_dir (migrate_entry outcome n ?d) n \<and> new_dir ?r n = new_dir (migrate_entry outcome n ?d) n)" for n
    using fold_at [OF entries_distinct, of n outcome ?d] fold_other [of n migrated_entries outcome ?d] by auto
  moreover have "kept d (migrate_entry outcome n ?d)" for n
    using migrate_entry_same [of ?d outcome n] by (simp add: kept_def)
  ultimately have "kept d ?r" unfolding kept_def by metis
  then show ?thesis by (simp add: migrate_legacy_data_def Let_def kept_def)
qed

lemma migration_once: "migrate_legacy_data outcome' (migrate_legacy_data outcome d) = migrate_legacy_data outcome d"
proof -
  have m: "migration_done (move_entry oc name e d) = migration_done d" for oc name e d
    by (simp add: move_entry_def split: move_outcome.splits)
  have f: "migration_done (fold (migrate_entry outcome) names d) = migration_done d" for names d
    by (induction names arbitrary: d) (simp_all add: migrate_entry_def m split: option.splits)
  have "migration_done (migrate_legacy_data outcome d)" by (simp add: migrate_legacy_data_def Let_def f)
  then show ?thesis by (simp add: migrate_legacy_data_def [of outcome'])
qed

text \<open>When every move succeeds all the data is in the new directory.\<close>

lemma migration_complete:
  assumes "\<not> migration_done d" "is_regular (old_dir d DB_FILENAME)" "new_dir d = Map.empty" "outcome = (\<lambda>_. Moved)"
    and "name \<in> set migrated_entries"
  shows "new_dir (migrate_legacy_data outcome d) name = old_dir d name \<and> old_dir (migrate_legacy_data outcome d) name = None"
  using assms(1-4) fold_at [OF entries_distinct assms(5), of outcome "d\<lparr>migration_done := True\<rparr>"]
  by (auto simp: migrate_legacy_data_def Let_def migrate_entry_def move_entry_def split: option.splits)

text \<open>
  But a failed move is not made up for: once the database is in the new directory, a later process finds
  it there and moves nothing, so the write-ahead log or the photos stay behind in the old one.
\<close>

lemma failed_move_stays_behind:
  assumes "old_dir d (DB_FILENAME @ ''-wal'') = Some wal" "\<not> migration_done d" "is_regular (old_dir d DB_FILENAME)" "new_dir d = Map.empty"
    and "first = (\<lambda>name. if name = DB_FILENAME @ ''-wal'' then NotCopied None else Moved)"
  shows "new_dir (migrate_legacy_data later ((migrate_legacy_data first d)\<lparr>migration_done := False\<rparr>)) (DB_FILENAME @ ''-wal'') = None"
proof -
  let ?d = "migrate_legacy_data first d"
  have r: "?d = fold (migrate_entry first) migrated_entries (d\<lparr>migration_done := True\<rparr>)"
    using assms(2-4) by (simp add: migrate_legacy_data_def Let_def)
  have oc: "first (DB_FILENAME @ ''-wal'') = NotCopied None" "first DB_FILENAME = Moved" by (simp_all add: assms(5))
  have w: "new_dir ?d (DB_FILENAME @ ''-wal'') = None"
    using fold_at [OF entries_distinct entries_known(2), of first "d\<lparr>migration_done := True\<rparr>", folded r] assms(1,4) oc
    by (simp add: migrate_entry_def move_entry_def)
  have "new_dir ?d DB_FILENAME = old_dir d DB_FILENAME"
    using fold_at [OF entries_distinct entries_known(1), of first "d\<lparr>migration_done := True\<rparr>", folded r] assms(3,4) oc
    by (auto simp: migrate_entry_def move_entry_def is_regular_def split: option.splits)
  then have "new_dir ?d DB_FILENAME \<noteq> None" using assms(3) by (auto simp: is_regular_def split: option.splits)
  then show ?thesis using w by (simp add: migrate_legacy_data_def [of later] Let_def)
qed

section \<open>Notifications\<close>

definition APP_ICON_SIZES :: "string list" where
  "APP_ICON_SIZES = [''172x172'', ''128x128'', ''108x108'', ''86x86'']"

definition APP_ICON_PATH :: "string \<Rightarrow> string" where
  "APP_ICON_PATH sz = ''/usr/share/icons/hicolor/'' @ sz @ ''/apps/'' @ APP_NAME @ ''.png''"

definition FALLBACK_ICON :: string where "FALLBACK_ICON = ''icon-lock-information''"

definition app_icon :: "(string \<Rightarrow> bool) \<Rightarrow> string" where
  "app_icon isfile =
    (case find isfile (map APP_ICON_PATH APP_ICON_SIZES) of Some p \<Rightarrow> p | None \<Rightarrow> FALLBACK_ICON)"

record notification =
  nt_app :: string
  nt_replaces :: nat
  nt_icon :: string
  nt_summary :: string
  nt_body :: string
  nt_hints :: "(string \<times> string) list"
  nt_timeout :: int

text \<open>The call on the session bus and its answer; the bus, the service or the call may raise.\<close>

definition notify :: "(string \<Rightarrow> bool) \<Rightarrow> string \<Rightarrow> string \<Rightarrow> string option \<Rightarrow> (notification \<Rightarrow> int option) \<Rightarrow> int" where
  "notify isfile summary body icon bus =
    (let ic = (if icon \<in> {None, Some []} then app_icon isfile else the icon)
     in case bus \<lparr>nt_app = APP_NAME, nt_replaces = 0, nt_icon = ic, nt_summary = summary, nt_body = body,
          nt_hints = [(''x-nemo-icon'', ic), (''category'', ''x-nemo.general'')], nt_timeout = - 1\<rparr> of
        Some nid \<Rightarrow> nid
      | None \<Rightarrow> 0)"

text \<open>A notification always has an icon: one of the logo's that is installed, or a theme icon.\<close>

lemma app_icon_exists: "app_icon isfile = FALLBACK_ICON \<and> (\<forall>sz \<in> set APP_ICON_SIZES. \<not> isfile (APP_ICON_PATH sz))
    \<or> isfile (app_icon isfile)"
proof (cases "find isfile (map APP_ICON_PATH APP_ICON_SIZES)")
  case None
  then have "\<forall>sz \<in> set APP_ICON_SIZES. \<not> isfile (APP_ICON_PATH sz)" by (simp add: find_None_iff)
  then show ?thesis using None unfolding app_icon_def by simp
next
  case (Some p)
  then have "isfile p" by (auto simp: find_Some_iff)
  then show ?thesis using Some by (simp add: app_icon_def)
qed

end
