(* ===== verification/Codec.thy ===== *)
theory Codec
  imports Prelude
begin

text \<open>
  The parts of Python's \<open>base64\<close> module and of the UTF-8 codec that \<open>fmd/obfuscation.py\<close> and
  \<open>fmd/tokens.py\<close> use, on byte strings: \<open>b64encode\<close>, the lenient \<open>b64decode\<close> (\<open>binascii.a2b_base64\<close>
  skips characters outside the alphabet and stops at a complete padding), \<open>b32encode\<close>,
  \<open>b32decode(casefold=True)\<close> and the validity of UTF-8. Both encoders have their round-trip lemma.
\<close>

section \<open>Fixed-width digits in a base\<close>

fun digits :: "nat \<Rightarrow> nat \<Rightarrow> nat \<Rightarrow> nat list" where
  "digits b 0 n = []"
| "digits b (Suc k) n = digits b k (n div b) @ [n mod b]"

definition digits_value :: "nat \<Rightarrow> nat list \<Rightarrow> nat" where
  "digits_value b ds = foldl (\<lambda>a d. a * b + d) 0 ds"

lemma digits_value_Nil [simp]: "digits_value b [] = 0"
  by (simp add: digits_value_def)

lemma digits_value_snoc [simp]: "digits_value b (ds @ [d]) = digits_value b ds * b + d"
  by (simp add: digits_value_def)

lemma length_digits [simp]: "length (digits b k n) = k"
  by (induction k arbitrary: n) auto

lemma digits_less: "0 < b \<Longrightarrow> d \<in> set (digits b k n) \<Longrightarrow> d < b"
  by (induction k arbitrary: n) auto

lemma digits_value_digits: "n < b ^ k \<Longrightarrow> digits_value b (digits b k n) = n"
proof (induction k arbitrary: n)
  case 0
  then show ?case by simp
next
  case (Suc k)
  then have "n div b < b ^ k"
    by (metis less_mult_imp_div_less mult.commute power_Suc)
  with Suc.IH show ?case by simp
qed

lemma digits_digits_value:
  "0 < b \<Longrightarrow> \<forall>d\<in>set ds. d < b \<Longrightarrow> digits b (length ds) (digits_value b ds) = ds"
  by (induction ds rule: rev_induct) auto

lemma digits_value_less:
  "0 < b \<Longrightarrow> \<forall>d\<in>set ds. d < b \<Longrightarrow> digits_value b ds < b ^ length ds"
proof (induction ds rule: rev_induct)
  case Nil
  then show ?case by simp
next
  case (snoc d ds)
  then have "Suc (digits_value b ds) * b \<le> b ^ length ds * b"
    by (intro mult_right_mono) auto
  with snoc.prems show ?case by (auto simp: algebra_simps)
qed

lemma digits_value_append:
  "digits_value b (xs @ ys) = digits_value b xs * b ^ length ys + digits_value b ys"
  by (induction ys rule: rev_induct) (auto simp: algebra_simps append_assoc [symmetric] simp del: append_assoc)

lemma digits_value_zeros [simp]: "digits_value b (replicate n 0) = 0"
  by (induction n) (simp_all add: replicate_append_same [symmetric])

section \<open>Base 64\<close>

definition b64_char :: "nat \<Rightarrow> char" where
  "b64_char n = (if n < 26 then char_of (65 + n) else if n < 52 then char_of (71 + n)
     else if n < 62 then char_of (n - 4) else if n = 62 then CHR ''+'' else CHR ''/'')"

definition b64_val :: "char \<Rightarrow> nat option" where
  "b64_val c = (let n = code c in
     if 65 \<le> n \<and> n \<le> 90 then Some (n - 65) else if 97 \<le> n \<and> n \<le> 122 then Some (n - 71)
     else if 48 \<le> n \<and> n \<le> 57 then Some (n + 4) else if n = 43 then Some 62
     else if n = 47 then Some 63 else None)"

fun b64encode :: "string \<Rightarrow> string" where
  "b64encode [] = []"
| "b64encode [a] =
     [b64_char (code a div 4), b64_char (code a mod 4 * 16), CHR ''='', CHR ''='']"
| "b64encode [a, b] =
     [b64_char (code a div 4), b64_char (code a mod 4 * 16 + code b div 16),
      b64_char (code b mod 16 * 4), CHR ''='']"
| "b64encode (a # b # c # r) =
     [b64_char (code a div 4), b64_char (code a mod 4 * 16 + code b div 16),
      b64_char (code b mod 16 * 4 + code c div 64), b64_char (code c mod 64)] @ b64encode r"

text \<open>
  \<open>binascii.a2b_base64\<close>: position in the current group of four, number of pads seen in it, the
  bits left over, the rest of the input.
\<close>

fun a2b_base64 :: "nat \<Rightarrow> nat \<Rightarrow> nat \<Rightarrow> string \<Rightarrow> exn + string" where
  "a2b_base64 q pads left [] = (if q = 0 then Inr [] else Inl BinasciiError)"
| "a2b_base64 q pads left (c # cs) =
    (if c = CHR ''='' then
       (if 2 \<le> q \<and> 4 \<le> q + Suc pads then Inr []
        else a2b_base64 q (if 2 \<le> q then Suc pads else pads) left cs)
     else case b64_val c of
        None \<Rightarrow> a2b_base64 q pads left cs
      | Some v \<Rightarrow>
          if q = 0 then a2b_base64 1 0 v cs
          else if q = 1 then map_sum id (Cons (char_of (left * 4 + v div 16))) (a2b_base64 2 0 (v mod 16) cs)
          else if q = 2 then map_sum id (Cons (char_of (left * 16 + v div 4))) (a2b_base64 3 0 (v mod 4) cs)
          else map_sum id (Cons (char_of (left * 64 + v))) (a2b_base64 0 0 0 cs))"

definition b64decode :: "string \<Rightarrow> exn + string" where
  "b64decode s = a2b_base64 0 0 0 s"

lemma b64_val_char [simp]: "n < 64 \<Longrightarrow> b64_val (b64_char n) = Some n"
  by (auto simp: b64_val_def b64_char_def Let_def code_literals)

lemma b64_char_not_pad [simp]: "n < 64 \<Longrightarrow> b64_char n \<noteq> CHR ''=''"
  using b64_val_char [of n] by (auto simp: b64_val_def code_literals)

lemma b64_char_ascii: "code (b64_char n) < 128"
  by (auto simp: b64_char_def code_literals)

lemma ascii_b64encode: "is_ascii (b64encode s)"
  by (induction s rule: b64encode.induct) (auto simp: is_ascii_def b64_char_ascii code_literals)

lemma sextet_bounds:
  assumes "a < (256::nat)" "b < (256::nat)" "c < (256::nat)"
  shows "a div 4 < 64" "a mod 4 * 16 + b div 16 < 64" "b mod 16 * 4 + c div 64 < 64" "c mod 64 < 64"
proof -
  have "a mod 4 \<le> 3" "b mod 16 \<le> 15" by (simp_all add: less_Suc_eq_le [symmetric])
  moreover have "b div 16 \<le> 15" "c div 64 \<le> 3" using assms by linarith+
  ultimately show "a mod 4 * 16 + b div 16 < 64" "b mod 16 * 4 + c div 64 < 64" by linarith+
  show "a div 4 < 64" "c mod 64 < 64" using assms by (linarith, simp)
qed

lemma sextet_high:
  assumes "b < (256::nat)"
  shows "b div 16 div 16 = 0" "b div 16 mod 16 = b div 16" "b div 64 div 4 = 0" "b div 64 mod 4 = b div 64"
proof -
  have "b div 16 < 16" "b div 64 < 4" using assms by linarith+
  then show "b div 16 div 16 = 0" "b div 16 mod 16 = b div 16" "b div 64 div 4 = 0"
    "b div 64 mod 4 = b div 64" by simp_all
qed

text \<open>The same facts for the codes of three, two and one characters.\<close>

lemmas code_sextets =
  sextet_bounds [OF code_less code_less code_less]
  sextet_bounds [OF code_less code_less zero_less_numeral, simplified]
  sextet_bounds [OF code_less zero_less_numeral zero_less_numeral, simplified]
  sextet_high [OF code_less]

theorem b64decode_b64encode [simp]: "b64decode (b64encode s) = Inr s"
  unfolding b64decode_def
proof (induction s rule: b64encode.induct)
  case 1
  show ?case by simp
next
  case (2 a)
  show ?case by (simp add: code_sextets)
next
  case (3 a b)
  show ?case by (simp add: code_sextets)
next
  case (4 a b c r)
  then show ?case by (simp add: code_sextets)
qed

section \<open>UTF-8\<close>

definition cont_byte :: "char \<Rightarrow> bool" where
  "cont_byte c \<longleftrightarrow> 128 \<le> code c \<and> code c < 192"

fun valid_utf8 :: "string \<Rightarrow> bool" where
  "valid_utf8 [] = True"
| "valid_utf8 (a # r) =
    (if code a < 128 then valid_utf8 r
     else if 194 \<le> code a \<and> code a \<le> 223 then
       (case r of b # r1 \<Rightarrow> cont_byte b \<and> valid_utf8 r1 | [] \<Rightarrow> False)
     else if 224 \<le> code a \<and> code a \<le> 239 then
       (case r of
          b # c # r2 \<Rightarrow> cont_byte b \<and> cont_byte c \<and> (code a = 224 \<longrightarrow> 160 \<le> code b)
            \<and> (code a = 237 \<longrightarrow> code b \<le> 159) \<and> valid_utf8 r2
        | _ \<Rightarrow> False)
     else if 240 \<le> code a \<and> code a \<le> 244 then
       (case r of
          b # c # d # r3 \<Rightarrow> cont_byte b \<and> cont_byte c \<and> cont_byte d
            \<and> (code a = 240 \<longrightarrow> 144 \<le> code b) \<and> (code a = 244 \<longrightarrow> code b \<le> 143) \<and> valid_utf8 r3
        | _ \<Rightarrow> False)
     else False)"

lemma ascii_valid_utf8: "is_ascii s \<Longrightarrow> valid_utf8 s"
  by (induction s) (auto simp: is_ascii_def)

section \<open>Base 32\<close>

definition b32_char :: "nat \<Rightarrow> char" where
  "b32_char n = (if n < 26 then char_of (65 + n) else char_of (24 + n))"

definition b32_val :: "char \<Rightarrow> nat option" where
  "b32_val c = (let n = code c in
     if 65 \<le> n \<and> n \<le> 90 then Some (n - 65) else if 50 \<le> n \<and> n \<le> 55 then Some (n - 24) else None)"

definition byte_digits :: "string \<Rightarrow> nat" where
  "byte_digits s = digits_value 256 (map code s)"

text \<open>Characters kept of the last group when \<open>k < 5\<close> bytes are left over.\<close>

definition b32_keep :: "nat \<Rightarrow> nat" where
  "b32_keep k = (if k = 1 then 2 else if k = 2 then 4 else if k = 3 then 5 else if k = 4 then 7 else 8)"

definition b32_group :: "string \<Rightarrow> string" where
  "b32_group g = map b32_char (digits 32 8 (byte_digits (g @ replicate (5 - length g) (char_of (0::nat)))))"

function b32encode :: "string \<Rightarrow> string" where
  "b32encode s = (if s = [] then []
     else if length s < 5 then
       take (b32_keep (length s)) (b32_group s) @ replicate (8 - b32_keep (length s)) (CHR ''='')
     else b32_group (take 5 s) @ b32encode (drop 5 s))"
  by pat_completeness auto
termination by (relation "measure length") auto

declare b32encode.simps [simp del]

text \<open>The 5-bit groups of the characters, eight at a time; \<open>None\<close> when one is no base-32 digit.\<close>

function b32_accs :: "string \<Rightarrow> nat list option" where
  "b32_accs s = (if s = [] then Some []
     else if list_all (\<lambda>c. b32_val c \<noteq> None) (take 8 s)
     then map_option (Cons (digits_value 32 (map (\<lambda>c. the (b32_val c)) (take 8 s)))) (b32_accs (drop 8 s))
     else None)"
  by pat_completeness auto
termination by (relation "measure length") auto

declare b32_accs.simps [simp del]

definition to_bytes5 :: "nat \<Rightarrow> string" where
  "to_bytes5 n = map char_of (digits 256 5 n)"

definition b32decode :: "string \<Rightarrow> exn + string" where
  "b32decode s0 =
    (if \<not> is_ascii s0 then Inl ValueError
     else if length s0 mod 8 \<noteq> 0 then Inl BinasciiError
     else
      let s = rstrip_of (\<lambda>c. c = CHR ''='') (upper s0);
          padchars = length s0 - length s
      in case b32_accs s of
           None \<Rightarrow> Inl BinasciiError
         | Some accs \<Rightarrow>
             if padchars \<notin> {0, 1, 3, 4, 6} then Inl BinasciiError
             else if padchars \<noteq> 0 \<and> accs \<noteq> [] then
               Inr (concat (map to_bytes5 (butlast accs))
                    @ take ((43 - 5 * padchars) div 8) (to_bytes5 (last accs * 32 ^ padchars)))
             else Inr (concat (map to_bytes5 accs)))"

lemma b32_val_char [simp]: "n < 32 \<Longrightarrow> b32_val (b32_char n) = Some n"
  by (auto simp: b32_val_def b32_char_def Let_def)

lemma b32_val_char_upper: "n < 32 \<Longrightarrow> to_upper (b32_char n) = b32_char n"
  by (auto simp: to_upper_eq_iff b32_char_def)

lemma b32_char_plain:
  assumes "n < 32"
  shows "code (b32_char n) < 128" "\<not> is_space (b32_char n)" "b32_char n \<noteq> CHR ''=''"
    "b32_char n \<noteq> CHR '' ''"
  using assms by (auto simp: b32_char_def is_space_def code_inject [symmetric] code_literals
      simp del: code_inject)

lemma b32_accs_append:
  assumes "length s = 8" "\<forall>c\<in>set s. b32_val c \<noteq> None"
  shows "b32_accs (s @ t) = map_option (Cons (digits_value 32 (map (\<lambda>c. the (b32_val c)) s))) (b32_accs t)"
  using assms by (subst b32_accs.simps) (auto simp: list_all_iff)

lemma b32_accs_short:
  assumes "s \<noteq> []" "length s \<le> 8" "\<forall>c\<in>set s. b32_val c \<noteq> None"
  shows "b32_accs s = Some [digits_value 32 (map (\<lambda>c. the (b32_val c)) s)]"
  using assms by (subst b32_accs.simps) (auto simp: list_all_iff b32_accs.simps [of "[]"])

lemma length_b32_group [simp]: "length (b32_group g) = 8"
  by (simp add: b32_group_def)

lemma b32_group_digit: "c \<in> set (b32_group g) \<Longrightarrow> \<exists>n<32. c = b32_char n"
  by (auto simp: b32_group_def dest: digits_less [rotated])

lemma b32_group_vals:
  "map (\<lambda>c. the (b32_val c)) (b32_group g)
   = digits 32 8 (byte_digits (g @ replicate (5 - length g) (char_of (0::nat))))"
  by (auto simp: b32_group_def comp_def intro!: map_idI dest: digits_less [rotated])

lemma byte_digits_less: "byte_digits s < 256 ^ length s"
  using digits_value_less [of 256 "map code s"] by (simp add: byte_digits_def)

lemma to_bytes5_byte_digits: "length g = 5 \<Longrightarrow> to_bytes5 (byte_digits g) = g"
  using digits_digits_value [of 256 "map code g"]
  by (simp add: to_bytes5_def byte_digits_def comp_def)

lemma b32_group_value:
  "length g \<le> 5 \<Longrightarrow> digits_value 32 (map (\<lambda>c. the (b32_val c)) (b32_group g))
     = byte_digits (g @ replicate (5 - length g) (char_of (0::nat)))"
  using byte_digits_less [of "g @ replicate (5 - length g) (char_of (0::nat))"]
  by (simp add: b32_group_vals digits_value_digits)

text \<open>The encoded text without its padding, and the length of the padding.\<close>

function b32_body :: "string \<Rightarrow> string" where
  "b32_body s = (if s = [] then []
     else if length s < 5 then take (b32_keep (length s)) (b32_group s)
     else b32_group (take 5 s) @ b32_body (drop 5 s))"
  by pat_completeness auto
termination by (relation "measure length") auto

declare b32_body.simps [simp del]

definition b32_pads :: "string \<Rightarrow> nat" where
  "b32_pads s = (if length s mod 5 = 0 then 0 else 8 - b32_keep (length s mod 5))"

lemma b32_pads_Nil [simp]: "b32_pads [] = 0"
  by (simp add: b32_pads_def)

lemma len_1_4: "s \<noteq> [] \<Longrightarrow> length s < 5 \<Longrightarrow> length s \<in> {1, 2, 3, 4}"
  by (auto simp: less_Suc_eq numeral_eq_Suc)

lemma b32_pads_step [simp]: "\<not> length s < 5 \<Longrightarrow> b32_pads (drop 5 s) = b32_pads s"
  by (simp add: b32_pads_def le_mod_geq)

lemma b32_pads_short: "s \<noteq> [] \<Longrightarrow> length s < 5 \<Longrightarrow> b32_pads s = 8 - b32_keep (length s)"
  by (simp add: b32_pads_def)

lemma b32encode_body: "b32encode s = b32_body s @ replicate (b32_pads s) (CHR ''='')"
proof (induction s rule: b32encode.induct)
  case (1 s)
  show ?case
  proof (cases "s = [] \<or> length s < 5")
    case True
    then show ?thesis
      by (auto simp: b32encode.simps [of s] b32_body.simps [of s] b32_pads_short)
  next
    case False
    with 1 show ?thesis by (simp add: b32encode.simps [of s] b32_body.simps [of s])
  qed
qed

lemma b32_body_digit: "c \<in> set (b32_body s) \<Longrightarrow> \<exists>n<32. c = b32_char n"
proof (induction s rule: b32_body.induct)
  case (1 s)
  then show ?case
    by (auto simp: b32_body.simps [of s] split: if_splits dest: in_set_takeD b32_group_digit)
qed

lemma length_b32_body: "(length (b32_body s) + b32_pads s) mod 8 = 0"
proof (induction s rule: b32_body.induct)
  case (1 s)
  show ?case
  proof (cases "s = [] \<or> length s < 5")
    case True
    have "b32_keep (length s) \<le> 8" by (simp add: b32_keep_def)
    with True show ?thesis
      by (auto simp: b32_body.simps [of s] b32_pads_short)
  next
    case False
    with 1 show ?thesis
      by (simp add: b32_body.simps [of s] mod_add_left_eq [of 8, symmetric] add.assoc)
  qed
qed

lemma b32_pads_range: "b32_pads s \<in> {0, 1, 3, 4, 6}"
proof -
  have "length s mod 5 \<in> {0, 1, 2, 3, 4}" using mod_less_divisor [of 5 "length s"] by auto
  then show ?thesis by (auto simp: b32_pads_def b32_keep_def)
qed

lemma take_digits: "take k (digits b (k + m) n) = digits b k (n div b ^ m)"
  by (induction m arbitrary: n) (simp_all add: div_mult2_eq)

text \<open>The last, partial group: its characters carry the whole number, and the padding restores it.\<close>

lemma b32_partial:
  assumes "s \<noteq> []" "length s < 5"
  shows "take (length s) (to_bytes5 (digits_value 32 (map (\<lambda>c. the (b32_val c))
           (take (b32_keep (length s)) (b32_group s))) * 32 ^ (8 - b32_keep (length s)))) = s"
proof -
  let ?z = "s @ replicate (5 - length s) (char_of (0::nat))"
  let ?k = "b32_keep (length s)" and ?N = "byte_digits ?z"
  have len: "length s \<in> {1, 2, 3, 4}" using assms by (rule len_1_4)
  have k: "?k \<le> 8" by (simp add: b32_keep_def)
  have bound: "?N < 32 ^ 8"
    using byte_digits_less [of ?z] assms by (simp del: length_append add: length_append)
  have "?N = byte_digits s * 256 ^ (5 - length s)"
    by (simp add: byte_digits_def digits_value_append map_replicate_const code_def)
  moreover have "(32::nat) ^ (8 - ?k) dvd 256 ^ (5 - length s)"
    using len by (auto simp: b32_keep_def)
  ultimately have dvd: "32 ^ (8 - ?k) dvd ?N" by simp
  have "map (\<lambda>c. the (b32_val c)) (take ?k (b32_group s)) = take ?k (digits 32 (?k + (8 - ?k)) ?N)"
    using k by (simp add: take_map [symmetric] b32_group_vals)
  also have "\<dots> = digits 32 ?k (?N div 32 ^ (8 - ?k))" by (rule take_digits)
  finally have "digits_value 32 (map (\<lambda>c. the (b32_val c)) (take ?k (b32_group s)))
      = digits_value 32 (digits 32 ?k (?N div 32 ^ (8 - ?k)))" by simp
  also have "\<dots> = ?N div 32 ^ (8 - ?k)"
  proof (rule digits_value_digits)
    have "?N < 32 ^ ?k * 32 ^ (8 - ?k)" using bound k by (simp add: power_add [symmetric])
    then show "?N div 32 ^ (8 - ?k) < 32 ^ ?k" by (rule less_mult_imp_div_less)
  qed
  finally have "digits_value 32 (map (\<lambda>c. the (b32_val c)) (take ?k (b32_group s))) * 32 ^ (8 - ?k) = ?N"
    using dvd by simp
  moreover have "to_bytes5 ?N = ?z" using assms by (intro to_bytes5_byte_digits) simp
  ultimately show ?thesis by simp
qed

definition b32_tail :: "string \<Rightarrow> nat \<Rightarrow> string" where
  "b32_tail s acc = (if b32_pads s = 0 then to_bytes5 acc
     else take ((43 - 5 * b32_pads s) div 8) (to_bytes5 (acc * 32 ^ b32_pads s)))"

lemma b32_vals_Some: "c \<in> set (b32_group g) \<Longrightarrow> b32_val c \<noteq> None"
  by (auto dest!: b32_group_digit)

lemma b32_accs_body:
  "s \<noteq> [] \<Longrightarrow> \<exists>accs. b32_accs (b32_body s) = Some accs \<and> accs \<noteq> []
     \<and> concat (map to_bytes5 (butlast accs)) @ b32_tail s (last accs) = s"
proof (induction s rule: b32_body.induct)
  case (1 s)
  show ?case
  proof (cases "length s < 5")
    case True
    let ?b = "take (b32_keep (length s)) (b32_group s)"
    have len: "length s \<in> {1, 2, 3, 4}" using True "1.prems" by (intro len_1_4)
    then have "?b \<noteq> []" using length_b32_group [of s] by (fastforce simp: b32_keep_def simp del: length_b32_group)
    then have "b32_accs ?b = Some [digits_value 32 (map (\<lambda>c. the (b32_val c)) ?b)]"
      by (intro b32_accs_short) (auto dest!: in_set_takeD b32_vals_Some)
    moreover have "(43 - 5 * b32_pads s) div 8 = length s" "b32_pads s \<noteq> 0"
      using len True "1.prems" by (auto simp: b32_pads_short b32_keep_def)
    ultimately show ?thesis
      using True "1.prems" b32_partial [of s]
      by (simp add: b32_body.simps [of s] b32_tail_def b32_pads_short)
  next
    case False
    then have l5: "length (take 5 s) = 5" by simp
    have acc1: "b32_accs (b32_group (take 5 s) @ t) = map_option (Cons (byte_digits (take 5 s))) (b32_accs t)" for t
      using b32_group_value [of "take 5 s"] l5 by (subst b32_accs_append) (auto simp: b32_vals_Some)
    show ?thesis
    proof (cases "drop 5 s = []")
      case True
      with False have "take 5 s = s" "length s = 5" by auto
      then show ?thesis
        using acc1 [of "[]"] False "1.prems" True to_bytes5_byte_digits [of s]
        by (simp add: b32_body.simps [of s] b32_body.simps [of "[]"] b32_accs.simps [of "[]"] b32_tail_def b32_pads_def)
    next
      case rest: False
      from "1.IH" [OF "1.prems" False rest] obtain accs where
        "b32_accs (b32_body (drop 5 s)) = Some accs" "accs \<noteq> []"
        "concat (map to_bytes5 (butlast accs)) @ b32_tail (drop 5 s) (last accs) = drop 5 s" by blast
      moreover have "b32_tail (drop 5 s) = b32_tail s" using False by (simp add: b32_tail_def fun_eq_iff)
      ultimately show ?thesis
        using acc1 [of "b32_body (drop 5 s)"] False "1.prems" to_bytes5_byte_digits [OF l5]
        by (simp add: b32_body.simps [of s] append_assoc [symmetric] del: append_assoc) simp
    qed
  qed
qed

theorem b32decode_b32encode: "b32decode (b32encode s) = Inr s"
proof (cases "s = []")
  case True
  then show ?thesis
    by (simp add: b32encode.simps [of "[]"] b32decode_def is_ascii_def rstrip_of_def b32_accs.simps [of "[]"])
next
  case False
  have asc: "is_ascii (b32encode s)"
    by (auto simp: b32encode_body is_ascii_def list_all_iff b32_char_plain code_literals dest!: b32_body_digit)
  have "upper (b32_body s) = b32_body s"
    by (rule map_idI) (auto dest!: b32_body_digit simp: b32_val_char_upper)
  moreover have "to_upper (CHR ''='') = CHR ''=''" by (simp add: to_upper_eq_iff code_literals)
  ultimately have up: "upper (b32encode s) = b32_body s @ replicate (b32_pads s) (CHR ''='')"
    by (simp add: b32encode_body)
  have strip: "rstrip_of (\<lambda>c. c = CHR ''='') (upper (b32encode s)) = b32_body s"
    unfolding up by (subst rstrip_of_replicate, simp, rule rstrip_of_id)
      (auto dest!: b32_body_digit simp: b32_char_plain)
  have len: "length (b32encode s) - length (b32_body s) = b32_pads s"
    by (simp add: b32encode_body)
  from b32_accs_body [OF False] obtain accs where a: "b32_accs (b32_body s) = Some accs" "accs \<noteq> []"
    "concat (map to_bytes5 (butlast accs)) @ b32_tail s (last accs) = s" by blast
  have m8: "length (b32encode s) mod 8 = 0" using length_b32_body [of s] by (simp add: b32encode_body)
  show ?thesis
  proof (cases "b32_pads s = 0")
    case True
    have "concat (map to_bytes5 accs) = concat (map to_bytes5 (butlast accs)) @ to_bytes5 (last accs)"
      using a(2) by (cases accs rule: rev_cases) simp_all
    then show ?thesis using a True asc m8 by (simp add: b32decode_def strip len Let_def b32_tail_def)
  next
    case np: False
    then show ?thesis
      using a asc m8 b32_pads_range [of s] by (auto simp: b32decode_def strip len Let_def b32_tail_def)
  qed
qed

end
