(* ===== verification/Hashes.thy ===== *)
theory Hashes
  imports Codec "HOL-Library.Word"
begin

text \<open>
  The part of Python's \<open>hashlib\<close>, \<open>hmac\<close> and \<open>struct\<close> the tokens use: SHA-1, SHA-256, HMAC with a
  block of 64 bytes, big-endian packing of 32- and 64-bit integers, and \<open>hexdigest\<close>. All of it
  computes on 32-bit words. The lemmas are the ones the token component relies on: the length of
  the digests, and that a hex digest is printable ASCII text in lower case.
\<close>

unbundle bit_operations_syntax

type_synonym w32 = "32 word"

section \<open>Bytes and words\<close>

definition word_of_bytes :: "string \<Rightarrow> w32" where
  "word_of_bytes bs = foldl (\<lambda>a c. push_bit 8 a OR of_nat (code c)) 0 bs"

definition bytes_of_word :: "w32 \<Rightarrow> string" where
  "bytes_of_word w = map (\<lambda>k. char_of (unat (ucast (drop_bit k w) :: 8 word))) [24, 16, 8, 0]"

text \<open>\<open>struct.pack(">Q", n)\<close>.\<close>

definition pack_Q :: "int \<Rightarrow> exn + string" where
  "pack_Q n = (if 0 \<le> n \<and> n < 2 ^ 64 then Inr (map char_of (digits 256 8 (nat n))) else Inl StructError)"

fun groups :: "nat \<Rightarrow> 'a list \<Rightarrow> 'a list list" where
  "groups n xs = (if n = 0 \<or> xs = [] then [] else take n xs # groups n (drop n xs))"

declare groups.simps [simp del]

text \<open>The padding of both hash functions: a one bit, zeros, and the length in bits.\<close>

definition pad_message :: "string \<Rightarrow> string" where
  "pad_message m = m @ char_of (128::nat) # replicate ((119 - length m mod 64) mod 64) (char_of (0::nat))
     @ map char_of (digits 256 8 (8 * length m))"

definition message_blocks :: "string \<Rightarrow> w32 list list" where
  "message_blocks m = map (\<lambda>b. map word_of_bytes (groups 4 b)) (groups 64 (pad_message m))"

section \<open>SHA-256\<close>

type_synonym sha256_state = "w32 \<times> w32 \<times> w32 \<times> w32 \<times> w32 \<times> w32 \<times> w32 \<times> w32"

definition sha256_init :: sha256_state where
  "sha256_init = (1779033703, 3144134277, 1013904242, 2773480762, 1359893119, 2600822924, 528734635, 1541459225)"

text \<open>The round constants (the first 32 bits of the fractions of cube roots of primes), in decimal.\<close>

definition sha256_k :: "w32 list" where
  "sha256_k = [
    1116352408, 1899447441, 3049323471, 3921009573, 961987163, 1508970993, 2453635748, 2870763221,
    3624381080, 310598401, 607225278, 1426881987, 1925078388, 2162078206, 2614888103, 3248222580,
    3835390401, 4022224774, 264347078, 604807628, 770255983, 1249150122, 1555081692, 1996064986,
    2554220882, 2821834349, 2952996808, 3210313671, 3336571891, 3584528711, 113926993, 338241895,
    666307205, 773529912, 1294757372, 1396182291, 1695183700, 1986661051, 2177026350, 2456956037,
    2730485921, 2820302411, 3259730800, 3345764771, 3516065817, 3600352804, 4094571909, 275423344,
    430227734, 506948616, 659060556, 883997877, 958139571, 1322822218, 1537002063, 1747873779,
    1955562222, 2024104815, 2227730452, 2361852424, 2428436474, 2756734187, 3204031479, 3329325298]"

definition sha256_extend :: "w32 list \<Rightarrow> w32" where
  \<comment> \<open>the next schedule word, from the last sixteen, oldest first\<close>
  "sha256_extend w =
    (let a = w ! 1; b = w ! 14;
         s0 = word_rotr 7 a XOR word_rotr 18 a XOR drop_bit 3 a;
         s1 = word_rotr 17 b XOR word_rotr 19 b XOR drop_bit 10 b
     in w ! 0 + s0 + w ! 9 + s1)"

fun sha256_round :: "w32 \<Rightarrow> w32 \<Rightarrow> sha256_state \<Rightarrow> sha256_state" where
  "sha256_round k w (a, b, c, d, e, f, g, h) =
    (let s1 = word_rotr 6 e XOR word_rotr 11 e XOR word_rotr 25 e;
         ch = (e AND f) XOR (NOT e AND g);
         t1 = h + s1 + ch + k + w;
         s0 = word_rotr 2 a XOR word_rotr 13 a XOR word_rotr 22 a;
         maj = (a AND b) XOR (a AND c) XOR (b AND c)
     in (t1 + (s0 + maj), a, b, c, d + t1, e, f, g))"

text \<open>The rounds of a block; the window holds the sixteen schedule words still needed.\<close>

fun sha256_rounds :: "w32 list \<Rightarrow> w32 list \<Rightarrow> sha256_state \<Rightarrow> sha256_state" where
  "sha256_rounds [] w st = st"
| "sha256_rounds (k # ks) w st = sha256_rounds ks (tl w @ [sha256_extend w]) (sha256_round k (hd w) st)"

fun sha256_add :: "sha256_state \<Rightarrow> sha256_state \<Rightarrow> sha256_state" where
  "sha256_add (a, b, c, d, e, f, g, h) (a', b', c', d', e', f', g', h') =
     (a + a', b + b', c + c', d + d', e + e', f + f', g + g', h + h')"

definition sha256_block :: "w32 list \<Rightarrow> sha256_state \<Rightarrow> sha256_state" where
  "sha256_block b st = sha256_add st (sha256_rounds sha256_k b st)"

fun sha256_bytes :: "sha256_state \<Rightarrow> string" where
  "sha256_bytes (a, b, c, d, e, f, g, h) = concat (map bytes_of_word [a, b, c, d, e, f, g, h])"

definition sha256 :: "string \<Rightarrow> string" where
  "sha256 m = sha256_bytes (fold sha256_block (message_blocks m) sha256_init)"

section \<open>SHA-1\<close>

type_synonym sha1_state = "w32 \<times> w32 \<times> w32 \<times> w32 \<times> w32"

definition sha1_init :: sha1_state where
  "sha1_init = (1732584193, 4023233417, 2562383102, 271733878, 3285377520)"

definition sha1_extend :: "w32 list \<Rightarrow> w32" where
  "sha1_extend w = word_rotl 1 (w ! 13 XOR w ! 8 XOR w ! 2 XOR w ! 0)"

fun sha1_fk :: "nat \<Rightarrow> w32 \<Rightarrow> w32 \<Rightarrow> w32 \<Rightarrow> w32 \<times> w32" where
  "sha1_fk i b c d =
    (if i < 20 then ((b AND c) OR (NOT b AND d), 1518500249)
     else if i < 40 then (b XOR c XOR d, 1859775393)
     else if i < 60 then ((b AND c) OR (b AND d) OR (c AND d), 2400959708)
     else (b XOR c XOR d, 3395469782))"

fun sha1_round :: "nat \<Rightarrow> w32 \<Rightarrow> sha1_state \<Rightarrow> sha1_state" where
  "sha1_round i w (a, b, c, d, e) =
    (let (f, k) = sha1_fk i b c d
     in (word_rotl 5 a + f + e + k + w, a, word_rotl 30 b, c, d))"

fun sha1_rounds :: "nat list \<Rightarrow> w32 list \<Rightarrow> sha1_state \<Rightarrow> sha1_state" where
  "sha1_rounds [] w st = st"
| "sha1_rounds (i # is) w st = sha1_rounds is (tl w @ [sha1_extend w]) (sha1_round i (hd w) st)"

fun sha1_add :: "sha1_state \<Rightarrow> sha1_state \<Rightarrow> sha1_state" where
  "sha1_add (a, b, c, d, e) (a', b', c', d', e') = (a + a', b + b', c + c', d + d', e + e')"

definition sha1_block :: "w32 list \<Rightarrow> sha1_state \<Rightarrow> sha1_state" where
  "sha1_block b st = sha1_add st (sha1_rounds [0..<80] b st)"

fun sha1_bytes :: "sha1_state \<Rightarrow> string" where
  "sha1_bytes (a, b, c, d, e) = concat (map bytes_of_word [a, b, c, d, e])"

definition sha1 :: "string \<Rightarrow> string" where
  "sha1 m = sha1_bytes (fold sha1_block (message_blocks m) sha1_init)"

section \<open>HMAC and hex digests\<close>

definition xor_byte :: "nat \<Rightarrow> char \<Rightarrow> char" where
  "xor_byte n c = char_of (code c XOR n)"

definition hmac_key :: "(string \<Rightarrow> string) \<Rightarrow> string \<Rightarrow> string" where
  "hmac_key h key =
    (let k = (if 64 < length key then h key else key) in k @ replicate (64 - length k) (char_of (0::nat)))"

definition hmac :: "(string \<Rightarrow> string) \<Rightarrow> string \<Rightarrow> string \<Rightarrow> string" where
  "hmac h key msg =
    h (map (xor_byte 0x5c) (hmac_key h key) @ h (map (xor_byte 0x36) (hmac_key h key) @ msg))"

definition hex_char :: "nat \<Rightarrow> char" where
  "hex_char n = (if n < 10 then char_of (48 + n) else char_of (87 + n))"

definition hex :: "string \<Rightarrow> string" where
  "hex bs = concat (map (\<lambda>c. [hex_char (code c div 16), hex_char (code c mod 16)]) bs)"

definition hmac_sha256_hex :: "string \<Rightarrow> string \<Rightarrow> string" where
  "hmac_sha256_hex key msg = hex (hmac sha256 key msg)"

definition hmac_sha1 :: "string \<Rightarrow> string \<Rightarrow> string" where
  "hmac_sha1 key msg = hmac sha1 key msg"

definition sha256_hex :: "string \<Rightarrow> string" where
  "sha256_hex m = hex (sha256 m)"

lemma length_bytes_of_word [simp]: "length (bytes_of_word w) = 4"
  by (simp add: bytes_of_word_def)

lemma length_sha256 [simp]: "length (sha256 m) = 32"
  by (cases "fold sha256_block (message_blocks m) sha256_init" rule: sha256_bytes.cases) (simp add: sha256_def)

lemma length_sha1 [simp]: "length (sha1 m) = 20"
  by (cases "fold sha1_block (message_blocks m) sha1_init" rule: sha1_bytes.cases) (simp add: sha1_def)

lemma length_hmac_sha1 [simp]: "length (hmac_sha1 k m) = 20"
  by (simp add: hmac_sha1_def hmac_def)

lemma length_hex [simp]: "length (hex bs) = 2 * length bs"
  by (induction bs) (simp_all add: hex_def)

lemma length_hmac_sha256_hex [simp]: "length (hmac_sha256_hex k m) = 64"
  by (simp add: hmac_sha256_hex_def hmac_def)

lemma hex_char_ascii: "n < 16 \<Longrightarrow> code (hex_char n) < 128"
  by (simp add: hex_char_def)

lemma hex_ascii: "is_ascii (hex bs)"
  by (auto simp: is_ascii_def list_all_iff hex_def intro!: hex_char_ascii less_mult_imp_div_less)

lemma hmac_sha256_hex_ascii [simp]: "is_ascii (hmac_sha256_hex k m)"
  by (simp add: hmac_sha256_hex_def hex_ascii)

end
