(* ===== verification/Obfuscation.thy ===== *)
theory Obfuscation
  imports Codec
begin

text \<open>
  \<open>qml/utilities/fmd/obfuscation.py\<close>: the reversible obfuscation of stored secrets,
  \<open>"obf1:" + base64(XOR(plaintext, key))\<close>, with its interface (a codec that is a round trip on the
  values it accepts and idempotent on the ones it produced) as a locale for the settings and
  device tables.
\<close>

definition marker :: string where
  "marker = ''obf1:''"

definition obf_key :: string where
  "obf_key = ''harbour-find-my-device/obfuscation-key/v1''"

fun xor_from :: "nat \<Rightarrow> string \<Rightarrow> string" where
  "xor_from i [] = []"
| "xor_from i (b # bs) =
     char_of (Bit_Operations.xor (code b) (code (obf_key ! (i mod length obf_key)))) # xor_from (Suc i) bs"

definition obf_xor :: "string \<Rightarrow> string" where
  "obf_xor data = xor_from 0 data"

text \<open>\<open>obfuscate(plaintext)\<close>: \<open>None\<close> and \<open>""\<close> pass through, a marked string is returned as it is.\<close>

definition obfuscate :: "pyval \<Rightarrow> string option" where
  "obfuscate plaintext =
    (if plaintext = PNone then None
     else if plaintext = PStr [] then Some []
     else case plaintext of
        PStr s \<Rightarrow> if starts_with s marker then Some s else Some (marker @ b64encode (obf_xor s))
      | v \<Rightarrow> Some (marker @ b64encode (obf_xor (py_str v))))"

text \<open>\<open>deobfuscate(stored)\<close>: any failure to decode returns the stored text.\<close>

definition deobfuscate :: "string option \<Rightarrow> string option" where
  "deobfuscate stored = (case stored of
       None \<Rightarrow> None
     | Some s \<Rightarrow>
         if s = [] then Some []
         else if \<not> starts_with s marker then Some s
         else
           let body = drop (length marker) s in
           if \<not> is_ascii body then Some s
           else case b64decode body of
                  Inl _ \<Rightarrow> Some s
                | Inr raw \<Rightarrow> if valid_utf8 (obf_xor raw) then Some (obf_xor raw) else Some s)"

lemma xor_code_less: "Bit_Operations.xor (code a) (code b) < 256"
proof -
  have "take_bit 8 (Bit_Operations.xor (code a) (code b)) = Bit_Operations.xor (code a) (code b)"
    by (simp add: take_bit_nat_eq_self)
  then show ?thesis using take_bit_nat_less_exp [of 8 "Bit_Operations.xor (code a) (code b)"] by simp
qed

lemma length_xor_from [simp]: "length (xor_from i s) = length s"
  by (induction s arbitrary: i) auto

lemma xor_from_involution [simp]: "xor_from i (xor_from i s) = s"
  by (induction s arbitrary: i) (auto simp: xor_code_less xor.assoc)

lemma obf_xor_involution [simp]: "obf_xor (obf_xor s) = s"
  by (simp add: obf_xor_def)

lemma deobfuscate_obfuscate_plain:
  "valid_utf8 s \<Longrightarrow> \<not> starts_with s marker \<Longrightarrow> deobfuscate (obfuscate (PStr s)) = Some s"
  by (auto simp: obfuscate_def deobfuscate_def ascii_b64encode starts_with_def marker_def)

lemma obfuscate_marked: "obfuscate v = Some t \<Longrightarrow> t = [] \<or> starts_with t marker"
  by (auto simp: obfuscate_def split: if_splits pyval.splits)

text \<open>
  Obfuscating a stored column again changes nothing, and a plain text of
  an older installation is read as it is; so migrating a row can be repeated.
\<close>
lemma obfuscation_stable:
  "obfuscate v = Some t \<Longrightarrow> obfuscate (PStr t) = Some t"
  using obfuscate_marked [of v t] by (auto simp: obfuscate_def)


end
