(* ===== verification/Store.thy ===== *)
theory Store
  imports Prelude
begin

text \<open>
  \<open>qml/utilities/fmd/db.py\<close>: the shared SQLite file. The tables of \<open>_SCHEMA\<close> are lists of row
  records (the two key/value tables are maps), together with the AUTOINCREMENT counters; a
  statement that violates a constraint is an \<open>IntegrityError\<close>. A connection commits on the code's
  explicit commits only: closing it earlier, or leaving by an exception, rolls back. The
  interface of a key/value table is the locale \<open>kv_table\<close>.
\<close>

type_synonym kv = "string \<rightharpoonup> string option"

record device_row =
  d_id :: nat
  d_device_id :: string
  d_label :: "string option"
  d_is_own :: bool
  d_pin :: "string option"
  d_totp :: "string option"
  d_last_auth :: "string option"
  d_deleted :: bool
  d_last_ack :: "string option"
  d_created :: string
  d_updated :: "string option"

record backup_row =
  b_id :: nat
  b_device_id :: string
  b_hash :: string
  b_used :: bool
  b_used_utc :: "string option"
  b_created :: string

record gps_row =
  g_id :: nat
  g_device_id :: string
  g_ts_utc :: pyval
  g_ts_local :: pyval
  g_lat :: pyval
  g_lon :: pyval
  g_alt :: pyval
  g_speed :: pyval
  g_accuracy :: pyval
  g_battery :: pyval

record database =
  settings_t :: kv
  runtime_t :: kv
  devices_t :: "device_row list"
  backup_t :: "backup_row list"
  gps_t :: "gps_row list"
  device_seq :: nat
  backup_seq :: nat
  gps_seq :: nat

definition empty_db :: database where
  "empty_db = \<lparr>settings_t = Map.empty, runtime_t = Map.empty, devices_t = [], backup_t = [],
     gps_t = [], device_seq = 0, backup_seq = 0, gps_seq = 0\<rparr>"

type_synonym 'a dbop = "database \<Rightarrow> (exn + 'a) \<times> database"

section \<open>Constraints of the schema\<close>

text \<open>The column constraints of \<open>devices\<close>: no blank in the id, an id that is not empty, and a known result.\<close>

definition device_row_ok :: "device_row \<Rightarrow> bool" where
  "device_row_ok r \<longleftrightarrow> CHR '' '' \<notin> set (d_device_id r) \<and> d_device_id r \<noteq> []
     \<and> d_last_auth r \<in> {None, Some ''ok'', Some ''auth_failed'', Some ''disabled''}"

text \<open>The table constraints: unique ids, and the partial unique index on \<open>Is_Own = 1\<close>.\<close>

definition devices_ok :: "device_row list \<Rightarrow> bool" where
  "devices_ok ds \<longleftrightarrow> list_all device_row_ok ds \<and> distinct (map d_device_id ds)
     \<and> length (filter d_is_own ds) \<le> 1"

text \<open>\<open>backup_codes\<close>: unique hashes, and every row's device exists.\<close>

definition backups_ok :: "device_row list \<Rightarrow> backup_row list \<Rightarrow> bool" where
  "backups_ok ds bs \<longleftrightarrow> distinct (map b_hash bs) \<and> (\<forall>b\<in>set bs. b_device_id b \<in> d_device_id ` set ds)"

text \<open>Write a new \<open>devices\<close> table back if it satisfies its constraints.\<close>

definition write_devices :: "device_row list \<Rightarrow> database \<Rightarrow> exn + database" where
  "write_devices ds db =
     (if devices_ok ds \<and> (\<forall>b\<in>set (backup_t db). b_device_id b \<in> d_device_id ` set ds)
      then Inr (db\<lparr>devices_t := ds\<rparr>) else Inl IntegrityError)"

text \<open>\<open>INSERT INTO backup_codes\<close> of one row.\<close>

definition insert_backup :: "string \<Rightarrow> string \<Rightarrow> string \<Rightarrow> database \<Rightarrow> exn + database" where
  "insert_backup dev h now db =
     (if h \<in> b_hash ` set (backup_t db) \<or> dev \<notin> d_device_id ` set (devices_t db) then Inl IntegrityError
      else Inr (db\<lparr>backup_seq := Suc (backup_seq db),
                   backup_t := backup_t db @ [\<lparr>b_id = Suc (backup_seq db), b_device_id = dev,
                      b_hash = h, b_used = False, b_used_utc = None, b_created = now\<rparr>]\<rparr>))"

text \<open>A value SQLite can bind: no list or dict, and integers of 64 bits.\<close>

fun bindable :: "pyval \<Rightarrow> bool" where
  "bindable (PInt i) \<longleftrightarrow> - (2 ^ 63) \<le> i \<and> i < 2 ^ 63"
| "bindable (PCont _ _) \<longleftrightarrow> False"
| "bindable _ \<longleftrightarrow> True"

section \<open>Connections\<close>

text \<open>\<open>with connection() as conn:\<close> commits on success and rolls back on an exception.\<close>

definition with_connection :: "'a dbop \<Rightarrow> 'a dbop" where
  "with_connection body db =
     (case body db of (Inr x, db') \<Rightarrow> (Inr x, db') | (Inl e, _) \<Rightarrow> (Inl e, db))"

text \<open>
  The schema as \<open>connect\<close> and \<open>init_schema\<close> see it: the tables present in the file and the
  columns of \<open>devices\<close>. \<open>CREATE TABLE IF NOT EXISTS\<close> keeps an old table, so an old \<open>devices\<close>
  table gets its \<open>Deleted\<close> column from \<open>_migrate\<close>.
\<close>

record schema =
  tables :: "string list"
  device_cols :: "string list"

definition schema_tables :: "string list" where
  "schema_tables = [''gpsdata'', ''devices'', ''backup_codes'', ''settings'', ''runtime'']"

definition schema_device_cols :: "string list" where
  "schema_device_cols = [''Id'', ''Device_Id'', ''Device_Label'', ''Is_Own'', ''Pin'', ''Totp_Secret'',
     ''Last_Auth_Result'', ''Deleted'', ''Last_Ack_Utc'', ''Created_Utc'', ''Updated_Utc'']"

definition create_schema :: "schema \<Rightarrow> schema" where
  "create_schema sc = \<lparr>tables = tables sc @ filter (\<lambda>t. t \<notin> set (tables sc)) schema_tables,
     device_cols = (if ''devices'' \<in> set (tables sc) then device_cols sc else schema_device_cols)\<rparr>"

definition migrate :: "schema \<Rightarrow> schema" where
  "migrate sc = (if ''Deleted'' \<in> set (device_cols sc) then sc
     else sc\<lparr>device_cols := device_cols sc @ [''Deleted'']\<rparr>)"

definition connect_schema :: "schema \<Rightarrow> schema" where
  "connect_schema sc = (if ''runtime'' \<in> set (tables sc) then sc else migrate (create_schema sc))"

definition init_schema :: "schema \<Rightarrow> schema" where
  "init_schema sc = migrate (create_schema (connect_schema sc))"

definition schema_complete :: "schema \<Rightarrow> bool" where
  "schema_complete sc \<longleftrightarrow> set schema_tables \<subseteq> set (tables sc) \<and> ''Deleted'' \<in> set (device_cols sc)"

lemma init_schema_complete: "schema_complete (init_schema sc)"
  by (auto simp: schema_complete_def init_schema_def migrate_def create_schema_def)

lemma migrate_create_complete:
  "schema_complete sc \<Longrightarrow> migrate (create_schema sc) = sc"
  by (cases sc) (auto simp: schema_complete_def migrate_def create_schema_def schema_tables_def filter_empty_conv)

lemma init_schema_idem: "init_schema (init_schema sc) = init_schema sc"
proof -
  have c: "schema_complete (init_schema sc)" by (rule init_schema_complete)
  then have "connect_schema (init_schema sc) = init_schema sc"
    by (auto simp: connect_schema_def schema_complete_def schema_tables_def)
  with migrate_create_complete [OF c] show ?thesis by (simp add: init_schema_def)
qed

section \<open>Key/value tables\<close>

text \<open>
  What a client of the \<open>settings\<close> or \<open>runtime\<close> table relies on: an upsert
  (\<open>INSERT .. ON CONFLICT(Key) DO UPDATE\<close>) is read back, and leaves the other keys alone.
\<close>

locale kv_table =
  fixes lookup :: "'s \<Rightarrow> 'k \<Rightarrow> 'v option"
    and upsert :: "'k \<Rightarrow> 'v \<Rightarrow> 's \<Rightarrow> 's"
  assumes lookup_same: "lookup (upsert k v s) k = Some v"
    and lookup_other: "k' \<noteq> k \<Longrightarrow> lookup (upsert k v s) k' = lookup s k'"
begin

lemma lookup_upsert: "lookup (upsert k v s) k' = (if k' = k then Some v else lookup s k')"
  by (simp add: lookup_same lookup_other)

lemma lookup_fold:
  "lookup (fold (\<lambda>(k, v). upsert k v) kvs s) k =
     (case map_of (rev kvs) k of Some v \<Rightarrow> Some v | None \<Rightarrow> lookup s k)"
  by (induction kvs arbitrary: s) (auto simp: lookup_upsert map_add_def split: option.splits)

lemma lookup_fold_frame:
  "k \<notin> fst ` set kvs \<Longrightarrow> lookup (fold (\<lambda>(k, v). upsert k v) kvs s) k = lookup s k"
  by (simp add: lookup_fold map_of_eq_None_iff [THEN iffD2])

end

definition settings_lookup :: "database \<Rightarrow> string \<Rightarrow> string option option" where
  "settings_lookup db k = settings_t db k"

definition settings_upsert :: "string \<Rightarrow> string option \<Rightarrow> database \<Rightarrow> database" where
  "settings_upsert k v db = db\<lparr>settings_t := (settings_t db)(k \<mapsto> v)\<rparr>"

definition runtime_lookup :: "database \<Rightarrow> string \<Rightarrow> string option option" where
  "runtime_lookup db k = runtime_t db k"

definition runtime_upsert :: "string \<Rightarrow> string option \<Rightarrow> database \<Rightarrow> database" where
  "runtime_upsert k v db = db\<lparr>runtime_t := (runtime_t db)(k \<mapsto> v)\<rparr>"

interpretation settings_tab: kv_table settings_lookup settings_upsert
  by unfold_locales (auto simp: settings_lookup_def settings_upsert_def)

interpretation runtime_tab: kv_table runtime_lookup runtime_upsert
  by unfold_locales (auto simp: runtime_lookup_def runtime_upsert_def)

lemma tables_frame [simp]:
  "settings_lookup (runtime_upsert k v db) = settings_lookup db"
  "runtime_lookup (settings_upsert k v db) = runtime_lookup db"
  by (auto simp: settings_lookup_def settings_upsert_def runtime_lookup_def runtime_upsert_def)

text \<open>
  Whatever tables an older version left, \<open>init_schema\<close> leaves every
  table of the schema and the \<open>Deleted\<close> column present, keeps the tables there were, and a second
  start changes nothing.
\<close>
lemma init_schema_upgrades:
  "schema_complete (init_schema sc) \<and> init_schema (init_schema sc) = init_schema sc
    \<and> set (tables sc) \<subseteq> set (tables (init_schema sc))"
proof -
  have "set (tables sc) \<subseteq> set (tables (init_schema sc))"
    by (auto simp: init_schema_def connect_schema_def migrate_def create_schema_def)
  then show ?thesis by (simp add: init_schema_complete init_schema_idem)
qed

end
