(* ===== verification/Settings.thy ===== *)
theory Settings
  imports Store Obfuscation
begin

text \<open>
  \<open>qml/utilities/fmd/settings.py\<close>: the settings table behind the feature switches, with the
  obfuscation of the secret-valued keys. Values come from the UI as Python values and are
  stored as text. The log line of a write is a value of the model, so that what it shows can be
  stated.
\<close>

abbreviation "DEVICE_LABEL \<equiv> ''device_label''"
abbreviation "GPS_INTERVAL_MIN \<equiv> ''gps_interval_min''"
abbreviation "AUTO_ENABLE_LOCATION \<equiv> ''auto_enable_location''"
abbreviation "AUTO_ENABLE_MOBILE_DATA \<equiv> ''auto_enable_mobile_data''"
abbreviation "FIXED_LOCATION_WIFI \<equiv> ''fixed_location_wifi''"
abbreviation "FIXED_LOCATION_COORDS \<equiv> ''fixed_location_coords''"
abbreviation "MQTT_ENABLED \<equiv> ''mqtt_enabled''"
abbreviation "MQTT_SERVER \<equiv> ''mqtt_server''"
abbreviation "MQTT_TLS \<equiv> ''mqtt_tls''"
abbreviation "MQTT_USERNAME \<equiv> ''mqtt_username''"
abbreviation "MQTT_PASSWORD \<equiv> ''mqtt_password''"
abbreviation "MQTT_PORT \<equiv> ''mqtt_port''"
abbreviation "BACKGROUND_ENABLED \<equiv> ''background_enabled''"
abbreviation "RING_ENABLED \<equiv> ''ring_enabled''"
abbreviation "RING_TONE \<equiv> ''ring_tone''"
abbreviation "LOCK_ENABLED \<equiv> ''lock_enabled''"
abbreviation "DELETE_ENABLED \<equiv> ''delete_enabled''"
abbreviation "CAMERA_ENABLED \<equiv> ''camera_enabled''"
abbreviation "WEBDAV_URL \<equiv> ''webdav_url''"
abbreviation "WEBDAV_USERNAME \<equiv> ''webdav_username''"
abbreviation "WEBDAV_PASSWORD \<equiv> ''webdav_password''"
abbreviation "SMS_REMOTE_ENABLED \<equiv> ''sms_remote_enabled''"
abbreviation "SMS_GPS_ENABLED \<equiv> ''sms_gps_enabled''"
abbreviation "SMS_WHITELIST \<equiv> ''sms_whitelist''"
abbreviation "TILE_PROVIDER \<equiv> ''tile_provider''"
abbreviation "GEOAPIFY_KEY \<equiv> ''geoapify_key''"

definition secret_keys :: "string list" where
  "secret_keys = [MQTT_PASSWORD, WEBDAV_PASSWORD]"

definition log_masked_keys :: "string list" where
  "log_masked_keys = secret_keys @ [GEOAPIFY_KEY, SMS_WHITELIST, FIXED_LOCATION_WIFI, FIXED_LOCATION_COORDS]"

definition DEFAULTS :: "(string \<times> string) list" where
  "DEFAULTS =
    [(DEVICE_LABEL, ''''), (GPS_INTERVAL_MIN, ''5''), (AUTO_ENABLE_LOCATION, ''0''),
     (AUTO_ENABLE_MOBILE_DATA, ''0''), (FIXED_LOCATION_WIFI, ''''), (FIXED_LOCATION_COORDS, ''''),
     (MQTT_ENABLED, ''0''), (MQTT_SERVER, ''''), (MQTT_TLS, ''1''), (MQTT_USERNAME, ''''),
     (MQTT_PASSWORD, ''''), (MQTT_PORT, ''8883''), (BACKGROUND_ENABLED, ''0''), (RING_ENABLED, ''0''),
     (RING_TONE, ''/usr/share/sounds/jolla-ringtones/stereo/jolla-ringtone.ogg''),
     (LOCK_ENABLED, ''0''), (DELETE_ENABLED, ''0''), (CAMERA_ENABLED, ''0''), (WEBDAV_URL, ''''),
     (WEBDAV_USERNAME, ''''), (WEBDAV_PASSWORD, ''''), (SMS_REMOTE_ENABLED, ''0''),
     (SMS_GPS_ENABLED, ''0''), (SMS_WHITELIST, ''''), (TILE_PROVIDER, ''osm''), (GEOAPIFY_KEY, '''')]"

text \<open>\<open>get(key, default=None)\<close>.\<close>

definition settings_get :: "database \<Rightarrow> string \<Rightarrow> string option \<Rightarrow> string option" where
  "settings_get db key dflt = (case settings_lookup db key of
       None \<Rightarrow> (if dflt \<noteq> None then dflt else map_of DEFAULTS key)
     | Some v \<Rightarrow> if key \<in> set secret_keys then deobfuscate v else v)"

text \<open>The text \<open>set(key, value)\<close> stores, the write, and its log line.\<close>

definition settings_stored :: "string \<Rightarrow> pyval \<Rightarrow> string option" where
  "settings_stored key v = (if key \<in> set secret_keys then obfuscate v
     else if v = PNone then Some [] else Some (py_str v))"

definition settings_set :: "string \<Rightarrow> pyval \<Rightarrow> database \<Rightarrow> database" where
  "settings_set key v db = settings_upsert key (settings_stored key v) db"

definition settings_log :: "string \<Rightarrow> pyval \<Rightarrow> string" where
  "settings_log key v = ''setting saved: '' @ key @ '' = '' @
     (if key \<in> set log_masked_keys then ''***''
      else case settings_stored key v of None \<Rightarrow> ''None'' | Some s \<Rightarrow> s)"

text \<open>\<open>set_many(mapping)\<close>: one transaction; no write of it can fail.\<close>

definition settings_set_many :: "(string \<times> pyval) list \<Rightarrow> database \<Rightarrow> database" where
  "settings_set_many kvs db = fold (\<lambda>(k, v). settings_set k v) kvs db"

definition str_opt :: "string option \<Rightarrow> string" where
  "str_opt v = (case v of None \<Rightarrow> ''None'' | Some s \<Rightarrow> s)"

definition get_bool :: "database \<Rightarrow> string \<Rightarrow> bool" where
  "get_bool db key \<longleftrightarrow>
     strip (str_opt (settings_get db key None)) \<in> {''1'', ''true'', ''True'', ''yes'', ''on''}"

definition get_int :: "database \<Rightarrow> string \<Rightarrow> int \<Rightarrow> int" where
  "get_int db key fallback =
     (case py_int (strip (str_opt (settings_get db key None))) of None \<Rightarrow> fallback | Some i \<Rightarrow> i)"

definition get_all_public :: "database \<Rightarrow> kv" where
  "get_all_public db = (\<lambda>key. case settings_lookup db key of
       None \<Rightarrow> map_option Some (map_of DEFAULTS key)
     | Some v \<Rightarrow> Some (if key \<in> set secret_keys then deobfuscate v else v))"

text \<open>A setting that is present and not empty: \<open>bool(settings.get(key))\<close>.\<close>

definition setting_filled :: "database \<Rightarrow> string \<Rightarrow> bool" where
  "setting_filled db key \<longleftrightarrow> settings_get db key None \<notin> {None, Some []}"

section \<open>The codec behind the secret keys\<close>

text \<open>
  The interface of a table with secret columns: what is encoded on write is decoded on read.
\<close>

locale secret_codec =
  fixes enc :: "'p \<Rightarrow> 'c"
    and dec :: "'c \<Rightarrow> 'r"
    and storable :: "'p \<Rightarrow> 'r \<Rightarrow> bool"
  assumes dec_enc: "storable p r \<Longrightarrow> dec (enc p) = r"

locale secret_table = kv_table lookup upsert + secret_codec enc dec storable
  for lookup :: "'s \<Rightarrow> 'k \<Rightarrow> 'c option" and upsert :: "'k \<Rightarrow> 'c \<Rightarrow> 's \<Rightarrow> 's"
    and enc :: "'p \<Rightarrow> 'c" and dec :: "'c \<Rightarrow> 'r" and storable :: "'p \<Rightarrow> 'r \<Rightarrow> bool"
begin

lemma read_back: "storable p r \<Longrightarrow> map_option dec (lookup (upsert k (enc p) s) k) = Some r"
  by (simp add: lookup_same dec_enc)

lemma read_back_frame:
  "storable p r \<Longrightarrow> k' \<noteq> k \<Longrightarrow>
   map_option dec (lookup (upsert k' c (upsert k (enc p) s)) k) = Some r"
  by (simp add: lookup_same lookup_other dec_enc)

end

text \<open>The values of a settings dictionary that survive the obfuscation, with what is read back.\<close>

fun secret_storable :: "pyval \<Rightarrow> string option \<Rightarrow> bool" where
  "secret_storable PNone r \<longleftrightarrow> r = None"
| "secret_storable (PStr s) r \<longleftrightarrow> r = Some s \<and> valid_utf8 s \<and> \<not> starts_with s marker"
| "secret_storable v r \<longleftrightarrow> False"

lemma secret_storable_dec: "secret_storable v r \<Longrightarrow> deobfuscate (obfuscate v) = r"
proof (cases v)
  case PNone
  then show "secret_storable v r \<Longrightarrow> ?thesis" by (simp add: obfuscate_def deobfuscate_def)
next
  case (PStr s)
  then show "secret_storable v r \<Longrightarrow> ?thesis" by (simp add: deobfuscate_obfuscate_plain)
qed simp_all

interpretation secret_settings:
  secret_table settings_lookup settings_upsert obfuscate deobfuscate secret_storable
  by unfold_locales (rule secret_storable_dec)

lemma settings_get_set_same:
  "settings_get (settings_set k v db) k dflt =
     (if k \<in> set secret_keys then deobfuscate (obfuscate v)
      else Some (if v = PNone then [] else py_str v))"
  by (simp add: settings_get_def settings_set_def settings_tab.lookup_same settings_stored_def)

lemma settings_get_set_other:
  "k' \<noteq> k \<Longrightarrow> settings_get (settings_set k v db) k' dflt = settings_get db k' dflt"
  by (simp add: settings_get_def settings_set_def settings_tab.lookup_other)

lemma settings_set_many_fold:
  "settings_set_many kvs db = fold (\<lambda>(k, v). settings_upsert k v) (map (\<lambda>(k, v). (k, settings_stored k v)) kvs) db"
  unfolding settings_set_many_def by (induction kvs arbitrary: db) (auto simp: settings_set_def)

section \<open>Properties\<close>

lemma obfuscate_PStr: "s \<noteq> [] \<Longrightarrow> \<not> starts_with s marker \<Longrightarrow> obfuscate (PStr s) = Some (marker @ b64encode (obf_xor s))"
  by (simp add: obfuscate_def)

text \<open>
  Reading a key after \<open>set_many\<close> gives the last value the mapping
  holds for it (through the obfuscation for a secret key, as text otherwise), and what was stored
  before when the mapping does not mention the key.
\<close>
lemma settings_last_write_wins:
  "settings_get (settings_set_many kvs db) k dflt =
     (case map_of (rev kvs) k of
        None \<Rightarrow> settings_get db k dflt
      | Some v \<Rightarrow> if k \<in> set secret_keys then deobfuscate (obfuscate v)
                  else Some (if v = PNone then [] else py_str v))"
proof -
  have "map_of (rev (map (\<lambda>(k, v). (k, settings_stored k v)) kvs)) k = map_option (settings_stored k) (map_of (rev kvs) k)"
    by (induction kvs) (auto simp: map_add_def split: option.splits)
  then show ?thesis
    unfolding settings_set_many_fold settings_get_def settings_tab.lookup_fold
    by (auto simp: settings_stored_def split: option.splits)
qed



text \<open>
  The log line of a write to a masked key (a password, the map
  key, the SMS whitelist, the home WiFi and its coordinates) does not depend on the value written.
\<close>
lemma masked_settings_not_logged:
  assumes "k \<in> set log_masked_keys"
  shows "settings_log k v = settings_log k v' \<and> settings_log k v = ''setting saved: '' @ k @ '' = ***''"
  using assms by (simp add: settings_log_def)


end
