(* ===== verification/Runtime.thy ===== *)
theory Runtime
  imports Store
begin

text \<open>
  \<open>qml/utilities/fmd/runtime.py\<close>: the cross-process state in the \<open>runtime\<close> table: the settings
  generation, the daemons' heartbeats and the status the UI derives from them, the UI's requests
  to the command daemon, and the mirrored WiFi names. \<open>now\<close> is the reading of \<open>time.time()\<close>.
\<close>

definition HEARTBEAT_FRESH_S :: int where "HEARTBEAT_FRESH_S = 90"
definition HEARTBEAT_INTERVAL_S :: rat where "HEARTBEAT_INTERVAL_S = 30"

abbreviation "GENERATION_KEY \<equiv> ''settings_generation''"
abbreviation "LOCATION_REQUEST_KEY \<equiv> ''location_enable_request''"
abbreviation "PUBLISH_REQUEST_KEY \<equiv> ''location_publish_request''"
abbreviation "CONNECTED_WIFI_KEY \<equiv> ''connected_wifi''"

section \<open>Low-level access\<close>

definition runtime_get :: "database \<Rightarrow> string \<Rightarrow> string option \<Rightarrow> string option" where
  "runtime_get db key dflt = (case runtime_lookup db key of None \<Rightarrow> dflt | Some v \<Rightarrow> v)"

definition runtime_set :: "string \<Rightarrow> pyval \<Rightarrow> database \<Rightarrow> database" where
  "runtime_set key v db = runtime_upsert key (Some (if v = PNone then [] else py_str v)) db"

text \<open>\<open>int(v)\<close> of a text column: \<open>None\<close> for the \<open>TypeError\<close> or \<open>ValueError\<close> the code catches.\<close>

definition int_of :: "string option \<Rightarrow> int option" where
  "int_of v = Option.bind v py_int"

lemma int_of_dec [simp]: "int_of (Some (dec_int i)) = Some i"
  by (simp add: int_of_def)

lemma runtime_get_set_same [simp]:
  "runtime_get (runtime_set k v db) k d = Some (if v = PNone then [] else py_str v)"
  by (simp add: runtime_get_def runtime_set_def runtime_tab.lookup_same)

lemma runtime_get_set_other [simp]:
  "k' \<noteq> k \<Longrightarrow> runtime_get (runtime_set k v db) k' d = runtime_get db k' d"
  by (simp add: runtime_get_def runtime_set_def runtime_tab.lookup_other)

section \<open>Settings generation\<close>

definition generation :: "database \<Rightarrow> int" where
  "generation db = (case int_of (runtime_get db GENERATION_KEY (Some ''0'')) of None \<Rightarrow> 0 | Some i \<Rightarrow> i)"

definition bump_generation :: "database \<Rightarrow> int \<times> database" where
  "bump_generation db = (let gen = generation db + 1 in (gen, runtime_set GENERATION_KEY (PInt gen) db))"

lemma generation_bump: "generation (snd (bump_generation db)) = generation db + 1"
  by (simp add: bump_generation_def Let_def generation_def [of "runtime_set _ _ _"])

section \<open>Heartbeats\<close>

record heartbeat =
  age_s :: "int option"
  hb_state :: "string option"
  hb_version :: "string option"
  applied_generation :: "int option"

definition heartbeat_keys :: "string \<Rightarrow> string \<times> string \<times> string \<times> string" where
  "heartbeat_keys daemon =
     (''daemon_'' @ daemon @ ''_heartbeat'', ''daemon_'' @ daemon @ ''_state'',
      ''daemon_'' @ daemon @ ''_version'', ''daemon_'' @ daemon @ ''_applied_generation'')"

definition beat_key :: "string \<Rightarrow> string" where "beat_key d = fst (heartbeat_keys d)"
definition state_key :: "string \<Rightarrow> string" where "state_key d = fst (snd (heartbeat_keys d))"
definition version_key :: "string \<Rightarrow> string" where "version_key d = fst (snd (snd (heartbeat_keys d)))"
definition applied_key :: "string \<Rightarrow> string" where "applied_key d = snd (snd (snd (heartbeat_keys d)))"

text \<open>The rows \<open>write_heartbeat\<close> upserts, in its order, in one transaction.\<close>

definition heartbeat_rows :: "string \<Rightarrow> string \<Rightarrow> string \<Rightarrow> int option \<Rightarrow> time \<Rightarrow> (string \<times> string) list" where
  "heartbeat_rows daemon state version gen now =
     [(beat_key daemon, dec_int \<lfloor>now\<rfloor>), (state_key daemon, state), (version_key daemon, version)]
     @ (case gen of None \<Rightarrow> [] | Some g \<Rightarrow> [(applied_key daemon, dec_int g)])"

definition write_heartbeat ::
    "string \<Rightarrow> string \<Rightarrow> string \<Rightarrow> int option \<Rightarrow> time \<Rightarrow> database \<Rightarrow> database" where
  "write_heartbeat daemon state version gen now db =
     fold (\<lambda>(k, v). runtime_upsert k v)
       (map (\<lambda>(k, v). (k, Some v)) (heartbeat_rows daemon state version gen now)) db"

text \<open>\<open>data.get(key, "")\<close> on the rows already read.\<close>

definition data_get :: "kv \<Rightarrow> string \<Rightarrow> string option" where
  "data_get data key = (case data key of None \<Rightarrow> Some [] | Some v \<Rightarrow> v)"

definition parse_heartbeat :: "kv \<Rightarrow> string \<Rightarrow> time \<Rightarrow> heartbeat" where
  "parse_heartbeat data daemon now =
     \<lparr>age_s = map_option (\<lambda>beat. max 0 (\<lfloor>now\<rfloor> - beat)) (int_of (data_get data (beat_key daemon))),
      hb_state = data_get data (state_key daemon),
      hb_version = data_get data (version_key daemon),
      applied_generation = int_of (data_get data (applied_key daemon))\<rparr>"

definition status_from :: "heartbeat \<Rightarrow> int \<Rightarrow> string" where
  "status_from hb current_generation =
    (case age_s hb of
       None \<Rightarrow> ''not_installed_or_stopped''
     | Some age \<Rightarrow>
         if HEARTBEAT_FRESH_S < age then ''not_installed_or_stopped''
         else case applied_generation hb of
            Some g \<Rightarrow> if g \<noteq> current_generation then ''applying''
                      else if hb_state hb = Some ''active'' then ''running'' else ''deactivated''
          | None \<Rightarrow> if hb_state hb = Some ''active'' then ''running'' else ''deactivated'')"

definition read_heartbeat :: "database \<Rightarrow> string \<Rightarrow> time \<Rightarrow> heartbeat" where
  "read_heartbeat db daemon now =
     parse_heartbeat (runtime_t db |` {beat_key daemon, state_key daemon, version_key daemon, applied_key daemon})
       daemon now"

definition daemon_status :: "database \<Rightarrow> string \<Rightarrow> time \<Rightarrow> string" where
  "daemon_status db daemon now = status_from (read_heartbeat db daemon now) (generation db)"

text \<open>
  \<open>daemon_snapshot\<close>: the heartbeats and the status of several daemons from one read of the table.
\<close>

definition daemon_snapshot :: "database \<Rightarrow> string list \<Rightarrow> time \<Rightarrow> (string \<times> heartbeat \<times> string) list" where
  "daemon_snapshot db daemons now =
    (let keys = GENERATION_KEY # concat (map (\<lambda>d. [beat_key d, state_key d, version_key d, applied_key d]) daemons);
         data = runtime_t db |` set keys;
         gen = (case int_of (case data GENERATION_KEY of None \<Rightarrow> Some ''0'' | Some v \<Rightarrow> v) of
                  None \<Rightarrow> 0 | Some g \<Rightarrow> g)
     in map (\<lambda>d. let hb = parse_heartbeat data d now in (d, hb, status_from hb gen)) daemons)"

lemma heartbeat_key_eqs:
  "beat_key d = ''daemon_'' @ d @ ''_heartbeat''" "state_key d = ''daemon_'' @ d @ ''_state''"
  "version_key d = ''daemon_'' @ d @ ''_version''" "applied_key d = ''daemon_'' @ d @ ''_applied_generation''"
  by (simp_all add: beat_key_def state_key_def version_key_def applied_key_def heartbeat_keys_def)

lemma heartbeat_keys_distinct [simp]:
  "distinct [beat_key d, state_key d, version_key d, applied_key d]"
  by (simp add: heartbeat_key_eqs)

lemma generation_key_fresh [simp]:
  "beat_key d \<noteq> GENERATION_KEY" "state_key d \<noteq> GENERATION_KEY"
  "version_key d \<noteq> GENERATION_KEY" "applied_key d \<noteq> GENERATION_KEY"
  by (simp_all add: heartbeat_key_eqs)

lemmas generation_key_fresh' [simp] = generation_key_fresh [symmetric]

lemma parse_heartbeat_cong:
  assumes "\<And>k. k \<in> {beat_key d, state_key d, version_key d, applied_key d} \<Longrightarrow> m k = m' k"
  shows "parse_heartbeat m d now = parse_heartbeat m' d now"
  using assms by (simp add: parse_heartbeat_def data_get_def)

lemma read_heartbeat_parse: "read_heartbeat db d now = parse_heartbeat (runtime_t db) d now"
  unfolding read_heartbeat_def by (rule parse_heartbeat_cong) auto

lemma runtime_t_write_heartbeat:
  "runtime_t (write_heartbeat d s v gen now db) =
     (runtime_t db)(beat_key d \<mapsto> Some (dec_int \<lfloor>now\<rfloor>), state_key d \<mapsto> Some s, version_key d \<mapsto> Some v)
     ++ (case gen of None \<Rightarrow> Map.empty | Some g \<Rightarrow> [applied_key d \<mapsto> Some (dec_int g)])"
  by (cases gen) (simp_all add: write_heartbeat_def heartbeat_rows_def runtime_upsert_def)

lemma generation_write_heartbeat [simp]: "generation (write_heartbeat d s v g now db) = generation db"
  by (cases g) (simp_all add: generation_def runtime_get_def runtime_lookup_def runtime_t_write_heartbeat)

lemma read_write_heartbeat:
  "read_heartbeat (write_heartbeat d s v gen now db) d now' =
     \<lparr>age_s = Some (max 0 (\<lfloor>now'\<rfloor> - \<lfloor>now\<rfloor>)), hb_state = Some s, hb_version = Some v,
      applied_generation = (case gen of None \<Rightarrow> applied_generation (read_heartbeat db d now') | Some g \<Rightarrow> Some g)\<rparr>"
  using heartbeat_keys_distinct [of d]
  by (cases gen) (auto simp: read_heartbeat_parse runtime_t_write_heartbeat parse_heartbeat_def data_get_def)

section \<open>Requests of the UI\<close>

definition request_location_enable :: "time \<Rightarrow> database \<Rightarrow> database" where
  "request_location_enable now db = runtime_set LOCATION_REQUEST_KEY (PInt \<lfloor>now\<rfloor>) db"

definition request_location_publish :: "time \<Rightarrow> database \<Rightarrow> database" where
  "request_location_publish now db = runtime_set PUBLISH_REQUEST_KEY (PInt \<lfloor>now\<rfloor>) db"

definition consume_request :: "string \<Rightarrow> int \<Rightarrow> time \<Rightarrow> database \<Rightarrow> bool \<times> database" where
  "consume_request key max_age_s now db =
    (let raw = runtime_get db key (Some [])
     in if raw = None \<or> raw = Some [] then (False, db)
        else (case int_of raw of None \<Rightarrow> False | Some t \<Rightarrow> \<lfloor>now\<rfloor> - t \<le> max_age_s,
              runtime_set key (PStr []) db))"

definition consume_location_enable_request :: "time \<Rightarrow> database \<Rightarrow> bool \<times> database" where
  "consume_location_enable_request now db = consume_request LOCATION_REQUEST_KEY 300 now db"

definition consume_location_publish_request :: "time \<Rightarrow> database \<Rightarrow> bool \<times> database" where
  "consume_location_publish_request now db = consume_request PUBLISH_REQUEST_KEY 600 now db"

lemma consume_request_fresh:
  "consume_request key age now (runtime_set key (PInt t) db) =
     (\<lfloor>now\<rfloor> - t \<le> age, runtime_set key (PStr []) (runtime_set key (PInt t) db))"
  by (simp add: consume_request_def Let_def)

lemma consume_request_twice:
  "fst (consume_request key age now' (snd (consume_request key age now db))) = False"
proof (cases "runtime_get db key (Some []) = None \<or> runtime_get db key (Some []) = Some []")
  case True
  then show ?thesis by (simp add: consume_request_def Let_def)
next
  case False
  then show ?thesis by (simp add: consume_request_def Let_def)
qed

section \<open>Connected WiFi\<close>

definition set_connected_wifi :: "string list \<Rightarrow> database \<Rightarrow> database" where
  "set_connected_wifi names db = runtime_set CONNECTED_WIFI_KEY (PStr (join [char_of (10::nat)] (sort names))) db"

definition connected_wifi :: "database \<Rightarrow> time \<Rightarrow> string list" where
  "connected_wifi db now =
    (if daemon_status db ''cmd'' now = ''not_installed_or_stopped'' then []
     else case runtime_get db CONNECTED_WIFI_KEY (Some []) of
            None \<Rightarrow> []
          | Some s \<Rightarrow> filter (\<lambda>n. n \<noteq> []) (split_on (char_of (10::nat)) s))"

lemma split_names:
  assumes "\<forall>n\<in>set names. char_of (10::nat) \<notin> set n"
  shows "filter (\<lambda>n. n \<noteq> []) (split_on (char_of (10::nat)) (join [char_of (10::nat)] (sort names)))
           = filter (\<lambda>n. n \<noteq> []) (sort names)"
proof (cases "names = []")
  case True
  then show ?thesis by simp
next
  case False
  then have "sort names \<noteq> []" by (metis set_empty set_sort)
  with assms show ?thesis by (subst split_on_join) auto
qed

lemma daemon_status_set_wifi [simp]:
  "daemon_status (set_connected_wifi names db) d now = daemon_status db d now"
proof -
  have "CONNECTED_WIFI_KEY \<notin> {beat_key d, state_key d, version_key d, applied_key d}"
    by (simp add: heartbeat_key_eqs)
  then have "read_heartbeat (set_connected_wifi names db) d now = read_heartbeat db d now"
    unfolding read_heartbeat_parse
    by (intro parse_heartbeat_cong) (auto simp: set_connected_wifi_def runtime_set_def runtime_upsert_def)
  then show ?thesis
    by (simp add: daemon_status_def generation_def set_connected_wifi_def)
qed

section \<open>Properties\<close>

text \<open>
  What the UI shows for a daemon that last wrote a heartbeat at \<open>t\<close>
  with the settings generation it had applied: stopped once the heartbeat is older than 90
  seconds, applying while the generation in the table is another one, else running or
  deactivated as the daemon reported.
\<close>
lemma status_after_heartbeat:
  "daemon_status (write_heartbeat d state v (Some g) t db) d t' =
     (if 90 < \<lfloor>t'\<rfloor> - \<lfloor>t\<rfloor> then ''not_installed_or_stopped''
      else if g \<noteq> generation db then ''applying''
      else if state = ''active'' then ''running'' else ''deactivated'')"
  by (simp add: daemon_status_def status_from_def read_write_heartbeat HEARTBEAT_FRESH_S_def less_max_iff_disj)

lemma read_heartbeat_bump [simp]: "read_heartbeat (snd (bump_generation db)) d now = read_heartbeat db d now"
  unfolding read_heartbeat_parse
  by (intro parse_heartbeat_cong)
     (auto simp: bump_generation_def Let_def runtime_set_def runtime_upsert_def generation_key_fresh)

text \<open>
  After a settings save has bumped the generation, a live
  daemon is shown as applying until it writes a heartbeat with the new generation, and from then
  on as running (or deactivated).
\<close>
lemma settings_change_shows_applying:
  assumes "\<lfloor>t2\<rfloor> - \<lfloor>t1\<rfloor> \<le> 90" "\<lfloor>t4\<rfloor> - \<lfloor>t3\<rfloor> \<le> 90"
    and "db1 = snd (bump_generation (write_heartbeat d s1 v1 (Some (generation db)) t1 db))"
  shows "daemon_status db1 d t2 = ''applying''
    \<and> daemon_status (write_heartbeat d s2 v2 (Some (generation db1)) t3 db1) d t4
        = (if s2 = ''active'' then ''running'' else ''deactivated'')"
  using assms
  by (simp add: daemon_status_def status_from_def read_write_heartbeat HEARTBEAT_FRESH_S_def generation_bump less_max_iff_disj)

lemma data_get_restrict: "k \<in> S \<Longrightarrow> data_get (m |` S) k = data_get m k"
  by (simp add: data_get_def)

text \<open>
  The single read of \<open>daemon_snapshot\<close> gives for every daemon asked
  for exactly what \<open>read_heartbeat\<close> and \<open>daemon_status\<close> give one by one.
\<close>
lemma snapshot_is_consistent:
  "daemon_snapshot db ds now = map (\<lambda>d. (d, read_heartbeat db d now, daemon_status db d now)) ds"
proof -
  let ?keys = "set (GENERATION_KEY # concat (map (\<lambda>d. [beat_key d, state_key d, version_key d, applied_key d]) ds))"
  have "parse_heartbeat (runtime_t db |` ?keys) d now = read_heartbeat db d now" if "d \<in> set ds" for d
    unfolding read_heartbeat_parse using that by (intro parse_heartbeat_cong) (auto simp: restrict_map_def)
  moreover have "(case int_of (case (runtime_t db |` ?keys) GENERATION_KEY of None \<Rightarrow> Some ''0'' | Some v \<Rightarrow> v) of
                  None \<Rightarrow> 0 | Some g \<Rightarrow> g) = generation db"
    by (simp add: generation_def runtime_get_def runtime_lookup_def)
  ultimately show ?thesis
    by (simp add: daemon_snapshot_def Let_def daemon_status_def)
qed

text \<open>
  A request of the UI is served exactly once: the first
  consumption after it reports it iff it is not older than the limit, and removes it either way.
\<close>
lemma location_request_consumed_once:
  "fst (consume_location_enable_request t' (request_location_enable t db)) = (\<lfloor>t'\<rfloor> - \<lfloor>t\<rfloor> \<le> 300)
    \<and> \<not> fst (consume_location_enable_request t'' (snd (consume_location_enable_request t' (request_location_enable t db))))
    \<and> fst (consume_location_publish_request t' (request_location_publish t db)) = (\<lfloor>t'\<rfloor> - \<lfloor>t\<rfloor> \<le> 600)
    \<and> \<not> fst (consume_location_publish_request t'' (snd (consume_location_publish_request t' (request_location_publish t db))))"
  by (simp add: consume_location_enable_request_def consume_location_publish_request_def request_location_enable_def
      request_location_publish_def consume_request_twice) (simp add: consume_request_fresh)

text \<open>
  The network names the command daemon mirrors arrive at the GUI
  sorted and complete while the daemon is alive, and are dropped once it is not.
\<close>
lemma connected_wifi_mirror:
  assumes "\<forall>n\<in>set names. char_of (10::nat) \<notin> set n"
  shows "connected_wifi (set_connected_wifi names db) now =
    (if daemon_status db ''cmd'' now = ''not_installed_or_stopped'' then []
     else filter (\<lambda>n. n \<noteq> []) (sort names))"
  using split_names [OF assms]
  by (simp add: connected_wifi_def) (simp add: set_connected_wifi_def)


end
