(* ===== verification/Devices.thy ===== *)
theory Devices
  imports Settings "HOL-Library.Product_Lexorder" "HOL-Library.Option_ord"
begin

text \<open>
  \<open>qml/utilities/fmd/devices.py\<close>: the own device and the paired remote devices. Each operation is
  a \<open>dbop\<close>: the Python result or exception, and the committed database. \<open>now\<close> is the text of
  \<open>iso_utc()\<close> (and of SQLite's \<open>strftime\<close> in the update trigger), \<open>draws\<close> what \<open>secrets.choice\<close>
  gives for the ten attempts at a fresh id.
\<close>

definition ID_LENGTH :: nat where "ID_LENGTH = 10"

definition id_char :: "char \<Rightarrow> bool" where
  "id_char c \<longleftrightarrow> 65 \<le> code c \<and> code c \<le> 90 \<or> 97 \<le> code c \<and> code c \<le> 122 \<or> is_digit c"

text \<open>
  \<open>_ID_RE.match(device_id)\<close> for \<open>^[A-Za-z0-9]{10}$\<close>: without \<open>re.MULTILINE\<close>, \<open>$\<close> matches at the end
  and also just before a newline that ends the text.
\<close>

definition id_re_match :: "string \<Rightarrow> bool" where
  "id_re_match s \<longleftrightarrow> list_all id_char (take ID_LENGTH s) \<and> ID_LENGTH \<le> length s
     \<and> (drop ID_LENGTH s = [] \<or> drop ID_LENGTH s = [char_of (10::nat)])"

definition is_valid_id :: "string \<Rightarrow> bool" where
  "is_valid_id device_id \<longleftrightarrow> device_id \<noteq> [] \<and> id_re_match device_id"

section \<open>Rows and dictionaries\<close>

record device =
  dv_id :: nat
  device_id :: string
  device_label :: "string option"
  is_own :: int
  pin :: "string option"
  totp_secret :: "string option"
  last_auth_result :: "string option"
  deleted :: int
  last_ack_utc :: "string option"
  created_utc :: string
  updated_utc :: "string option"

definition reveal :: "string option \<Rightarrow> string option" where
  "reveal v = (if v = None \<or> v = Some [] then None else deobfuscate v)"

definition row_to_dict :: "device_row \<Rightarrow> device" where
  "row_to_dict r = \<lparr>dv_id = d_id r, device_id = d_device_id r, device_label = d_label r,
     is_own = (if d_is_own r then 1 else 0), pin = reveal (d_pin r), totp_secret = reveal (d_totp r),
     last_auth_result = d_last_auth r, deleted = (if d_deleted r then 1 else 0),
     last_ack_utc = d_last_ack r, created_utc = d_created r, updated_utc = d_updated r\<rparr>"

definition own_row :: "database \<Rightarrow> device_row option" where
  "own_row db = find d_is_own (devices_t db)"

definition device_row_of :: "database \<Rightarrow> string \<Rightarrow> device_row option" where
  "device_row_of db i = find (\<lambda>r. d_device_id r = i) (devices_t db)"

definition id_taken :: "database \<Rightarrow> string \<Rightarrow> bool" where
  "id_taken db i \<longleftrightarrow> (\<exists>r\<in>set (devices_t db). d_device_id r = i)"

text \<open>\<open>UPDATE devices SET .. WHERE ..\<close> with the trigger that stamps \<open>Updated_Utc\<close>.\<close>

definition update_rows :: "(device_row \<Rightarrow> bool) \<Rightarrow> (device_row \<Rightarrow> device_row) \<Rightarrow> string
    \<Rightarrow> device_row list \<Rightarrow> device_row list" where
  "update_rows p f now ds = map (\<lambda>r. if p r then (f r)\<lparr>d_updated := Some now\<rparr> else r) ds"

definition insert_device :: "string \<Rightarrow> string \<Rightarrow> bool \<Rightarrow> string option \<Rightarrow> string \<Rightarrow> database \<Rightarrow> exn + database" where
  "insert_device i label own p now db =
     write_devices (devices_t db @ [\<lparr>d_id = Suc (device_seq db), d_device_id = i, d_label = Some label,
         d_is_own = own, d_pin = p, d_totp = None, d_last_auth = None, d_deleted = False,
         d_last_ack = None, d_created = now, d_updated = None\<rparr>])
       (db\<lparr>device_seq := Suc (device_seq db)\<rparr>)"

text \<open>Commit the result of a statement, or keep the database when it raised.\<close>

definition commit_or_rollback :: "database \<Rightarrow> 'a \<Rightarrow> exn + database \<Rightarrow> (exn + 'a) \<times> database" where
  "commit_or_rollback db x r = (case r of Inl e \<Rightarrow> (Inl e, db) | Inr db' \<Rightarrow> (Inr x, db'))"

section \<open>Own device\<close>

definition get_own :: "database \<Rightarrow> device option" where
  "get_own db = map_option row_to_dict (own_row db)"

text \<open>The first of the ten drawn ids that is free, else the last one drawn.\<close>

fun pick_id :: "(string \<Rightarrow> bool) \<Rightarrow> string list \<Rightarrow> string" where
  "pick_id clash [] = []"
| "pick_id clash [d] = d"
| "pick_id clash (d # e # ds) = (if clash d then pick_id clash (e # ds) else d)"

definition ensure_own_device :: "string list \<Rightarrow> string \<Rightarrow> device option dbop" where
  "ensure_own_device draws now db =
    (case own_row db of
       Some r \<Rightarrow> (Inr (Some (row_to_dict r)), db)
     | None \<Rightarrow>
         case insert_device (pick_id (id_taken db) (take 10 draws)) [] True None now db of
           Inl e \<Rightarrow> (Inl e, db)
         | Inr db' \<Rightarrow> (Inr (get_own db'), db'))"

definition own_device_id :: "string list \<Rightarrow> string \<Rightarrow> string option dbop" where
  "own_device_id draws now db = apfst (map_sum id (map_option device_id)) (ensure_own_device draws now db)"

section \<open>Remote devices\<close>

type_synonym outcome = "bool \<times> string option"

definition add_remote :: "string \<Rightarrow> string option \<Rightarrow> string option \<Rightarrow> string \<Rightarrow> outcome dbop" where
  "add_remote i label p now db =
    (if \<not> is_valid_id i then (Inr (False, Some ''Device-Id must be 10 letters/digits, no spaces''), db)
     else if id_taken db i then (Inr (False, Some ''A device with this id already exists''), db)
     else commit_or_rollback db (True, None)
        (insert_device i (case label of None \<Rightarrow> [] | Some l \<Rightarrow> l) False
          (case p of None \<Rightarrow> None | Some s \<Rightarrow> if s = [] then None else obfuscate (PStr s)) now db))"

text \<open>The columns an \<open>update_device\<close> call sets; an empty PIN is stored as NULL.\<close>

definition edit_row :: "string option \<Rightarrow> string option \<Rightarrow> device_row \<Rightarrow> device_row" where
  "edit_row label p r =
    (let r' = (case label of None \<Rightarrow> r | Some l \<Rightarrow> r\<lparr>d_label := Some l\<rparr>)
     in case p of None \<Rightarrow> r' | Some s \<Rightarrow> r'\<lparr>d_pin := if s = [] then None else obfuscate (PStr s)\<rparr>)"

definition update_device :: "string \<Rightarrow> string option \<Rightarrow> string option \<Rightarrow> string \<Rightarrow> outcome dbop" where
  "update_device i label p now db =
    (if device_row_of db i = None then (Inr (False, Some ''Device not found''), db)
     else if label = None \<and> p = None then (Inr (True, None), db)
     else commit_or_rollback db (True, None)
       (write_devices (update_rows (\<lambda>r. d_device_id r = i) (edit_row label p) now (devices_t db)) db))"

definition move_gps :: "string \<Rightarrow> string \<Rightarrow> gps_row list \<Rightarrow> gps_row list" where
  "move_gps old new gs = map (\<lambda>g. if g_device_id g = old then g\<lparr>g_device_id := new\<rparr> else g) gs"

definition rename_device :: "string \<Rightarrow> string \<Rightarrow> string \<Rightarrow> outcome dbop" where
  "rename_device old_id new_id now db =
    (if \<not> is_valid_id new_id then (Inr (False, Some ''Device-Id must be 10 letters/digits, no spaces''), db)
     else case device_row_of db old_id of
       None \<Rightarrow> (Inr (False, Some ''Device not found''), db)
     | Some r \<Rightarrow>
        if d_is_own r then (Inr (False, Some ''The own device id cannot be changed''), db)
        else if id_taken db new_id then (Inr (False, Some ''A device with this id already exists''), db)
        else commit_or_rollback db (True, None)
          (map_sum id (\<lambda>db'. db'\<lparr>gps_t := move_gps old_id new_id (gps_t db')\<rparr>)
            (write_devices (update_rows (\<lambda>r. d_device_id r = old_id) (\<lambda>r. r\<lparr>d_device_id := new_id\<rparr>) now
               (devices_t db)) db)))"

text \<open>The deletion cascades to the backup codes of the device.\<close>

definition remove_device :: "string \<Rightarrow> outcome dbop" where
  "remove_device i db =
    (case device_row_of db i of
       None \<Rightarrow> (Inr (False, Some ''Device not found''), db)
     | Some r \<Rightarrow>
        if d_is_own r then (Inr (False, Some ''The own device cannot be removed''), db)
        else (Inr (True, None),
              db\<lparr>gps_t := filter (\<lambda>g. g_device_id g \<noteq> i) (gps_t db),
                 devices_t := filter (\<lambda>r. d_device_id r \<noteq> i) (devices_t db),
                 backup_t := filter (\<lambda>b. b_device_id b \<noteq> i) (backup_t db)\<rparr>))"

section \<open>Queries and flags\<close>

definition list_devices :: "database \<Rightarrow> device list" where
  "list_devices db = map row_to_dict
     (sort_key (\<lambda>r. (\<not> d_is_own r, d_label r, d_device_id r)) (devices_t db))"

definition get_device :: "database \<Rightarrow> string \<Rightarrow> device option" where
  "get_device db i = map_option row_to_dict (device_row_of db i)"

definition get_pin :: "database \<Rightarrow> string \<Rightarrow> string option" where
  "get_pin db i = Option.bind (get_device db i) pin"

definition set_auth_result :: "string \<Rightarrow> string option \<Rightarrow> string \<Rightarrow> unit dbop" where
  "set_auth_result i result now db = commit_or_rollback db ()
     (write_devices (update_rows (\<lambda>r. d_device_id r = i)
        (\<lambda>r. r\<lparr>d_last_auth := result, d_last_ack := Some now\<rparr>) now (devices_t db)) db)"

definition set_deleted :: "string \<Rightarrow> bool \<Rightarrow> string \<Rightarrow> unit dbop" where
  "set_deleted i flag now db = commit_or_rollback db ()
     (write_devices (update_rows (\<lambda>r. d_device_id r = i) (\<lambda>r. r\<lparr>d_deleted := flag\<rparr>) now (devices_t db)) db)"

definition display_label :: "device \<Rightarrow> string" where
  "display_label d = (let label = strip (case device_label d of None \<Rightarrow> [] | Some l \<Rightarrow> l)
     in if label \<noteq> [] then label else device_id d)"

section \<open>The invariant of the table\<close>

definition devices_inv :: "database \<Rightarrow> bool" where
  "devices_inv db \<longleftrightarrow> devices_ok (devices_t db) \<and> backups_ok (devices_t db) (backup_t db)
     \<and> distinct (map d_id (devices_t db)) \<and> (\<forall>r\<in>set (devices_t db). d_id r \<le> device_seq db)"

definition own_id_of :: "database \<Rightarrow> string option" where
  "own_id_of db = map_option d_device_id (own_row db)"

datatype device_op =
    EnsureOwn "string list" string
  | AddRemote string "string option" "string option" string
  | UpdateDevice string "string option" "string option" string
  | RenameDevice string string string
  | RemoveDevice string
  | SetAuthResult string "string option" string
  | SetDeleted string bool string

fun device_step :: "database \<Rightarrow> device_op \<Rightarrow> database" where
  "device_step db (EnsureOwn draws now) = snd (ensure_own_device draws now db)"
| "device_step db (AddRemote i l p now) = snd (add_remote i l p now db)"
| "device_step db (UpdateDevice i l p now) = snd (update_device i l p now db)"
| "device_step db (RenameDevice old new now) = snd (rename_device old new now db)"
| "device_step db (RemoveDevice i) = snd (remove_device i db)"
| "device_step db (SetAuthResult i r now) = snd (set_auth_result i r now db)"
| "device_step db (SetDeleted i b now) = snd (set_deleted i b now db)"

lemma commit_inv:
  assumes "P db" and "\<And>db'. r = Inr db' \<Longrightarrow> P db'"
  shows "P (snd (commit_or_rollback db x r))"
  using assms by (auto simp: commit_or_rollback_def split: sum.splits)

lemma write_devices_cases:
  "write_devices ds db = Inr db' \<longleftrightarrow>
     devices_ok ds \<and> (\<forall>b\<in>set (backup_t db). b_device_id b \<in> d_device_id ` set ds) \<and> db' = db\<lparr>devices_t := ds\<rparr>"
  by (auto simp: write_devices_def)

lemma map_d_id_update_rows [simp]:
  "(\<And>r. d_id (f r) = d_id r) \<Longrightarrow> map d_id (update_rows p f now ds) = map d_id ds"
  by (simp add: update_rows_def comp_def if_distrib cong: if_cong)

lemma set_update_rows: "r \<in> set (update_rows p f now ds) \<longleftrightarrow>
    (\<exists>q\<in>set ds. r = (if p q then (f q)\<lparr>d_updated := Some now\<rparr> else q))"
  by (auto simp: update_rows_def)

lemma write_update_inv:
  assumes "devices_inv db" "write_devices (update_rows p f now (devices_t db)) db = Inr db'"
    and "\<And>r. d_id (f r) = d_id r"
  shows "devices_inv db'"
proof -
  let ?ds = "update_rows p f now (devices_t db)"
  from assms(2) have w: "devices_ok ?ds" "\<forall>b\<in>set (backup_t db). b_device_id b \<in> d_device_id ` set ?ds"
      "db' = db\<lparr>devices_t := ?ds\<rparr>"
    unfolding write_devices_cases by blast+
  moreover have "\<forall>r\<in>set ?ds. d_id r \<le> device_seq db"
    using assms(1,3) by (auto simp: set_update_rows devices_inv_def)
  ultimately show ?thesis using assms(1,3) by (simp add: devices_inv_def backups_ok_def)
qed

lemma insert_device_inv:
  assumes inv: "devices_inv db" and ins: "insert_device i l own p now db = Inr db'"
  shows "devices_inv db'"
proof -
  have "\<forall>r\<in>set (devices_t db). d_id r \<le> device_seq db" using inv by (simp add: devices_inv_def)
  then have "Suc (device_seq db) \<notin> d_id ` set (devices_t db)"
    and "\<forall>r\<in>set (devices_t db). d_id r \<le> Suc (device_seq db)" by (auto simp: le_SucI)
  with assms show ?thesis
    by (auto simp: insert_device_def write_devices_cases devices_inv_def backups_ok_def)
qed

lemma devices_ok_filter: "devices_ok ds \<Longrightarrow> devices_ok (filter p ds)"
proof -
  assume ok: "devices_ok ds"
  have "length (filter d_is_own (filter p ds)) \<le> length (filter d_is_own ds)"
    by (induction ds) auto
  with ok show ?thesis by (auto simp: devices_ok_def list_all_iff distinct_map_filter)
qed

lemma remove_device_inv: "devices_inv db \<Longrightarrow> devices_inv (snd (remove_device i db))"
  by (auto simp: remove_device_def devices_inv_def backups_ok_def devices_ok_filter distinct_map_filter
      split: option.splits)

lemmas commit_devices_inv = commit_inv [where P = devices_inv]

lemma ensure_own_inv: "devices_inv db \<Longrightarrow> devices_inv (snd (ensure_own_device draws now db))"
  by (auto simp: ensure_own_device_def intro: insert_device_inv split: option.splits sum.splits)

lemma add_remote_inv: "devices_inv db \<Longrightarrow> devices_inv (snd (add_remote i l p now db))"
  by (auto simp: add_remote_def intro!: commit_devices_inv intro: insert_device_inv)

lemma d_id_edit_row [simp]: "d_id (edit_row l p r) = d_id r"
  by (auto simp: edit_row_def Let_def split: option.split)

lemma commit_update_inv:
  assumes "devices_inv db" and "\<And>r. d_id (f r) = d_id r"
  shows "devices_inv (snd (commit_or_rollback db x (write_devices (update_rows p f now (devices_t db)) db)))"
proof (rule commit_devices_inv [OF assms(1)])
  fix db'
  assume "write_devices (update_rows p f now (devices_t db)) db = Inr db'"
  then show "devices_inv db'" using assms(2) by (rule write_update_inv [OF assms(1)])
qed

lemma update_device_inv: "devices_inv db \<Longrightarrow> devices_inv (snd (update_device i l p now db))"
  by (simp add: update_device_def commit_update_inv)

lemma devices_inv_gps [simp]: "devices_inv (db\<lparr>gps_t := gs\<rparr>) = devices_inv db"
  by (simp add: devices_inv_def)

lemma rename_device_inv:
  assumes "devices_inv db"
  shows "devices_inv (snd (rename_device old new now db))"
proof -
  have "devices_inv db'" if "write_devices (update_rows (\<lambda>r. d_device_id r = old) (\<lambda>r. r\<lparr>d_device_id := new\<rparr>) now
               (devices_t db)) db = Inr db'" for db'
    using write_update_inv [OF assms that] by simp
  then have "devices_inv (snd (commit_or_rollback db x
          (map_sum id (\<lambda>db'. db'\<lparr>gps_t := move_gps old new (gps_t db')\<rparr>)
            (write_devices (update_rows (\<lambda>r. d_device_id r = old) (\<lambda>r. r\<lparr>d_device_id := new\<rparr>) now
               (devices_t db)) db))))" for x :: outcome
    using assms by (intro commit_devices_inv) (auto simp: map_sum_def split: sum.splits)
  with assms show ?thesis by (simp add: rename_device_def split: option.split)
qed

lemma set_auth_result_inv: "devices_inv db \<Longrightarrow> devices_inv (snd (set_auth_result i r now db))"
  by (simp add: set_auth_result_def commit_update_inv)

lemma set_deleted_inv: "devices_inv db \<Longrightarrow> devices_inv (snd (set_deleted i b now db))"
  by (simp add: set_deleted_def commit_update_inv)

lemmas device_ops_inv = ensure_own_inv add_remote_inv update_device_inv rename_device_inv
  remove_device_inv set_auth_result_inv set_deleted_inv

interpretation device_system: event_system "\<lambda>db. db = empty_db" device_step devices_inv
proof unfold_locales
  show "db = empty_db \<Longrightarrow> devices_inv db" for db
    by (simp add: empty_db_def devices_inv_def devices_ok_def backups_ok_def)
  show "devices_inv db \<Longrightarrow> devices_inv (device_step db e)" for db e
    by (cases e) (simp_all add: device_ops_inv)
qed

section \<open>The own device\<close>

text \<open>The database of a phone right after its first start, for concrete instances.\<close>

definition first_start_db :: database where
  "first_start_db = snd (ensure_own_device [''aB3dE6gH9k''] ''2024-05-01T10:00:00Z'' empty_db)"

lemma first_start_inv [simp]: "devices_inv first_start_db"
  unfolding first_start_db_def
  by (rule ensure_own_inv) (simp add: empty_db_def devices_inv_def devices_ok_def backups_ok_def)

lemma first_start_devices:
  "devices_t first_start_db = [\<lparr>d_id = 1, d_device_id = ''aB3dE6gH9k'', d_label = Some [], d_is_own = True,
     d_pin = None, d_totp = None, d_last_auth = None, d_deleted = False, d_last_ack = None,
     d_created = ''2024-05-01T10:00:00Z'', d_updated = None\<rparr>]"
  and first_start_frame: "settings_t first_start_db = Map.empty" "runtime_t first_start_db = Map.empty"
  "backup_t first_start_db = []" "gps_t first_start_db = []" "gps_seq first_start_db = 0"
  by (simp_all add: first_start_db_def ensure_own_device_def own_row_def insert_device_def empty_db_def id_taken_def
      write_devices_def devices_ok_def device_row_ok_def)

lemma own_row_update:
  assumes "\<And>r. d_is_own (f r) = d_is_own r" and "\<And>r. d_is_own r \<Longrightarrow> p r \<Longrightarrow> d_device_id (f r) = d_device_id r"
  shows "map_option d_device_id (find d_is_own (update_rows p f now ds)) = map_option d_device_id (find d_is_own ds)"
  using assms by (induction ds) (auto simp: update_rows_def)

lemma commit_write_own:
  assumes "map_option d_device_id (find d_is_own ds) = own_id_of db"
  shows "own_id_of (snd (commit_or_rollback db x (write_devices ds db))) = own_id_of db"
  using assms by (auto simp: commit_or_rollback_def write_devices_def own_id_of_def own_row_def)

lemma find_append_Some: "find p xs = Some x \<Longrightarrow> find p (xs @ ys) = Some x"
  by (induction xs) auto

lemma find_filter: "find p xs = (case filter p xs of [] \<Rightarrow> None | x # _ \<Rightarrow> Some x)"
  by (induction xs) auto

lemma own_unique:
  assumes "devices_ok ds" "r \<in> set ds" "d_is_own r"
  shows "find d_is_own ds = Some r"
proof -
  have "r \<in> set (filter d_is_own ds)" using assms by simp
  with assms(1) have "filter d_is_own ds = [r]"
    by (cases "filter d_is_own ds"; cases "tl (filter d_is_own ds)") (auto simp: devices_ok_def)
  then show ?thesis by (simp add: find_filter)
qed

lemma device_row_of_mem: "device_row_of db i = Some r \<Longrightarrow> r \<in> set (devices_t db) \<and> d_device_id r = i"
  by (auto simp: device_row_of_def find_Some_iff)

lemma own_id_step:
  assumes inv: "devices_inv db" and own: "own_row db = Some o'"
  shows "own_id_of (device_step db e) = own_id_of db"
proof (cases e)
  case (EnsureOwn draws now)
  then show ?thesis using own by (simp add: ensure_own_device_def)
next
  case (AddRemote i l p now)
  have "own_id_of (snd (commit_or_rollback db x (insert_device i l' False p' now db))) = own_id_of db" for x :: outcome and l' p'
    using own unfolding insert_device_def commit_or_rollback_def write_devices_def own_id_of_def own_row_def
    by (auto simp: find_append_Some)
  then show ?thesis using AddRemote by (simp add: add_remote_def)
next
  case (UpdateDevice i l p now)
  have "map_option d_device_id (find d_is_own (update_rows (\<lambda>r. d_device_id r = i) (edit_row l p) now (devices_t db)))
          = own_id_of db"
    by (subst own_row_update) (auto simp: edit_row_def Let_def own_id_of_def own_row_def split: option.splits)
  then show ?thesis using UpdateDevice by (simp add: update_device_def commit_write_own)
next
  case (RenameDevice old new now)
  show ?thesis
  proof (cases "\<exists>r. device_row_of db old = Some r \<and> \<not> d_is_own r")
    case True
    then obtain r where r: "device_row_of db old = Some r" "\<not> d_is_own r" by blast
    have "\<not> d_is_own q" if "q \<in> set (devices_t db)" "d_device_id q = old" for q
    proof -
      from inv have "distinct (map d_device_id (devices_t db))" by (simp add: devices_inv_def devices_ok_def)
      with that device_row_of_mem [OF r(1)] have "q = r" by (metis distinct_map inj_on_eq_iff)
      with r show ?thesis by simp
    qed
    then have "map_option d_device_id (find d_is_own (update_rows (\<lambda>r. d_device_id r = old)
        (\<lambda>r. r\<lparr>d_device_id := new\<rparr>) now ds)) = map_option d_device_id (find d_is_own ds)"
      if "set ds \<subseteq> set (devices_t db)" for ds
      using that by (induction ds) (auto simp: update_rows_def)
    then show ?thesis using RenameDevice r
      by (auto simp: rename_device_def commit_or_rollback_def write_devices_def own_id_of_def own_row_def
          split: sum.splits)
  next
    case False
    then show ?thesis using RenameDevice by (auto simp: rename_device_def split: option.splits)
  qed
next
  case (RemoveDevice i)
  show ?thesis
  proof (cases "\<exists>r. device_row_of db i = Some r \<and> \<not> d_is_own r")
    case True
    then obtain r where r: "device_row_of db i = Some r" "\<not> d_is_own r" by blast
    have o: "o' \<in> set (devices_t db)" "d_is_own o'"
      using own by (auto simp: own_row_def find_Some_iff)
    have "d_device_id o' \<noteq> i"
      using device_row_of_mem [OF r(1)] inv o r(2)
      by (metis devices_inv_def devices_ok_def distinct_map inj_on_eq_iff)
    then have "o' \<in> set (filter (\<lambda>r. d_device_id r \<noteq> i) (devices_t db))" using o by simp
    then have "find d_is_own (filter (\<lambda>r. d_device_id r \<noteq> i) (devices_t db)) = Some o'"
      using inv o by (intro own_unique) (auto simp: devices_inv_def devices_ok_filter)
    then show ?thesis using RemoveDevice r own by (simp add: remove_device_def own_id_of_def own_row_def)
  next
    case False
    then show ?thesis using RemoveDevice by (auto simp: remove_device_def split: option.splits)
  qed
next
  case (SetAuthResult i r now)
  have "map_option d_device_id (find d_is_own (update_rows (\<lambda>r. d_device_id r = i)
      (\<lambda>q. q\<lparr>d_last_auth := r, d_last_ack := Some now\<rparr>) now (devices_t db))) = own_id_of db"
    by (subst own_row_update) (auto simp: own_id_of_def own_row_def)
  then show ?thesis using SetAuthResult by (simp add: set_auth_result_def commit_write_own)
next
  case (SetDeleted i b now)
  have "map_option d_device_id (find d_is_own (update_rows (\<lambda>r. d_device_id r = i)
      (\<lambda>q. q\<lparr>d_deleted := b\<rparr>) now (devices_t db))) = own_id_of db"
    by (subst own_row_update) (auto simp: own_id_of_def own_row_def)
  then show ?thesis using SetDeleted by (simp add: set_deleted_def commit_write_own)
qed

lemma own_id_run:
  "devices_inv db \<Longrightarrow> own_id_of db = Some i \<Longrightarrow> own_id_of (run_events device_step db es) = Some i"
proof (induction es arbitrary: db)
  case (Cons e es)
  then obtain r where "own_row db = Some r" by (auto simp: own_id_of_def)
  with Cons show ?case
    using own_id_step [of db r e] device_system.step_inv [of db e] by simp
qed simp

section \<open>Properties\<close>




lemma commit_result: "commit_or_rollback db x r = (res, db') \<Longrightarrow> (\<exists>e. res = Inl e \<and> db' = db) \<or> (res = Inr x \<and> r = Inr db')"
  by (auto simp: commit_or_rollback_def split: sum.splits)

text \<open>
  An edit of the device list that reports failure, by a
  message or by an exception, leaves the whole database as it was.
\<close>
lemma rejected_edit_changes_nothing:
  assumes "(r, db') \<in> {add_remote i l p now db, update_device i l p now db, rename_device i j now db, remove_device i db}"
    and "r \<noteq> Inr (True, None)"
  shows "db' = db"
  using assms
  by (auto simp: add_remote_def update_device_def rename_device_def remove_device_def
      dest: commit_result [OF sym] split: if_splits option.splits)

lemma update_rows_ids:
  "r \<in> set (update_rows (\<lambda>r. d_device_id r = i) (\<lambda>r. r\<lparr>d_device_id := j\<rparr>) now ds) \<Longrightarrow>
   d_device_id r = j \<or> d_device_id r \<noteq> i"
  by (auto simp: update_rows_def)

text \<open>
  A successful change of a remote device's id leaves no row and no
  position under the old id, moves the positions to the new id, keeps the number of devices, and
  leaves the positions of the other devices alone.
\<close>
lemma rename_moves_device:
  assumes "rename_device i j now db = (Inr (True, None), db')"
  shows "device_row_of db' i = None \<and> id_taken db' j
    \<and> length (devices_t db') = length (devices_t db)
    \<and> map g_id (gps_t db') = map g_id (gps_t db)
    \<and> (\<forall>g\<in>set (gps_t db'). g_device_id g \<noteq> i)
    \<and> (\<forall>k. k \<notin> {i, j} \<longrightarrow> filter (\<lambda>g. g_device_id g = k) (gps_t db') = filter (\<lambda>g. g_device_id g = k) (gps_t db))"
proof -
  from assms obtain r where r: "device_row_of db i = Some r" "\<not> id_taken db j"
    and db': "db' = db\<lparr>devices_t := update_rows (\<lambda>r. d_device_id r = i) (\<lambda>r. r\<lparr>d_device_id := j\<rparr>) now (devices_t db),
                     gps_t := move_gps i j (gps_t db)\<rparr>"
    by (auto simp: rename_device_def commit_or_rollback_def write_devices_def split: if_splits option.splits sum.splits)
  have rm: "r \<in> set (devices_t db)" "d_device_id r = i" using device_row_of_mem [OF r(1)] by simp_all
  have ij: "i \<noteq> j" using r(2) rm by (auto simp: id_taken_def)
  have "device_row_of db' i = None"
    using ij by (auto simp: device_row_of_def find_None_iff db' dest: update_rows_ids)
  moreover have "id_taken db' j"
    using rm by (auto simp: id_taken_def db' update_rows_def
        intro!: bexI [of _ "r\<lparr>d_device_id := j, d_updated := Some now\<rparr>"])
  moreover have "map g_id (gps_t db') = map g_id (gps_t db)"
    by (simp add: db' move_gps_def)
  moreover have "filter (\<lambda>g. g_device_id g = k) (move_gps i j gs) = filter (\<lambda>g. g_device_id g = k) gs" if "k \<notin> {i, j}" for k gs
    using that by (induction gs) (auto simp: move_gps_def)
  ultimately show ?thesis using ij by (auto simp: db' update_rows_def move_gps_def)
qed

text \<open>
  Unpairing a device succeeds exactly for an existing row that is not
  the own device, and then removes every row, position and backup code of that id and nothing else.
\<close>
lemma remove_forgets_device:
  "(fst (remove_device i db) = Inr (True, None)) = (\<exists>r. device_row_of db i = Some r \<and> \<not> d_is_own r)
    \<and> (fst (remove_device i db) = Inr (True, None) \<longrightarrow>
        devices_t (snd (remove_device i db)) = filter (\<lambda>r. d_device_id r \<noteq> i) (devices_t db)
        \<and> gps_t (snd (remove_device i db)) = filter (\<lambda>g. g_device_id g \<noteq> i) (gps_t db)
        \<and> backup_t (snd (remove_device i db)) = filter (\<lambda>b. b_device_id b \<noteq> i) (backup_t db)
        \<and> settings_t (snd (remove_device i db)) = settings_t db \<and> runtime_t (snd (remove_device i db)) = runtime_t db)"
  by (auto simp: remove_device_def split: option.splits)


end
