(* ===== verification/Gpsstore.thy ===== *)
theory Gpsstore
  imports Devices
begin

text \<open>
  \<open>qml/utilities/fmd/gpsstore.py\<close>: the positions. \<open>store_fix\<close> inserts a row and by default drops the
  device's older ones. A value SQLite cannot bind raises; a NULL in a NOT NULL column is an
  \<open>IntegrityError\<close>.
\<close>

definition store_fix ::
    "string \<Rightarrow> pyval \<Rightarrow> pyval \<Rightarrow> pyval \<Rightarrow> pyval \<Rightarrow> pyval \<Rightarrow> pyval \<Rightarrow> pyval \<Rightarrow> pyval \<Rightarrow> bool \<Rightarrow> nat dbop" where
  "store_fix dev ts_utc ts_local lat lon alt speed accuracy battery keep_latest_only db =
    (if \<not> list_all bindable [ts_utc, ts_local, lat, lon, alt, speed, accuracy, battery]
     then (Inl (OtherError ''InterfaceError''), db)
     else if ts_utc = PNone then (Inl IntegrityError, db)
     else
      let new_id = Suc (gps_seq db);
          row = \<lparr>g_id = new_id, g_device_id = dev, g_ts_utc = ts_utc, g_ts_local = ts_local, g_lat = lat,
                 g_lon = lon, g_alt = alt, g_speed = speed, g_accuracy = accuracy, g_battery = battery\<rparr>;
          rows = gps_t db @ [row]
      in (Inr new_id,
          db\<lparr>gps_seq := new_id,
             gps_t := if keep_latest_only
                      then filter (\<lambda>g. \<not> (g_device_id g = dev \<and> g_id g \<noteq> new_id)) rows else rows\<rparr>))"

definition newer :: "gps_row \<Rightarrow> gps_row \<Rightarrow> gps_row" where
  "newer best g = (if g_id best < g_id g then g else best)"

definition newest :: "gps_row list \<Rightarrow> gps_row option" where
  "newest gs = (case gs of [] \<Rightarrow> None
     | g # gs' \<Rightarrow> Some (foldl newer g gs'))"

definition get_latest :: "database \<Rightarrow> string \<Rightarrow> gps_row option" where
  "get_latest db dev = newest (filter (\<lambda>g. g_device_id g = dev) (gps_t db))"

text \<open>
  The rows of \<open>get_latest_all\<close>: the newest row of every device that has one, joined with the label
  and own-flag of its \<open>devices\<close> row (NULL and 0 when there is none).
\<close>

definition get_latest_all :: "database \<Rightarrow> (gps_row \<times> string option \<times> int) list" where
  "get_latest_all db =
     map (\<lambda>g. case device_row_of db (g_device_id g) of
            None \<Rightarrow> (g, None, 0)
          | Some d \<Rightarrow> (g, d_label d, if d_is_own d then 1 else 0))
       (filter (\<lambda>g. list_all (\<lambda>h. g_device_id h = g_device_id g \<longrightarrow> g_id h \<le> g_id g) (gps_t db)) (gps_t db))"

definition gps_inv :: "database \<Rightarrow> bool" where
  "gps_inv db \<longleftrightarrow> distinct (map g_id (gps_t db)) \<and> (\<forall>g\<in>set (gps_t db). g_id g \<le> gps_seq db)"

lemma foldl_newer_mem: "foldl newer b xs \<in> set (b # xs)"
proof (induction xs arbitrary: b)
  case Nil
  then show ?case by simp
next
  case (Cons x xs)
  from Cons [of "newer b x"] show ?case by (auto simp: newer_def)
qed

lemma newest_last:
  assumes "\<forall>h\<in>set gs. g_id h < g_id g"
  shows "newest (gs @ [g]) = Some g"
proof (cases gs)
  case Nil
  then show ?thesis by (simp add: newest_def)
next
  case (Cons a as)
  have "foldl newer a as \<in> set gs" using foldl_newer_mem [of a as] Cons by simp
  with assms have "g_id (foldl newer a as) < g_id g" by blast
  with Cons show ?thesis by (simp add: newest_def newer_def)
qed

lemma store_fix_ok:
  assumes "store_fix dev tu tloc la lo al sp ac ba k db = (Inr n, db')"
  shows "n = Suc (gps_seq db)" "gps_seq db' = n"
    and "gps_t db' = filter (\<lambda>g. \<not> (k \<and> g_device_id g = dev \<and> g_id g \<noteq> n))
           (gps_t db @ [\<lparr>g_id = n, g_device_id = dev, g_ts_utc = tu, g_ts_local = tloc, g_lat = la, g_lon = lo,
              g_alt = al, g_speed = sp, g_accuracy = ac, g_battery = ba\<rparr>])"
    and "devices_t db' = devices_t db" "settings_t db' = settings_t db" "runtime_t db' = runtime_t db"
    and "backup_t db' = backup_t db" "device_seq db' = device_seq db"
  using assms by (auto simp: store_fix_def Let_def split: if_splits)

lemma store_fix_gps_inv:
  assumes "gps_inv db"
  shows "gps_inv (snd (store_fix dev tu tloc la lo al sp ac ba k db))"
proof -
  have le: "\<forall>g\<in>set (gps_t db). g_id g \<le> gps_seq db" and d: "distinct (map g_id (gps_t db))"
    using assms by (simp_all add: gps_inv_def)
  then have "Suc (gps_seq db) \<notin> g_id ` set (gps_t db)" by auto
  with d have d': "distinct (map g_id (gps_t db @ [\<lparr>g_id = Suc (gps_seq db), g_device_id = dev, g_ts_utc = tu,
      g_ts_local = tloc, g_lat = la, g_lon = lo, g_alt = al, g_speed = sp, g_accuracy = ac, g_battery = ba\<rparr>]))"
    by simp
  show ?thesis
  proof (cases "store_fix dev tu tloc la lo al sp ac ba k db")
    case (Pair r db')
    show ?thesis
    proof (cases r)
      case (Inl e)
      with Pair assms show ?thesis by (auto simp: store_fix_def Let_def split: if_splits)
    next
      case (Inr n)
      note s = store_fix_ok [OF Pair [unfolded Inr]]
      have "\<forall>g\<in>set (gps_t db'). g_id g \<le> n" using le s(1,3) by (auto simp: le_SucI)
      moreover have "distinct (map g_id (gps_t db'))"
        using d' s(1) unfolding s(3) by (intro distinct_map_filter) simp
      ultimately show ?thesis using Pair s(2) by (simp add: gps_inv_def)
    qed
  qed
qed

lemma store_fix_frame:
  "store_fix dev tu tloc la lo al sp ac ba k db = (r, db') \<Longrightarrow>
   devices_t db' = devices_t db \<and> settings_t db' = settings_t db \<and> runtime_t db' = runtime_t db
   \<and> backup_t db' = backup_t db \<and> device_seq db' = device_seq db"
  by (auto simp: store_fix_def Let_def split: if_splits)

lemma get_latest_store_fix:
  assumes inv: "gps_inv db" and st: "store_fix dev tu tloc la lo al sp ac ba k db = (Inr n, db')"
  shows "get_latest db' dev = Some \<lparr>g_id = n, g_device_id = dev, g_ts_utc = tu, g_ts_local = tloc, g_lat = la,
           g_lon = lo, g_alt = al, g_speed = sp, g_accuracy = ac, g_battery = ba\<rparr>"
proof -
  note s = store_fix_ok [OF st]
  have "\<forall>h\<in>set (filter (\<lambda>g. g_device_id g = dev) (filter (\<lambda>g. \<not> (k \<and> g_device_id g = dev \<and> g_id g \<noteq> n)) (gps_t db))).
          g_id h < n"
    using inv s(1) by (auto simp: gps_inv_def less_Suc_eq_le)
  then show ?thesis
    unfolding get_latest_def s(3)
    by (simp, intro newest_last [where g = "\<lparr>g_id = n, g_device_id = dev, g_ts_utc = tu, g_ts_local = tloc,
        g_lat = la, g_lon = lo, g_alt = al, g_speed = sp, g_accuracy = ac, g_battery = ba\<rparr>", simplified]) auto
qed

lemma get_latest_store_other:
  assumes st: "store_fix dev tu tloc la lo al sp ac ba k db = (Inr n, db')" and "other \<noteq> dev"
  shows "get_latest db' other = get_latest db other"
proof -
  have "filter (\<lambda>g. g_device_id g = other) (filter (\<lambda>g. \<not> (k \<and> g_device_id g = dev \<and> g_id g \<noteq> n)) gs)
          = filter (\<lambda>g. g_device_id g = other) gs" for gs :: "gps_row list"
    using assms(2) by (induction gs) auto
  then show ?thesis
    using assms(2) unfolding get_latest_def store_fix_ok(3) [OF st] by simp
qed

section \<open>Properties\<close>

text \<open>
  Storing a fix makes it the latest one of its device, with keeping
  only the latest the only one; the latest fix of every other device and the device table stay.
\<close>
lemma latest_fix_is_stored_fix:
  assumes "gps_inv db" and "store_fix dev tu tloc la lo al sp ac ba k db = (Inr n, db')"
  shows "get_latest db' dev = Some \<lparr>g_id = n, g_device_id = dev, g_ts_utc = tu, g_ts_local = tloc, g_lat = la,
           g_lon = lo, g_alt = al, g_speed = sp, g_accuracy = ac, g_battery = ba\<rparr>
    \<and> (k \<longrightarrow> length (filter (\<lambda>g. g_device_id g = dev) (gps_t db')) = 1)
    \<and> (\<forall>other. other \<noteq> dev \<longrightarrow> get_latest db' other = get_latest db other)
    \<and> devices_t db' = devices_t db \<and> gps_inv db'"
proof -
  note s = store_fix_ok [OF assms(2)]
  have "\<forall>g\<in>set (gps_t db). g_id g \<noteq> n" using assms(1) s(1) by (auto simp: gps_inv_def)
  then have "filter (\<lambda>g. g_device_id g = dev) (filter (\<lambda>g. \<not> (g_device_id g = dev \<and> g_id g \<noteq> n)) (gps_t db)) = []"
    by (auto simp: filter_empty_conv)
  then have "k \<longrightarrow> length (filter (\<lambda>g. g_device_id g = dev) (gps_t db')) = 1"
    unfolding s(3) by (simp del: filter_filter)
  moreover have "gps_inv db'" using store_fix_gps_inv [OF assms(1), of dev tu tloc la lo al sp ac ba k] assms(2) by simp
  ultimately show ?thesis
    using get_latest_store_fix [OF assms] get_latest_store_other [OF assms(2)] s(4) by blast
qed

end
