(* ===== verification/Fixedloc.thy ===== *)
theory Fixedloc
  imports Settings Runtime
begin

text \<open>
  "GPS at Home": \<open>qml/utilities/fmd/fixedloc.py\<close>, which parses and matches the configured WiFi and
  coordinates, and \<open>daemon-rpm/src/fixed_location.py\<close>, which asks ConnMan for the connected
  networks and mirrors them for the GUI. A ConnMan query is an argument: \<open>Inl\<close> when D-Bus raised,
  \<open>Inr\<close> the (name, type, state) of the services.
\<close>

definition ACCURACY_M :: rat where "ACCURACY_M = 1"
definition SPEED :: rat where "SPEED = 0"

text \<open>\<open>[float(p.strip()) for p in coords.split(",")]\<close>, then the unpacking to a pair.\<close>

definition parse_coords :: "string \<Rightarrow> (pyfloat \<times> pyfloat) option" where
  "parse_coords coords =
    (let parts = map (\<lambda>p. py_float (strip p)) (split_on (CHR '','') coords)
     in if None \<in> set parts then None
        else case parts of [Some lat, Some lon] \<Rightarrow> Some (lat, lon) | _ \<Rightarrow> None)"

definition stripped_setting :: "database \<Rightarrow> string \<Rightarrow> string" where
  "stripped_setting db key = strip (case settings_get db key None of None \<Rightarrow> [] | Some s \<Rightarrow> s)"

definition configured :: "database \<Rightarrow> (string \<times> (pyfloat \<times> pyfloat)) option" where
  "configured db =
    (let ssid = stripped_setting db FIXED_LOCATION_WIFI; coords = stripped_setting db FIXED_LOCATION_COORDS
     in if ssid = [] \<or> coords = [] then None
        else case parse_coords coords of
           None \<Rightarrow> None
         | Some (lat, lon) \<Rightarrow>
             if float_between (-90) lat 90 \<and> float_between (-180) lon 180 then Some (ssid, (lat, lon)) else None)"

text \<open>
  \<open>match(connected_ssids)\<close>: the second component says whether the callable was called at all.
\<close>

definition match :: "database \<Rightarrow> string list \<Rightarrow> (pyfloat \<times> pyfloat) option \<times> bool" where
  "match db ssids =
    (case configured db of
       None \<Rightarrow> (None, False)
     | Some (ssid, coords) \<Rightarrow> (if ssid \<notin> set ssids then None else Some coords, True))"

section \<open>Daemon side\<close>

type_synonym connman_service = "string \<times> string \<times> string"

definition service_connected :: "connman_service \<Rightarrow> bool" where
  "service_connected s \<longleftrightarrow> snd (snd s) \<in> {''ready'', ''online''}"

definition connected_wifi_names :: "exn + connman_service list \<Rightarrow> string list" where
  "connected_wifi_names q = (case q of
       Inl _ \<Rightarrow> []
     | Inr services \<Rightarrow> map fst (filter (\<lambda>s. fst (snd s) = ''wifi'' \<and> service_connected s) services))"

text \<open>\<open>get()\<close> with the decision it logs; only a changed decision is logged.\<close>

definition fixed_decision :: "database \<Rightarrow> exn + connman_service list \<Rightarrow> string" where
  "fixed_decision db q =
    (case match db (connected_wifi_names q) of
       (Some _, _) \<Rightarrow> ''match''
     | (None, False) \<Rightarrow> ''not configured''
     | (None, True) \<Rightarrow> ''configured WiFi not connected ('' @
          dec_nat (length (connected_wifi_names q)) @ '' WiFi connected)'')"

definition fixed_get ::
    "database \<Rightarrow> exn + connman_service list \<Rightarrow> string option \<Rightarrow> (pyfloat \<times> pyfloat) option \<times> string option \<times> string option" where
  "fixed_get db q last_decision =
    (let d = fixed_decision db q
     in (fst (match db (connected_wifi_names q)), Some d, if last_decision = Some d then None else Some d))"

text \<open>\<open>publish_wifi_state()\<close>: the last published value is process state; the write may raise.\<close>

definition publish_wifi_state ::
    "exn + connman_service list \<Rightarrow> bool \<Rightarrow> string option \<Rightarrow> database \<Rightarrow> string option \<times> database" where
  "publish_wifi_state q write_ok published db =
    (let names = (if configured db \<noteq> None then connected_wifi_names q else []);
         v = join [char_of (10::nat)] (sort names)
     in if published = Some v then (published, db)
        else if write_ok then (Some v, set_connected_wifi names db)
        else (published, db))"

lemma float_betweenD: "float_between lo x hi \<Longrightarrow> \<exists>r. x = Fin r \<and> lo \<le> r \<and> r \<le> hi"
  by (cases x) auto

lemma configured_SomeD:
  assumes "configured db = Some (ssid, (lat, lon))"
  shows "ssid = stripped_setting db FIXED_LOCATION_WIFI" "ssid \<noteq> []"
    "parse_coords (stripped_setting db FIXED_LOCATION_COORDS) = Some (lat, lon)"
    "float_between (-90) lat 90" "float_between (-180) lon 180"
  using assms by (auto simp: configured_def Let_def split: if_splits option.splits prod.splits)

section \<open>Properties\<close>

lemma match_Some_iff:
  "fst (match db ssids) = Some c \<longleftrightarrow> (\<exists>ssid. configured db = Some (ssid, c) \<and> ssid \<in> set ssids)"
  by (auto simp: match_def split: option.splits)

text \<open>
  The daemon reports the fixed position only when the configured
  network is among the connected WiFi services of a ConnMan answer, and the position reported is
  the configured pair, within the ranges of latitude and longitude.
\<close>
lemma fixed_location_only_at_home:
  assumes "fst (fixed_get db q prev) = Some (lat, lon)"
  shows "\<exists>services s. q = Inr services \<and> s \<in> set services \<and> fst (snd s) = ''wifi'' \<and> service_connected s
      \<and> fst s = stripped_setting db FIXED_LOCATION_WIFI \<and> fst s \<noteq> []
    \<and> parse_coords (stripped_setting db FIXED_LOCATION_COORDS) = Some (lat, lon)
    \<and> (\<exists>r r'. lat = Fin r \<and> -90 \<le> r \<and> r \<le> 90 \<and> lon = Fin r' \<and> -180 \<le> r' \<and> r' \<le> 180)"
proof -
  from assms obtain ssid where c: "configured db = Some (ssid, (lat, lon))" and m: "ssid \<in> set (connected_wifi_names q)"
    by (auto simp: fixed_get_def Let_def match_Some_iff)
  note cf = configured_SomeD [OF c]
  from m obtain services s where "q = Inr services" "s \<in> set services" "fst (snd s) = ''wifi''"
    "service_connected s" "fst s = ssid"
    by (auto simp: connected_wifi_names_def split: sum.splits)
  note srv = this
  obtain r r' where "lat = Fin r" "-90 \<le> r" "r \<le> 90" "lon = Fin r'" "-180 \<le> r'" "r' \<le> 180"
    using float_betweenD [OF cf(4)] float_betweenD [OF cf(5)] by auto
  with cf(1-3) srv show ?thesis by (intro exI [of _ services] exI [of _ s] conjI) auto
qed

definition home_db :: database where
  "home_db = settings_set FIXED_LOCATION_WIFI (PStr ''home'')
     (settings_set FIXED_LOCATION_COORDS (PStr ''48.5, 11'') empty_db)"

lemma fixed_get_home: "fst (fixed_get home_db (Inr [(''home'', ''wifi'', ''online'')]) None) = Some (Fin (97 / 2), Fin 11)"
  by (simp add: fixed_get_def Let_def match_def configured_def stripped_setting_def home_db_def settings_get_set_same
      settings_get_set_other secret_keys_def parse_coords_def py_float_def unsigned_float_def digits_part_def
      exponent_part_def scale10_def connected_wifi_names_def service_connected_def strip_def lstrip_def rstrip_of_def
      is_space_def is_digit_def digit_val_def code_def to_lower_def)

end
