(* ===== verification/Tokens.thy ===== *)
theory Tokens
  imports Devices Hashes
begin

text \<open>
  \<open>qml/utilities/fmd/tokens.py\<close>: the command-bound HMAC token of the MQTT channel, and the two
  second factors of the SMS channel (TOTP and single-use backup codes). \<open>now\<close> is the clock, \<open>stamp\<close>
  the text of the UTC time a row gets, \<open>draws\<close> and \<open>raws\<close> what \<open>secrets\<close> draws.
\<close>

definition HMAC_STEP :: rat where "HMAC_STEP = 30"
definition HMAC_WINDOW :: int where "HMAC_WINDOW = 1"
definition HMAC_DIGITS :: nat where "HMAC_DIGITS = 16"

text \<open>\<open>for x in xs: if test(x): return True\<close>, then \<open>return False\<close>; the test may raise.\<close>

fun any_match :: "('a \<Rightarrow> exn + bool) \<Rightarrow> 'a list \<Rightarrow> exn + bool" where
  "any_match test [] = Inr False"
| "any_match test (x # xs) = (case test x of Inl e \<Rightarrow> Inl e | Inr b \<Rightarrow> if b then Inr True else any_match test xs)"

section \<open>MQTT command tokens\<close>

abbreviation or_empty :: "string option \<Rightarrow> string" where
  "or_empty v \<equiv> (case v of None \<Rightarrow> [] | Some s \<Rightarrow> s)"

definition hmac_message :: "string option \<Rightarrow> string option \<Rightarrow> int \<Rightarrow> string" where
  "hmac_message cmd arg bucket =
     upper (or_empty cmd) @ '':'' @ lower (or_empty arg) @ '':'' @ dec_int bucket"

definition bucket_of :: "time \<Rightarrow> int" where
  "bucket_of t = \<lfloor>t / HMAC_STEP\<rfloor>"

definition command_mac :: "string \<Rightarrow> string option \<Rightarrow> string option \<Rightarrow> int \<Rightarrow> string" where
  "command_mac secret cmd arg bucket =
     take HMAC_DIGITS (hmac_sha256_hex secret (hmac_message cmd arg bucket))"

definition make_command_token :: "string \<Rightarrow> string option \<Rightarrow> string option \<Rightarrow> time \<Rightarrow> string" where
  "make_command_token secret cmd arg now = command_mac secret cmd arg (bucket_of now)"

text \<open>\<open>hmac.compare_digest\<close> of two \<open>str\<close>: both must be ASCII.\<close>

definition compare_digest :: "string \<Rightarrow> string \<Rightarrow> exn + bool" where
  "compare_digest a b = (if is_ascii a \<and> is_ascii b then Inr (a = b) else Inl TypeError)"

definition verify_command_token ::
    "string option \<Rightarrow> string option \<Rightarrow> string option \<Rightarrow> pyval \<Rightarrow> time \<Rightarrow> exn + bool" where
  "verify_command_token secret cmd arg token now =
    (if or_empty secret = [] \<or> \<not> py_truthy token then Inr False
     else any_match (\<lambda>w. compare_digest (command_mac (or_empty secret) cmd arg (bucket_of now + w)) (py_str token))
            [- HMAC_WINDOW .. HMAC_WINDOW])"

section \<open>TOTP\<close>

definition TOTP_STEP :: int where "TOTP_STEP = 30"
definition TOTP_DIGITS :: nat where "TOTP_DIGITS = 6"
definition TOTP_WINDOW :: int where "TOTP_WINDOW = 1"

definition pad_b32 :: "string \<Rightarrow> string" where
  "pad_b32 secret =
    (let s = filter (\<lambda>c. c \<noteq> CHR '' '') (upper (strip secret))
     in s @ replicate (nat ((- int (length s)) mod 8)) (CHR ''=''))"

definition hotp :: "string \<Rightarrow> int \<Rightarrow> nat \<Rightarrow> exn + string" where
  "hotp key counter digs =
    (case pack_Q counter of
       Inl e \<Rightarrow> Inl e
     | Inr msg \<Rightarrow>
         let mac = hmac_sha1 key msg;
             off = code (last mac) AND 0x0F;
             val = nat (uint (word_of_bytes (take 4 (drop off mac)) AND 0x7FFFFFFF) mod 10 ^ digs)
         in Inr (zfill digs (dec_nat val)))"

definition generate_totp_secret :: "string \<Rightarrow> string" where
  "generate_totp_secret raw = rstrip_of (\<lambda>c. c = CHR ''='') (b32encode raw)"

definition totp_now :: "string \<Rightarrow> time \<Rightarrow> int \<Rightarrow> nat \<Rightarrow> exn + string" where
  "totp_now secret_b32 now step digs =
    (case b32decode (pad_b32 secret_b32) of
       Inl e \<Rightarrow> Inl e
     | Inr key \<Rightarrow> hotp key \<lfloor>now / of_int step\<rfloor> digs)"

definition verify_totp :: "string \<Rightarrow> string \<Rightarrow> int \<Rightarrow> nat \<Rightarrow> int \<Rightarrow> time \<Rightarrow> exn + bool" where
  "verify_totp secret_b32 cd step digs window now =
    (case b32decode (pad_b32 secret_b32) of
       Inl _ \<Rightarrow> Inr False
     | Inr key \<Rightarrow>
         any_match (\<lambda>w. map_sum id (\<lambda>h. h = strip cd) (hotp key (\<lfloor>now / of_int step\<rfloor> + w) digs))
           [- window .. window])"

definition totp_uri :: "string \<Rightarrow> string \<Rightarrow> string \<Rightarrow> string" where
  "totp_uri secret_b32 account issuer =
     ''otpauth://totp/'' @ issuer @ '':'' @ account @ ''?secret='' @ secret_b32
       @ ''&issuer='' @ issuer @ ''&period='' @ dec_int TOTP_STEP @ ''&digits='' @ dec_nat TOTP_DIGITS"

text \<open>
  A device id argument: given, or the own device's, which is created when there is none. All of
  one call runs on one connection.
\<close>

definition resolve_device :: "string option \<Rightarrow> string list \<Rightarrow> string \<Rightarrow> string dbop" where
  "resolve_device i draws stamp db =
    (case i of
       Some d \<Rightarrow> (Inr d, db)
     | None \<Rightarrow> (case own_device_id draws stamp db of
           (Inl e, db') \<Rightarrow> (Inl e, db')
         | (Inr None, db') \<Rightarrow> (Inl TypeError, db')
         | (Inr (Some d), db') \<Rightarrow> (Inr d, db')))"

definition set_own_totp_secret :: "pyval \<Rightarrow> string list \<Rightarrow> string \<Rightarrow> unit dbop" where
  "set_own_totp_secret secret draws stamp = with_connection (\<lambda>db.
    case resolve_device None draws stamp db of
      (Inl e, db') \<Rightarrow> (Inl e, db')
    | (Inr d, db') \<Rightarrow>
        commit_or_rollback db' () (write_devices
          (update_rows (\<lambda>r. d_device_id r = d) (\<lambda>r. r\<lparr>d_totp := obfuscate secret\<rparr>) stamp (devices_t db')) db'))"

section \<open>Backup codes\<close>

definition BACKUP_CODE_COUNT :: nat where "BACKUP_CODE_COUNT = 10"

definition BACKUP_ALPHABET :: string where
  "BACKUP_ALPHABET = ''23456789ABCDEFGHJKLMNPQRSTUVWXYZ''"

definition normalize_code :: "string \<Rightarrow> string" where
  "normalize_code cd = filter (\<lambda>ch. ch \<in> set BACKUP_ALPHABET) (upper cd)"

definition hash_code :: "string \<Rightarrow> string" where
  "hash_code cd = sha256_hex (normalize_code cd)"

definition pretty_code :: "string \<Rightarrow> string" where
  "pretty_code raw = take 4 raw @ ''-'' @ drop 4 raw"

fun insert_codes :: "string \<Rightarrow> string \<Rightarrow> string list \<Rightarrow> string list dbop" where
  "insert_codes dev stamp [] db = (Inr [], db)"
| "insert_codes dev stamp (raw # raws) db =
    (case insert_backup dev (hash_code raw) stamp db of
       Inl e \<Rightarrow> (Inl e, db)
     | Inr db' \<Rightarrow> apfst (map_sum id (Cons (pretty_code raw))) (insert_codes dev stamp raws db'))"

definition delete_codes :: "string \<Rightarrow> database \<Rightarrow> database" where
  "delete_codes dev db = db\<lparr>backup_t := filter (\<lambda>b. b_device_id b \<noteq> dev) (backup_t db)\<rparr>"

definition generate_backup_codes ::
    "string option \<Rightarrow> string list \<Rightarrow> string list \<Rightarrow> string \<Rightarrow> string list dbop" where
  "generate_backup_codes i raws draws stamp = with_connection (\<lambda>db.
    case resolve_device i draws stamp db of
      (Inl e, db') \<Rightarrow> (Inl e, db')
    | (Inr dev, db') \<Rightarrow> insert_codes dev stamp raws (delete_codes dev db'))"

text \<open>A row the \<open>UPDATE\<close> of \<open>consume_backup_code\<close> or the count selects.\<close>

definition unused_for :: "string \<Rightarrow> backup_row \<Rightarrow> bool" where
  "unused_for dev b \<longleftrightarrow> b_device_id b = dev \<and> \<not> b_used b"

text \<open>Counting reads only, and never commits.\<close>

definition count_unused_backup_codes :: "string option \<Rightarrow> string list \<Rightarrow> string \<Rightarrow> nat dbop" where
  "count_unused_backup_codes i draws stamp db =
    (case resolve_device i draws stamp db of
       (Inl e, _) \<Rightarrow> (Inl e, db)
     | (Inr dev, db') \<Rightarrow> (Inr (length (filter (unused_for dev) (backup_t db'))), db))"

definition mark_used :: "string \<Rightarrow> string \<Rightarrow> string \<Rightarrow> backup_row list \<Rightarrow> backup_row list" where
  "mark_used dev h stamp bs =
     map (\<lambda>b. if unused_for dev b \<and> b_hash b = h then b\<lparr>b_used := True, b_used_utc := Some stamp\<rparr> else b) bs"

definition consume_in :: "string \<Rightarrow> string \<Rightarrow> string \<Rightarrow> database \<Rightarrow> bool \<times> database" where
  "consume_in cd dev stamp db =
    (length (filter (\<lambda>b. unused_for dev b \<and> b_hash b = hash_code cd) (backup_t db)) = 1,
     db\<lparr>backup_t := mark_used dev (hash_code cd) stamp (backup_t db)\<rparr>)"

definition consume_backup_code :: "string \<Rightarrow> string option \<Rightarrow> string list \<Rightarrow> string \<Rightarrow> bool dbop" where
  "consume_backup_code cd i draws stamp = with_connection (\<lambda>db.
    case resolve_device i draws stamp db of
      (Inl e, db') \<Rightarrow> (Inl e, db')
    | (Inr dev, db') \<Rightarrow> apfst Inr (consume_in cd dev stamp db'))"

text \<open>
  \<open>verify_sms_code\<close> on a connection of its own: TOTP first, then a backup code. Only an accepted
  backup code is committed; every other outcome closes the connection and rolls back.
\<close>

definition verify_sms_code :: "string \<Rightarrow> string option \<Rightarrow> string list \<Rightarrow> string \<Rightarrow> time \<Rightarrow> bool dbop" where
  "verify_sms_code cd i draws stamp now db =
    (case resolve_device i draws stamp db of
       (Inl e, _) \<Rightarrow> (Inl e, db)
     | (Inr dev, db') \<Rightarrow>
        (let secret = or_empty (Option.bind (get_device db' dev) totp_secret)
         in case (if secret = [] then Inr False
                  else verify_totp secret cd TOTP_STEP TOTP_DIGITS TOTP_WINDOW now) of
              Inl e \<Rightarrow> (Inl e, db)
            | Inr True \<Rightarrow> (Inr True, db)
            | Inr False \<Rightarrow>
                (case consume_in cd dev stamp db' of
                   (True, db'') \<Rightarrow> (Inr True, db'')
                 | (False, _) \<Rightarrow> (Inr False, db))))"

section \<open>Lemmas: command tokens\<close>

lemma any_match_total:
  "(\<And>x. x \<in> set xs \<Longrightarrow> f x = Inr (g x)) \<Longrightarrow> any_match f xs = Inr (\<exists>x\<in>set xs. g x)"
  by (induction xs) auto

lemma any_match_TrueD: "any_match f xs = Inr True \<Longrightarrow> \<exists>x\<in>set xs. f x = Inr True"
  by (induction xs) (auto split: sum.splits if_splits)

lemma set_window: "set [- HMAC_WINDOW .. HMAC_WINDOW] = {-1, 0, 1}"
  by (auto simp: HMAC_WINDOW_def)

lemma is_ascii_take [simp]: "is_ascii s \<Longrightarrow> is_ascii (take n s)"
  by (auto simp: is_ascii_def list_all_iff dest: in_set_takeD)

lemma command_mac_ascii [simp]: "is_ascii (command_mac s c a b)"
  by (simp add: command_mac_def)

lemma length_command_mac [simp]: "length (command_mac s c a b) = 16"
  by (simp add: command_mac_def HMAC_DIGITS_def)

lemma command_mac_not_Nil [simp]: "command_mac s c a b \<noteq> []"
  using length_command_mac [of s c a b] by (metis list.size(3) zero_neq_numeral)

lemma verify_command_token_eq:
  "verify_command_token secret cmd arg token now =
     (if or_empty secret = [] \<or> \<not> py_truthy token then Inr False
      else if \<not> is_ascii (py_str token) then Inl TypeError
      else Inr (\<exists>w\<in>{-1, 0, 1}. command_mac (or_empty secret) cmd arg (bucket_of now + w) = py_str token))"
proof (cases "is_ascii (py_str token)")
  case True
  then have "any_match (\<lambda>w. compare_digest (command_mac (or_empty secret) cmd arg (bucket_of now + w)) (py_str token))
        [- HMAC_WINDOW .. HMAC_WINDOW]
      = Inr (\<exists>w\<in>{-1, 0, 1}. command_mac (or_empty secret) cmd arg (bucket_of now + w) = py_str token)"
    by (subst set_window [symmetric], intro any_match_total) (simp add: compare_digest_def)
  with True show ?thesis by (simp add: verify_command_token_def)
next
  case False
  then show ?thesis by (simp add: verify_command_token_def compare_digest_def HMAC_WINDOW_def upto.simps)
qed

lemma bucket_of_near:
  assumes "\<bar>t' - t\<bar> \<le> 30"
  shows "\<exists>w\<in>{-1, 0, 1}. bucket_of t' + w = bucket_of t"
proof -
  have "t' / 30 \<le> t / 30 + 1" "t / 30 \<le> t' / 30 + 1" using assms by (auto simp: field_simps abs_le_iff)
  then have "\<lfloor>t' / 30\<rfloor> \<le> \<lfloor>t / 30 + 1\<rfloor>" "\<lfloor>t / 30\<rfloor> \<le> \<lfloor>t' / 30 + 1\<rfloor>" by (auto simp only: intro!: floor_mono)
  then have "\<lfloor>t' / 30\<rfloor> \<le> \<lfloor>t / 30\<rfloor> + 1" "\<lfloor>t / 30\<rfloor> \<le> \<lfloor>t' / 30\<rfloor> + 1" by simp_all
  then have "\<lfloor>t / 30\<rfloor> - \<lfloor>t' / 30\<rfloor> \<in> {-1, 0, 1}" by auto
  then show ?thesis unfolding bucket_of_def HMAC_STEP_def
    by (rule rev_bexI) simp
qed

lemma command_mac_normal:
  "upper (or_empty c) = upper (or_empty c') \<Longrightarrow> lower (or_empty a) = lower (or_empty a') \<Longrightarrow>
   command_mac s c a b = command_mac s c' a' b"
  by (simp add: command_mac_def hmac_message_def)

lemma dec_int_no_colon: "CHR '':'' \<notin> set (dec_int i)"
  using dec_nat_digits [of "nat i"] dec_nat_digits [of "nat (- i)"]
  by (auto simp: dec_int_def is_digit_def code_literals)

lemma to_upper_colon: "to_upper x = CHR '':'' \<Longrightarrow> x = CHR '':''"
  using code_upper [of x] by (auto simp: code_literals code_inject [symmetric] simp del: code_inject split: if_splits)

lemma upper_no_colon: "CHR '':'' \<notin> set s \<Longrightarrow> CHR '':'' \<notin> set (upper s)"
  by (auto dest: to_upper_colon [OF sym])

lemma first_sep_eq:
  assumes "c \<notin> set a" "c \<notin> set b"
  shows "a @ c # x = b @ c # y \<longleftrightarrow> a = b \<and> x = y"
proof
  assume eq: "a @ c # x = b @ c # y"
  have "takeWhile (\<lambda>z. z \<noteq> c) (a @ c # x) = a" "takeWhile (\<lambda>z. z \<noteq> c) (b @ c # y) = b"
    using assms by (auto simp: takeWhile_append)
  with eq have "a = b" by metis
  with eq show "a = b \<and> x = y" by simp
qed simp

lemma last_sep_eq:
  assumes "c \<notin> set x" "c \<notin> set y"
  shows "a @ c # x = b @ c # y \<longleftrightarrow> a = b \<and> x = y"
  using first_sep_eq [of c "rev x" "rev y" "rev a" "rev b"] assms
  by (metis append_eq_append_conv2 assms first_sep_eq rev_append rev_rev_ident set_rev rev.simps(2) append_assoc append_Cons append_Nil)

lemma hmac_message_inject:
  assumes "CHR '':'' \<notin> set (or_empty c)" "CHR '':'' \<notin> set (or_empty c')"
  shows "hmac_message c a b = hmac_message c' a' b' \<longleftrightarrow>
     upper (or_empty c) = upper (or_empty c') \<and> lower (or_empty a) = lower (or_empty a') \<and> b = b'"
proof -
  have "CHR '':'' \<notin> set (upper (or_empty c))" "CHR '':'' \<notin> set (upper (or_empty c'))"
    using assms by (blast dest: upper_no_colon)+
  then show ?thesis
    unfolding hmac_message_def
    using first_sep_eq [of "CHR '':''" "upper (or_empty c)" "upper (or_empty c')"]
      last_sep_eq [OF dec_int_no_colon dec_int_no_colon, of _ b _ b']
    by simp
qed

section \<open>Lemmas: TOTP\<close>

lemma b32_body_plain: "c \<in> set (b32_body s) \<Longrightarrow> \<not> is_space c \<and> c \<noteq> CHR ''='' \<and> to_upper c = c"
  by (auto dest!: b32_body_digit simp: b32_char_plain b32_val_char_upper)

lemma generate_totp_secret_body: "generate_totp_secret raw = b32_body raw"
  unfolding generate_totp_secret_def b32encode_body
  by (subst rstrip_of_replicate, simp, rule rstrip_of_id) (auto dest: b32_body_plain)

lemma pad_b32_generate: "pad_b32 (generate_totp_secret raw) = b32encode raw"
proof -
  let ?s = "b32_body raw"
  have st: "strip ?s = ?s" by (rule strip_nospace) (auto dest: b32_body_plain)
  have up: "upper ?s = ?s" by (rule map_idI) (auto dest: b32_body_plain)
  have fi: "filter (\<lambda>c. c \<noteq> CHR '' '') ?s = ?s"
    by (rule filter_True) (auto dest!: b32_body_plain simp: is_space_def code_literals)
  have "nat ((- int (length ?s)) mod 8) = b32_pads raw"
    using length_b32_body [of raw] b32_pads_range [of raw] by (auto simp: zmod_zminus1_eq_if nat_eq_iff) presburger+
  then show ?thesis by (simp add: pad_b32_def generate_totp_secret_body Let_def st up fi b32encode_body)
qed

lemma hotp_form: "hotp key c d = Inr s \<Longrightarrow> 0 < d \<Longrightarrow> length s = d \<and> list_all is_digit s"
proof -
  assume h: "hotp key c d = Inr s" and d: "0 < d"
  then obtain v where v: "s = zfill d (dec_nat (nat (v mod 10 ^ d)))"
    by (auto simp: hotp_def Let_def split: sum.splits)
  have "nat (v mod 10 ^ d) < 10 ^ d"
    by (simp add: nat_less_iff)
  then have "length (dec_nat (nat (v mod 10 ^ d))) \<le> d" using d by (rule length_dec_nat)
  then show ?thesis
    using dec_nat_digits by (auto simp: v length_zfill zfill_def list_all_iff is_digit_def code_def)
qed

lemma hotp_total: "0 \<le> c \<Longrightarrow> c < 2 ^ 64 \<Longrightarrow> \<exists>s. hotp key c d = Inr s"
  by (simp add: hotp_def pack_Q_def Let_def)

lemma digits_no_strip: "list_all is_digit s \<Longrightarrow> strip s = s"
  by (rule strip_nospace) (auto simp: list_all_iff digit_not_space)

section \<open>Lemmas: backup codes\<close>

lemma normalize_pretty [simp]: "normalize_code (pretty_code r) = normalize_code r"
proof -
  have "to_upper (CHR ''-'') \<notin> set BACKUP_ALPHABET" by code_simp
  moreover have "normalize_code r = normalize_code (take 4 r @ drop 4 r)" by simp
  ultimately show ?thesis by (simp add: normalize_code_def pretty_code_def del: append_take_drop_id)
qed

lemma hash_code_cong: "normalize_code a = normalize_code b \<Longrightarrow> hash_code a = hash_code b"
  by (simp add: hash_code_def)

lemma consume_in_used:
  "normalize_code cd' = normalize_code cd \<Longrightarrow>
   \<not> fst (consume_in cd' dev stamp' (snd (consume_in cd dev stamp db)))"
  by (auto simp: consume_in_def mark_used_def hash_code_cong [of cd' cd] filter_map comp_def unused_for_def
      filter_empty_conv if_distrib cong: if_cong)

lemma backups_ok_mark_used: "backups_ok ds bs \<Longrightarrow> backups_ok ds (mark_used dev h stamp bs)"
proof -
  have "map b_hash (mark_used dev h stamp bs) = map b_hash bs"
    by (simp add: mark_used_def comp_def if_distrib cong: if_cong)
  then show "backups_ok ds bs \<Longrightarrow> ?thesis" by (simp add: backups_ok_def) (auto simp: mark_used_def)
qed

lemma consume_in_inv: "devices_inv db \<Longrightarrow> devices_inv (snd (consume_in cd dev stamp db))"
  by (simp add: consume_in_def devices_inv_def backups_ok_mark_used)

lemma distinct_filter_le_1: "distinct (map f xs) \<Longrightarrow> length (filter (\<lambda>x. P x \<and> f x = h) xs) \<le> 1"
  by (induction xs) (auto simp: filter_empty_conv image_iff)

lemma filter_one:
  "distinct (map f xs) \<Longrightarrow> x \<in> set xs \<Longrightarrow> P x \<Longrightarrow> f x = h \<Longrightarrow> length (filter (\<lambda>x. P x \<and> f x = h) xs) = 1"
  using distinct_filter_le_1 [of f xs P h] length_pos_if_in_set [of x "filter (\<lambda>x. P x \<and> f x = h) xs"]
  by (simp add: Suc_le_eq le_antisym)

text \<open>Every attempt is accounted for: the codes left unused and the accepted attempts add up.\<close>

lemma mark_used_length:
  "length (filter (unused_for dev) (mark_used dev h stamp bs)) + length (filter (\<lambda>b. unused_for dev b \<and> b_hash b = h) bs)
     = length (filter (unused_for dev) bs)"
  by (induction bs) (auto simp: mark_used_def unused_for_def)

lemma consume_in_count:
  assumes "devices_inv db"
  shows "length (filter (unused_for dev) (backup_t (snd (consume_in cd dev stamp db))))
           + (if fst (consume_in cd dev stamp db) then 1 else 0)
         = length (filter (unused_for dev) (backup_t db))"
  using mark_used_length [of dev "hash_code cd" stamp "backup_t db"]
    distinct_filter_le_1 [of b_hash "backup_t db" "unused_for dev" "hash_code cd"] assms
  by (auto simp: consume_in_def devices_inv_def backups_ok_def)

fun consume_all :: "string \<Rightarrow> string \<Rightarrow> string list \<Rightarrow> database \<Rightarrow> bool list \<times> database" where
  "consume_all dev stamp [] db = ([], db)"
| "consume_all dev stamp (c # cs) db =
     (let (ok, db') = consume_in c dev stamp db; (oks, db'') = consume_all dev stamp cs db' in (ok # oks, db''))"

lemma consume_all_count:
  "devices_inv db \<Longrightarrow> length (filter (unused_for dev) (backup_t (snd (consume_all dev stamp cs db))))
      + length (filter id (fst (consume_all dev stamp cs db)))
    = length (filter (unused_for dev) (backup_t db))"
proof (induction cs arbitrary: db)
  case (Cons c cs)
  show ?case
    using Cons.IH [OF consume_in_inv [OF Cons.prems]] consume_in_count [OF Cons.prems, of dev c stamp]
    by (simp add: Let_def split_beta split: if_splits)
qed simp

text \<open>The rows a regeneration inserts.\<close>

fun code_rows :: "string \<Rightarrow> string \<Rightarrow> nat \<Rightarrow> string list \<Rightarrow> backup_row list" where
  "code_rows dev stamp n [] = []"
| "code_rows dev stamp n (r # rs) =
     \<lparr>b_id = Suc n, b_device_id = dev, b_hash = hash_code r, b_used = False, b_used_utc = None, b_created = stamp\<rparr>
     # code_rows dev stamp (Suc n) rs"

lemma code_rows_props [simp]:
  "map b_hash (code_rows dev stamp n raws) = map hash_code raws"
  "filter (unused_for dev) (code_rows dev stamp n raws) = code_rows dev stamp n raws"
  "length (code_rows dev stamp n raws) = length raws"
  by (induction raws arbitrary: n) (auto simp: unused_for_def)

lemma code_rows_hash: "b \<in> set (code_rows dev stamp n raws) \<Longrightarrow> b_hash b \<in> hash_code ` set raws"
  by (induction raws arbitrary: n) auto

lemma code_rows_mem: "b \<in> set (code_rows dev stamp n raws) \<Longrightarrow> unused_for dev b"
  by (induction raws arbitrary: n) (auto simp: unused_for_def)

lemma insert_codes_ok:
  "insert_codes dev stamp raws db = (Inr codes, db') \<Longrightarrow>
   codes = map pretty_code raws
   \<and> db' = db\<lparr>backup_seq := backup_seq db + length raws,
              backup_t := backup_t db @ code_rows dev stamp (backup_seq db) raws\<rparr>
   \<and> (raws \<noteq> [] \<longrightarrow> dev \<in> d_device_id ` set (devices_t db))
   \<and> (distinct (map b_hash (backup_t db)) \<longrightarrow> distinct (map b_hash (backup_t db')))"
proof (induction raws arbitrary: db codes)
  case Nil
  then show ?case by simp
next
  case (Cons r rs)
  from Cons.prems obtain d where d: "insert_backup dev (hash_code r) stamp db = Inr d"
    by (auto split: sum.splits)
  with Cons.prems obtain cs where cs: "insert_codes dev stamp rs d = (Inr cs, db')" "codes = pretty_code r # cs"
    by (cases "insert_codes dev stamp rs d"; cases "fst (insert_codes dev stamp rs d)") auto
  from d have "hash_code r \<notin> b_hash ` set (backup_t db)" "dev \<in> d_device_id ` set (devices_t db)"
    by (auto simp: insert_backup_def split: if_splits)
  with Cons.IH [OF cs(1)] cs(2) d show ?case
    by (auto simp: insert_backup_def disjoint_iff) (metis image_eqI)
qed

section \<open>Properties\<close>

text \<open>
  A token signed with the receiver's PIN is accepted within 30 seconds
  either way, whatever case command and argument are written in, and a missing argument counts
  as an empty one.
\<close>
lemma command_token_accepted:
  assumes "secret \<noteq> []" "\<bar>t' - t\<bar> \<le> 30"
    and "upper (or_empty cmd') = upper (or_empty cmd)" "lower (or_empty arg') = lower (or_empty arg)"
  shows "verify_command_token (Some secret) cmd' arg' (PStr (make_command_token secret cmd arg t)) t' = Inr True"
proof -
  obtain w where "w \<in> {-1, 0, 1}" "bucket_of t' + w = bucket_of t" using bucket_of_near [OF assms(2)] by blast
  then have "\<exists>w\<in>{-1, 0, 1}. command_mac secret cmd' arg' (bucket_of t' + w) = command_mac secret cmd arg (bucket_of t)"
    using command_mac_normal [OF assms(3,4)] by metis
  then show ?thesis
    using assms(1) by (simp add: verify_command_token_eq make_command_token_def del: bex_simps)
qed


lemma own_token_verifies:
  "verify_command_token (Some ''1234'') (Some ''LOCK'') None (PStr (make_command_token ''1234'' (Some ''LOCK'') None 1000)) 1000
     = Inr True"
  by (simp add: verify_command_token_eq make_command_token_def)


text \<open>
  C31. \<open>totp_enrolment\<close>: the secret shown for enrolment (Base32 without padding) decodes to the drawn
  bytes, and the six-digit code an authenticator shows for it is accepted within 30 seconds either
  way, also with blanks around it.
\<close>
theorem totp_enrolment:
  assumes "30 \<le> t" "t < 2 ^ 64" "30 \<le> t'" "t' < 2 ^ 64" "\<bar>t' - t\<bar> \<le> 30"
  shows "\<exists>cd. totp_now (generate_totp_secret raw) t TOTP_STEP TOTP_DIGITS = Inr cd
      \<and> hotp raw \<lfloor>t / 30\<rfloor> 6 = Inr cd \<and> length cd = 6 \<and> list_all is_digit cd
      \<and> verify_totp (generate_totp_secret raw) ('' '' @ cd @ '' '') TOTP_STEP TOTP_DIGITS TOTP_WINDOW t' = Inr True"
proof -
  have low: "1 \<le> t / 30" "1 \<le> t' / 30" and high: "t / 30 < 2 ^ 62" "t' / 30 < 2 ^ 62" using assms by simp_all
  then have r: "1 \<le> \<lfloor>t / 30\<rfloor>" "1 \<le> \<lfloor>t' / 30\<rfloor>" "\<lfloor>t / 30\<rfloor> < 2 ^ 62" "\<lfloor>t' / 30\<rfloor> < 2 ^ 62"
    by (simp_all add: le_floor_iff floor_less_iff)
  obtain cd where cd: "hotp raw \<lfloor>t / 30\<rfloor> 6 = Inr cd" using hotp_total [of "\<lfloor>t / 30\<rfloor>" raw 6] r by auto
  note form = hotp_form [OF cd]
  have dec: "b32decode (pad_b32 (generate_totp_secret raw)) = Inr raw"
    by (simp add: pad_b32_generate b32decode_b32encode)
  have sp: "strip ('' '' @ cd @ '' '') = cd"
    using form by (intro strip_blanks) (auto simp: list_all_iff digit_not_space)
  obtain g where g: "\<And>w. w \<in> {-1, 0, 1} \<Longrightarrow> hotp raw (\<lfloor>t' / 30\<rfloor> + w) 6 = Inr (g w)"
  proof -
    have "\<exists>h. hotp raw (\<lfloor>t' / 30\<rfloor> + w) 6 = Inr h" if "w \<in> {-1, 0, 1}" for w
      using that r by (intro hotp_total) auto
    then show ?thesis using that by metis
  qed
  obtain w where w: "w \<in> {-1, 0, 1}" "\<lfloor>t' / 30\<rfloor> + w = \<lfloor>t / 30\<rfloor>"
    using bucket_of_near [OF assms(5)] unfolding bucket_of_def HMAC_STEP_def by blast
  have win: "set [- TOTP_WINDOW .. TOTP_WINDOW] = {-1, 0, 1}" by (auto simp: TOTP_WINDOW_def)
  have "any_match (\<lambda>w. map_sum id (\<lambda>h. h = cd) (hotp raw (\<lfloor>t' / 30\<rfloor> + w) 6)) [- TOTP_WINDOW .. TOTP_WINDOW]
      = Inr (\<exists>w\<in>{-1, 0, 1}. g w = cd)"
    unfolding win [symmetric] by (rule any_match_total) (unfold win, simp add: g del: insert_iff)
  moreover have "g w = cd" using g [OF w(1)] w(2) cd by simp
  ultimately have "any_match (\<lambda>w. map_sum id (\<lambda>h. h = cd) (hotp raw (\<lfloor>t' / 30\<rfloor> + w) 6)) [- TOTP_WINDOW .. TOTP_WINDOW] = Inr True"
    using w(1) by (simp only: sum.inject) blast
  with cd form dec show ?thesis
    by (simp add: totp_now_def verify_totp_def sp TOTP_STEP_def TOTP_DIGITS_def del: append.simps)
qed

theorem totp_enrolment_witness:
  "\<exists>cd. totp_now (generate_totp_secret ''12345678901234567890'') 1000 TOTP_STEP TOTP_DIGITS = Inr cd \<and> length cd = 6"
  using totp_enrolment [of 1000 1029 "''12345678901234567890''"] by auto

text \<open>
  C8. \<open>backup_code_single_use\<close>: after a regeneration, a displayed code is accepted exactly once, in
  any case and with any separators, and a code that was not displayed is not accepted unless its
  hash is the hash of a displayed one; so the codes of an earlier generation are void.
\<close>
theorem backup_code_single_use:
  assumes "devices_inv db" "generate_backup_codes (Some dev) raws draws stamp db = (Inr codes, db')"
    and "c \<in> set codes" "normalize_code cd = normalize_code c" "normalize_code cd' = normalize_code c"
  shows "fst (consume_backup_code cd (Some dev) draws stamp1 db') = Inr True
    \<and> fst (consume_backup_code cd' (Some dev) draws stamp2 (snd (consume_backup_code cd (Some dev) draws stamp1 db'))) = Inr False
    \<and> (\<forall>x. fst (consume_backup_code x (Some dev) draws stamp1 db') = Inr True \<longrightarrow> hash_code x \<in> hash_code ` set codes)"
proof -
  let ?d = "delete_codes dev db"
  have gen: "insert_codes dev stamp raws ?d = (Inr codes, db')"
    using assms(2) by (simp add: generate_backup_codes_def with_connection_def resolve_device_def split: prod.splits sum.splits)
  have dis: "distinct (map b_hash (backup_t ?d))"
    using assms(1) by (simp add: delete_codes_def devices_inv_def backups_ok_def distinct_map_filter)
  note ins = insert_codes_ok [OF gen]
  have bt: "backup_t db' = backup_t ?d @ code_rows dev stamp (backup_seq ?d) raws" and codes: "codes = map pretty_code raws"
    using ins by simp_all
  have dis': "distinct (map b_hash (backup_t db'))" using ins dis by blast
  have un: "filter (\<lambda>b. unused_for dev b \<and> b_hash b = h) (backup_t db')
              = filter (\<lambda>b. b_hash b = h) (code_rows dev stamp (backup_seq ?d) raws)" for h
  proof -
    have "filter (\<lambda>b. unused_for dev b \<and> b_hash b = h) (backup_t ?d) = []"
      by (auto simp: delete_codes_def unused_for_def filter_empty_conv)
    moreover have "filter (\<lambda>b. unused_for dev b \<and> b_hash b = h) (code_rows dev stamp n raws)
        = filter (\<lambda>b. b_hash b = h) (code_rows dev stamp n raws)" for n
      by (rule filter_cong) (auto dest: code_rows_mem)
    ultimately show ?thesis by (simp add: bt)
  qed
  have one: "fst (consume_in cd dev stamp1 db') "
  proof -
    have "hash_code c \<in> set (map b_hash (code_rows dev stamp (backup_seq ?d) raws))"
      using assms(3) unfolding code_rows_props codes by (auto simp: hash_code_def)
    then obtain b where b: "b \<in> set (code_rows dev stamp (backup_seq ?d) raws)" "b_hash b = hash_code c"
      unfolding set_map by (metis imageE)
    then have "length (filter (\<lambda>b. unused_for dev b \<and> b_hash b = hash_code c) (backup_t db')) = 1"
      using code_rows_mem [OF b(1)] by (intro filter_one [OF dis']) (auto simp: bt)
    then show ?thesis using hash_code_cong [OF assms(4)] by (simp add: consume_in_def)
  qed
  have "fst (consume_in x dev stamp1 db') \<Longrightarrow> hash_code x \<in> hash_code ` set codes" for x
  proof -
    assume "fst (consume_in x dev stamp1 db')"
    then have "filter (\<lambda>b. b_hash b = hash_code x) (code_rows dev stamp (backup_seq ?d) raws) \<noteq> []"
      by (auto simp: consume_in_def un)
    then have "hash_code x \<in> hash_code ` set raws"
      by (simp add: filter_empty_conv) (metis code_rows_hash)
    then show ?thesis by (auto simp: codes image_iff hash_code_def)
  qed
  moreover have "consume_backup_code x (Some dev) draws s d = (Inr (fst (consume_in x dev s d)), snd (consume_in x dev s d))" for x s d
    by (simp add: consume_backup_code_def with_connection_def resolve_device_def split_beta apfst_def map_prod_def)
  ultimately show ?thesis
    using one consume_in_used [of cd' cd dev stamp2 stamp1 db'] assms(4,5) by simp
qed

lemma one_code_generated:
  "fst (generate_backup_codes (Some ''aB3dE6gH9k'') [''23456789''] [] ''t'' first_start_db) = Inr [''2345-6789'']"
  by (simp add: generate_backup_codes_def with_connection_def resolve_device_def delete_codes_def insert_backup_def
      first_start_devices first_start_frame pretty_code_def)

theorem backup_code_single_use_witness:
  "fst (consume_backup_code ''2345 6789'' (Some ''aB3dE6gH9k'') [] ''t1''
     (snd (generate_backup_codes (Some ''aB3dE6gH9k'') [''23456789''] [] ''t'' first_start_db))) = Inr True"
proof -
  have g: "generate_backup_codes (Some ''aB3dE6gH9k'') [''23456789''] [] ''t'' first_start_db
      = (Inr [''2345-6789''], snd (generate_backup_codes (Some ''aB3dE6gH9k'') [''23456789''] [] ''t'' first_start_db))"
    using one_code_generated by (simp add: prod_eq_iff)
  have n: "normalize_code ''2345 6789'' = normalize_code ''2345-6789''" by code_simp
  show ?thesis using backup_code_single_use [OF first_start_inv g _ n refl, of "''t1''" "''t2''"] by simp
qed

text \<open>
  A rejected SMS code, and one accepted through TOTP, leave the database as
  it was; an accepted backup code costs exactly one unused code of the device.
\<close>
lemma sms_code_effect:
  assumes "devices_inv db" "verify_sms_code cd (Some dev) draws stamp t db = (r, db')"
  shows "(r \<noteq> Inr True \<longrightarrow> db' = db)
    \<and> (r = Inr True \<longrightarrow> db' = db
        \<and> (\<exists>d s. get_device db dev = Some d \<and> totp_secret d = Some s \<and> s \<noteq> []
             \<and> verify_totp s cd TOTP_STEP TOTP_DIGITS TOTP_WINDOW t = Inr True)
       \<or> Suc (length (filter (unused_for dev) (backup_t db'))) = length (filter (unused_for dev) (backup_t db))
        \<and> hash_code cd \<in> b_hash ` set (filter (unused_for dev) (backup_t db))
        \<and> devices_t db' = devices_t db \<and> devices_inv db')"
proof -
  have h: "fst (consume_in cd dev stamp db) \<Longrightarrow> hash_code cd \<in> b_hash ` set (filter (unused_for dev) (backup_t db))"
  proof -
    assume "fst (consume_in cd dev stamp db)"
    then have "filter (\<lambda>b. unused_for dev b \<and> b_hash b = hash_code cd) (backup_t db) \<noteq> []"
      by (auto simp: consume_in_def)
    then show ?thesis by (auto simp: filter_empty_conv image_iff)
  qed
  show ?thesis
    using assms(2) consume_in_count [OF assms(1), of dev cd stamp] h consume_in_inv [OF assms(1), of cd dev stamp]
    by (cases "consume_in cd dev stamp db")
       (auto simp: verify_sms_code_def resolve_device_def Let_def consume_in_def bind_eq_Some_conv
        split: sum.splits if_splits bool.splits option.splits)
qed

text \<open>
  Over any list of attempts, the accepted ones and the codes left
  unused add up to the codes there were; guessing can never be accepted more often than that.
\<close>
lemma backup_codes_accounted:
  assumes "devices_inv db"
  shows "length (filter id (fst (consume_all dev stamp cs db)))
      + length (filter (unused_for dev) (backup_t (snd (consume_all dev stamp cs db))))
    = length (filter (unused_for dev) (backup_t db))"
  using consume_all_count [OF assms, of dev stamp cs] by simp

end
