(* ===== verification/SmsListener.thy ===== *)
theory SmsListener
  imports Tokens
begin

text \<open>
  \<open>daemon-rpm/src/sms_command_listener.py\<close>: the first factor of the SMS channel (the sender
  whitelist), the command grammar, the listener's own copy of the TOTP check, and the handler that
  strings them together. The two callables the listener is built with are arguments that pass a
  state \<open>'s\<close> along and may raise.
\<close>

definition KEYWORDS :: "string list" where
  "KEYWORDS = [''CAMERA'', ''LOCK'', ''DELETE'', ''RING'', ''GPS'']"

definition CAMERA_ARGS :: "string list" where
  "CAMERA_ARGS = [''front'', ''back'']"

definition normalize_number :: "string \<Rightarrow> string" where
  "normalize_number num = filter is_digit num"

text \<open>\<open>s[-n:]\<close> for \<open>n > 0\<close>.\<close>

definition last_n :: "nat \<Rightarrow> 'a list \<Rightarrow> 'a list" where
  "last_n n s = drop (length s - n) s"

definition entry_matches :: "nat \<Rightarrow> string \<Rightarrow> string \<Rightarrow> bool" where
  "entry_matches match_digits s e =
    (if match_digits \<noteq> 0 \<and> match_digits \<le> length s \<and> match_digits \<le> length e
     then last_n match_digits s = last_n match_digits e else s = e)"

definition sender_allowed :: "string \<Rightarrow> string list \<Rightarrow> nat \<Rightarrow> bool" where
  "sender_allowed sender allowed match_digits =
     list_ex (\<lambda>entry. entry_matches match_digits (normalize_number sender) (normalize_number entry)) allowed"

type_synonym command = "string \<times> string option \<times> string"

definition parse_command :: "string \<Rightarrow> command option" where
  "parse_command text =
    (case split_ws (strip text) of
       [] \<Rightarrow> None
     | p # rest \<Rightarrow>
         let cmd = upper p in
         if cmd \<notin> set KEYWORDS then None
         else
           let (arg, rest') =
             (if cmd = ''CAMERA''
              then (case rest of
                      r # rs \<Rightarrow> if lower r \<in> set CAMERA_ARGS then (Some (lower r), rs) else (Some ''back'', rest)
                    | [] \<Rightarrow> (Some ''back'', rest))
              else (None, rest))
           in case rest' of [] \<Rightarrow> None | cd # _ \<Rightarrow> if cd = [] then None else Some (cmd, arg, cd))"

text \<open>The listener's \<open>verify_totp\<close>: unlike the one in \<open>tokens.py\<close> it neither pads nor drops blanks.\<close>

definition listener_verify_totp :: "string \<Rightarrow> string \<Rightarrow> int \<Rightarrow> nat \<Rightarrow> int \<Rightarrow> time \<Rightarrow> exn + bool" where
  "listener_verify_totp secret_b32 cd step digs window now =
    (case b32decode (upper (strip secret_b32)) of
       Inl _ \<Rightarrow> Inr False
     | Inr key \<Rightarrow>
         any_match (\<lambda>w. map_sum id (\<lambda>h. h = strip cd) (hotp key (\<lfloor>now / of_int step\<rfloor> + w) digs))
           [- window .. window])"

text \<open>
  \<open>_handle\<close> with the exceptions \<open>_make_handler\<close> swallows; \<open>sender\<close> is \<open>None\<close> when the signal carries
  none.
\<close>

datatype sms_verdict = NotWhitelisted | NoCommand | NotAuthorized | Executed | HandlerError exn

definition sms_handle ::
    "string list \<Rightarrow> nat \<Rightarrow> (string \<Rightarrow> string option \<Rightarrow> string \<Rightarrow> string \<Rightarrow> 's \<Rightarrow> (exn + bool) \<times> 's)
     \<Rightarrow> (string \<Rightarrow> string option \<Rightarrow> string \<Rightarrow> 's \<Rightarrow> (exn + unit) \<times> 's)
     \<Rightarrow> string option \<Rightarrow> string \<Rightarrow> 's \<Rightarrow> sms_verdict \<times> 's" where
  "sms_handle allowed match_digits authorize on_command sender_field message s =
    (let sender = (case sender_field of None \<Rightarrow> ''unknown'' | Some x \<Rightarrow> x)
     in if \<not> sender_allowed sender allowed match_digits then (NotWhitelisted, s)
        else case parse_command message of
          None \<Rightarrow> (NoCommand, s)
        | Some (cmd, arg, cd) \<Rightarrow>
            (case authorize cmd arg cd sender s of
               (Inl e, s') \<Rightarrow> (HandlerError e, s')
             | (Inr False, s') \<Rightarrow> (NotAuthorized, s')
             | (Inr True, s') \<Rightarrow>
                 (case on_command cmd arg sender s' of
                    (Inl e, s'') \<Rightarrow> (HandlerError e, s'')
                  | (Inr _, s'') \<Rightarrow> (Executed, s''))))"

section \<open>Lemmas\<close>

lemma split_ws_acc_word:
  "\<forall>c\<in>set p. \<not> is_space c \<Longrightarrow> split_ws_acc w (p @ s) = split_ws_acc (w @ p) s"
  by (induction p arbitrary: w) auto

lemma split_ws_word:
  assumes "\<forall>c\<in>set p. \<not> is_space c" "p \<noteq> []" "is_space b"
  shows "split_ws (p @ b # s) = p # split_ws s"
  using split_ws_acc_word [OF assms(1), of "[]" "b # s"] assms(2,3) by (simp add: split_ws_def)

lemma split_ws_last: "\<forall>c\<in>set p. \<not> is_space c \<Longrightarrow> p \<noteq> [] \<Longrightarrow> split_ws p = [p]"
  using split_ws_acc_word [of p "[]" "[]"] by (simp add: split_ws_def)

text \<open>The words of a text joined by single blanks.\<close>

lemma split_ws_join:
  "\<forall>p\<in>set ps. p \<noteq> [] \<and> (\<forall>c\<in>set p. \<not> is_space c) \<Longrightarrow> split_ws (join '' '' ps) = ps"
proof (induction "'' ''" ps rule: join.induct)
  case 1
  then show ?case by (simp add: split_ws_def)
next
  case (2 x)
  then show ?case by (simp add: split_ws_last)
next
  case (3 x y xs)
  have "is_space (CHR '' '')" by code_simp
  with 3 show ?case by (simp add: split_ws_word)
qed

lemma join_ends:
  assumes "ps \<noteq> []" "\<forall>p\<in>set ps. p \<noteq> [] \<and> (\<forall>c\<in>set p. \<not> is_space c)"
  shows "join '' '' ps \<noteq> [] \<and> \<not> is_space (hd (join '' '' ps)) \<and> \<not> is_space (last (join '' '' ps))"
  using assms
proof (induction "'' ''" ps rule: join.induct)
  case (3 x y xs)
  then show ?case by (auto simp: hd_append)
qed auto

lemma strip_ends: "s = [] \<or> (\<not> is_space (hd s) \<and> \<not> is_space (last s)) \<Longrightarrow> strip s = s"
  by (cases s rule: rev_cases) (auto simp: strip_def lstrip_def rstrip_of_def dropWhile_nospace)

lemma strip_join: "ps \<noteq> [] \<Longrightarrow> \<forall>p\<in>set ps. p \<noteq> [] \<and> (\<forall>c\<in>set p. \<not> is_space c) \<Longrightarrow> strip (join '' '' ps) = join '' '' ps"
  by (intro strip_ends) (blast dest: join_ends)

lemma last_n_append: "length d = n \<Longrightarrow> last_n n (a @ d) = d"
  by (simp add: last_n_def)

lemma sms_handle_unchanged:
  "fst (sms_handle allowed md auth exe sender msg s) \<in> {NotWhitelisted, NoCommand} \<Longrightarrow>
   snd (sms_handle allowed md auth exe sender msg s) = s"
  by (auto simp: sms_handle_def Let_def split: option.splits prod.splits sum.splits bool.splits)

lemma sms_handle_executed:
  assumes "fst (sms_handle allowed md auth exe sender msg s) = Executed"
  shows "\<exists>cmd arg cd s'. sender_allowed (case sender of None \<Rightarrow> ''unknown'' | Some x \<Rightarrow> x) allowed md
     \<and> parse_command msg = Some (cmd, arg, cd)
     \<and> auth cmd arg cd (case sender of None \<Rightarrow> ''unknown'' | Some x \<Rightarrow> x) s = (Inr True, s')"
  using assms by (auto simp: sms_handle_def Let_def split: if_splits option.splits prod.splits sum.splits bool.splits)

lemma listener_totp_same:
  "b32decode (upper (strip s)) = b32decode (pad_b32 s) \<Longrightarrow> listener_verify_totp s cd st d w t = verify_totp s cd st d w t"
  by (simp add: listener_verify_totp_def verify_totp_def)

section \<open>Properties\<close>

text \<open>
  A number passes the whitelist when it agrees with an entry in its
  last nine digits, however both are punctuated and whatever country prefix they carry; and a
  sender that passes has an entry whose digits agree in this way or are the same altogether.
\<close>
lemma whitelist_ignores_format:
  "(\<exists>entry\<in>set allowed. \<exists>a b d. length d = 9 \<and> normalize_number sender = a @ d \<and> normalize_number entry = b @ d)
       \<or> (\<exists>entry\<in>set allowed. normalize_number sender = normalize_number entry)
   \<longleftrightarrow> sender_allowed sender allowed 9"
  (is "?suffix \<or> ?same \<longleftrightarrow> _")
proof
  assume "?suffix \<or> ?same"
  then show "sender_allowed sender allowed 9"
    by (auto simp: sender_allowed_def entry_matches_def list_ex_iff last_n_append intro: bexI [rotated])
next
  assume "sender_allowed sender allowed 9"
  then obtain e where e: "e \<in> set allowed" "entry_matches 9 (normalize_number sender) (normalize_number e)"
    by (auto simp: sender_allowed_def list_ex_iff)
  let ?s = "normalize_number sender" and ?e = "normalize_number e"
  show "?suffix \<or> ?same"
  proof (cases "9 \<le> length ?s \<and> 9 \<le> length ?e")
    case True
    then have "last_n 9 ?s = last_n 9 ?e" using e(2) by (simp add: entry_matches_def)
    moreover have "?s = take (length ?s - 9) ?s @ last_n 9 ?s" "?e = take (length ?e - 9) ?e @ last_n 9 ?e"
      by (simp_all add: last_n_def)
    moreover have "length (last_n 9 ?s) = 9" using True by (simp add: last_n_def)
    ultimately have ?suffix using e(1) by metis
    then show ?thesis ..
  next
    case False
    then show ?thesis using e by (auto simp: entry_matches_def split: if_splits)
  qed
qed

text \<open>
  An SMS body "KEYWORD CODE" in any case is read as that keyword and code,
  "CAMERA front CODE" with its argument, and a camera command without one means the back camera.
\<close>
lemma sms_command_parsed:
  assumes "upper kw \<in> set KEYWORDS" "cd \<noteq> []" "\<forall>c\<in>set cd. \<not> is_space c" "lower cd \<notin> set CAMERA_ARGS"
    and "\<forall>c\<in>set kw. \<not> is_space c" "lower arg \<in> set CAMERA_ARGS" "\<forall>c\<in>set arg. \<not> is_space c"
  shows "parse_command (join '' '' [kw, cd]) = Some (upper kw, if upper kw = ''CAMERA'' then Some ''back'' else None, cd)
    \<and> (upper kw = ''CAMERA'' \<longrightarrow> parse_command (join '' '' [kw, arg, cd]) = Some (''CAMERA'', Some (lower arg), cd))"
proof -
  have kw: "kw \<noteq> []" using assms(1) by (auto simp: KEYWORDS_def)
  have arg: "arg \<noteq> []" using assms(6) by (auto simp: CAMERA_ARGS_def)
  have two: "split_ws (strip (join '' '' [kw, cd])) = [kw, cd]"
    using kw assms(2,3,5) by (subst strip_join) (auto simp: split_ws_join simp del: join.simps)
  have three: "split_ws (strip (join '' '' [kw, arg, cd])) = [kw, arg, cd]"
    using kw arg assms(2,3,5,7) by (subst strip_join) (auto simp: split_ws_join simp del: join.simps)
  show ?thesis
    unfolding parse_command_def two three using assms(1,2,4,6)
    by (cases "upper kw = ''CAMERA''") (simp_all add: Let_def)
qed

text \<open>
  C36. \<open>listener_totp_agrees\<close>: for the secrets the app generates (20 random bytes, or any multiple of
  five), the listener's own TOTP check and the one in \<open>tokens.py\<close> give the same answer for every
  code at every time.
\<close>
theorem listener_totp_agrees:
  assumes "length raw mod 5 = 0"
  shows "listener_verify_totp (generate_totp_secret raw) cd step digs window t
       = verify_totp (generate_totp_secret raw) cd step digs window t"
proof (rule listener_totp_same)
  have st: "strip (b32_body raw) = b32_body raw" by (rule strip_nospace) (auto dest: b32_body_plain)
  have up: "upper (b32_body raw) = b32_body raw" by (rule map_idI) (auto dest: b32_body_plain)
  have "b32_pads raw = 0" using assms by (simp add: b32_pads_def)
  then have "b32encode raw = b32_body raw" by (simp add: b32encode_body)
  then show "b32decode (upper (strip (generate_totp_secret raw))) = b32decode (pad_b32 (generate_totp_secret raw))"
    unfolding pad_b32_generate by (simp add: generate_totp_secret_body st up)
qed

theorem listener_totp_agrees_witness:
  "listener_verify_totp (generate_totp_secret ''12345678901234567890'') ''000000'' 30 6 1 1000
     = verify_totp (generate_totp_secret ''12345678901234567890'') ''000000'' 30 6 1 1000"
  by (rule listener_totp_agrees) simp

end
