(* ===== verification/SmsSender.thy ===== *)
theory SmsSender
  imports Prelude
begin

text \<open>
  \<open>daemon-rpm/src/sms_sender.py\<close>: the outgoing SMS. The outcome of each D-Bus call is an argument;
  \<open>send_sms\<close> is the decision over them, \<open>_StateWatcher\<close> a log of state reports with the loop that
  waits for a final one, and the GPS reply is built with the fixed-point formatting of the code.
\<close>

record send_result =
  success :: bool
  message_path :: "string option"
  send_error :: "string option"
  final_state :: "string option"

definition send_failed :: "string \<Rightarrow> send_result" where
  "send_failed e = \<lparr>success = False, message_path = None, send_error = Some e, final_state = None\<rparr>"

section \<open>The state watcher\<close>

text \<open>The reports of a message path, oldest first: the time since the start, and \<open>source:state\<close>.\<close>

type_synonym watch_log = "string \<Rightarrow> (time \<times> string) list"

definition FINAL :: "string list" where
  "FINAL = [''sent'', ''failed'']"

definition watch_add :: "time \<Rightarrow> string \<Rightarrow> string \<Rightarrow> watch_log \<Rightarrow> watch_log" where
  "watch_add elapsed path what w =
    (if w path \<noteq> [] \<and> snd (last (w path)) = what then w else w(path := w path @ [(elapsed, what)]))"

datatype watch_event =
    PropertyChanged string string string   \<comment> \<open>property name, value, message path\<close>
  | MessageRemoved string

text \<open>\<open>_on_prop\<close> and \<open>_on_removed\<close>.\<close>

fun on_signal :: "time \<Rightarrow> watch_event \<Rightarrow> watch_log \<Rightarrow> watch_log" where
  "on_signal elapsed (PropertyChanged name v path) w =
     (if name = ''State'' then watch_add elapsed path (''signal:'' @ v) w else w)"
| "on_signal elapsed (MessageRemoved path) w = watch_add elapsed path ''signal:removed'' w"

text \<open>\<open>_poll\<close>: the listed messages with their state, or the class of the exception.\<close>

definition watch_poll :: "time \<Rightarrow> string + (string \<times> string option) list \<Rightarrow> string \<Rightarrow> watch_log \<Rightarrow> watch_log" where
  "watch_poll elapsed reply path w =
    (case reply of
       Inl cls \<Rightarrow> watch_add elapsed path (''poll:error '' @ cls) w
     | Inr msgs \<Rightarrow>
        (case find (\<lambda>m. fst m = path) msgs of
           Some m \<Rightarrow> watch_add elapsed path (''poll:'' @ (case snd m of None \<Rightarrow> ''?'' | Some st \<Rightarrow> st)) w
         | None \<Rightarrow> watch_add elapsed path ''poll:gone'' w))"

text \<open>\<open>w.split(":", 1)[1]\<close> on what was added.\<close>

definition after_colon :: "string \<Rightarrow> string" where
  "after_colon s = drop 1 (dropWhile (\<lambda>c. c \<noteq> CHR '':'') s)"

definition watch_states :: "string \<Rightarrow> watch_log \<Rightarrow> string list" where
  "watch_states path w = map (\<lambda>e. after_colon (snd e)) (w path)"

definition settled :: "string list \<Rightarrow> bool" where
  "settled states \<longleftrightarrow> (\<exists>st\<in>set states. st \<in> set FINAL \<or> st \<in> {''removed'', ''gone''})"

definition verdict :: "string list \<Rightarrow> string" where
  "verdict states =
    (case find (\<lambda>st. st \<in> set FINAL) (rev states) of
       Some st \<Rightarrow> st
     | None \<Rightarrow> if ''removed'' \<in> set states \<or> ''gone'' \<in> set states then ''done (state unknown)'' else ''pending'')"

text \<open>
  One pass of the loop in \<open>wait\<close>: the clock at its head, the signals delivered, the clock and the
  answer when it polls, the clock after the poll, and the signals of the final half second.
\<close>

record watch_round =
  head_clock :: time
  signals :: "watch_event list"
  poll_clock :: time
  poll_reply :: "string + (string \<times> string option) list"
  after_clock :: time
  grace_signals :: "watch_event list"

fun watch_loop :: "string \<Rightarrow> time \<Rightarrow> time \<Rightarrow> time \<Rightarrow> watch_round list \<Rightarrow> watch_log \<Rightarrow> watch_log" where
  "watch_loop path t0 deadline next_poll [] w = w"
| "watch_loop path t0 deadline next_poll (r # rs) w =
    (if head_clock r \<ge> deadline then w
     else
      let w1 = fold (on_signal (head_clock r - t0)) (signals r) w;
          polls = next_poll \<le> poll_clock r;
          w2 = (if polls then watch_poll (poll_clock r - t0) (poll_reply r) path w1 else w1);
          next' = (if polls then after_clock r + 1 else next_poll)
      in if settled (watch_states path w2)
         then fold (on_signal (after_clock r - t0)) (grace_signals r) w2
         else watch_loop path t0 deadline next' rs w2)"

definition watch_wait :: "string \<Rightarrow> time \<Rightarrow> time \<Rightarrow> time \<Rightarrow> watch_round list \<Rightarrow> watch_log \<Rightarrow> string" where
  "watch_wait path t0 started timeout rounds w =
     verdict (watch_states path (watch_loop path t0 (started + timeout) 0 rounds w))"

section \<open>send_sms\<close>

text \<open>
  What the calls of one \<open>send_sms\<close> give: the queueing of the priv client, whether a watcher could be
  made, the bus, the modems, the path of the accepted message, and the watcher's verdict. \<open>Inl\<close>
  carries the text of the exception.
\<close>

record send_env =
  is_root :: bool
  queued :: bool
  watcher_made :: bool
  bus_result :: "string + unit"
  modems_result :: "string + string list"
  send_message :: "string + string"
  wait_result :: "string + string"

text \<open>\<open>Inl\<close> is the exception that leaves \<open>send_sms\<close>; the flag says that a watcher was left open.\<close>

definition send_sms :: "send_env \<Rightarrow> string option \<Rightarrow> bool \<Rightarrow> time \<Rightarrow> (string + send_result) \<times> bool" where
  "send_sms env modem bus_given wait_state =
    (if \<not> is_root env
     then (Inr \<lparr>success = queued env, message_path = None,
                send_error = (if queued env then None else Some ''could not queue SMS''), final_state = None\<rparr>, False)
     else
      let watching = wait_state \<noteq> 0 \<and> \<not> bus_given \<and> watcher_made env in
      case (if bus_given \<or> watching then Inr () else bus_result env) of
        Inl e \<Rightarrow> (Inl e, False)
      | Inr _ \<Rightarrow>
         (let need = modem = None \<or> modem = Some [] in
          if need \<and> modems_result env = Inr [] then (Inr (send_failed ''no modem found''), watching)
          else case (if need then map_sum id hd (modems_result env) else Inr []) of
            Inl e \<Rightarrow> (Inr (send_failed e), False)
          | Inr _ \<Rightarrow>
            (case send_message env of
               Inl e \<Rightarrow> (Inr (send_failed e), False)
             | Inr path \<Rightarrow>
                if \<not> watching
                then (Inr \<lparr>success = True, message_path = Some path, send_error = None, final_state = None\<rparr>, False)
                else
                 let st = (case wait_result env of Inl e \<Rightarrow> ''unknown (watch failed: '' @ e @ '')'' | Inr s \<Rightarrow> s)
                 in (Inr (if st = ''failed''
                          then \<lparr>success = False, message_path = Some path, send_error = Some ''ofono state failed'',
                                final_state = Some st\<rparr>
                          else \<lparr>success = True, message_path = Some path, send_error = None,
                                final_state = Some st\<rparr>), False))))"

section \<open>The GPS reply\<close>

text \<open>\<open>"{:.6f}".format(x)\<close> of the exact value of a float: rounded half to even.\<close>

definition round_half_even :: "rat \<Rightarrow> int" where
  "round_half_even x =
    (let f = \<lfloor>x\<rfloor>; d = x - of_int f
     in if d < 1 / 2 then f else if 1 / 2 < d then f + 1 else if even f then f else f + 1)"

definition fixed6 :: "rat \<Rightarrow> string" where
  "fixed6 x =
    (let n = nat (round_half_even (\<bar>x\<bar> * 10 ^ 6))
     in (if x < 0 then ''-'' else []) @ dec_nat (n div 10 ^ 6) @ ''.'' @ zfill 6 (dec_nat (n mod 10 ^ 6)))"

definition osm_link :: "rat \<Rightarrow> rat \<Rightarrow> string" where
  "osm_link lat lon = ''https://www.openstreetmap.org/?mlat='' @ fixed6 lat @ ''&mlon='' @ fixed6 lon
     @ ''#map=17/'' @ fixed6 lat @ ''/'' @ fixed6 lon"

definition format_gps_sms :: "rat \<Rightarrow> rat \<Rightarrow> string option \<Rightarrow> string option \<Rightarrow> string" where
  "format_gps_sms lat lon fix_datetime db_timestamp_local =
    (let filled = (\<lambda>v. v \<noteq> None \<and> v \<noteq> Some [])
     in join [char_of (10::nat)]
          [''GPS-Coordinates:'', fixed6 lat @ '' '' @ fixed6 lon, osm_link lat lon,
           if filled fix_datetime then the fix_datetime
           else (if filled db_timestamp_local then the db_timestamp_local else ''unknown'') @ '' last FIX from DB.''])"

text \<open>The results are a dict: a repeated recipient is sent to twice and keeps the last result.\<close>

definition send_gps_sms_to_all :: "(nat \<Rightarrow> send_result) \<Rightarrow> string list \<Rightarrow> (string \<rightharpoonup> send_result)" where
  "send_gps_sms_to_all result recipients =
     fold (\<lambda>(i, r) m. m(r \<mapsto> result i)) (enumerate 0 recipients) Map.empty"

section \<open>Lemmas\<close>

lemma after_colon_simps [simp]:
  "after_colon (''signal:'' @ v) = v" "after_colon (''poll:'' @ v) = v"
  by (simp_all add: after_colon_def)

definition no_repeats :: "watch_log \<Rightarrow> bool" where
  "no_repeats w \<longleftrightarrow> (\<forall>path. distinct_adj (map snd (w path)))"

lemma watch_add_no_repeats: "no_repeats w \<Longrightarrow> no_repeats (watch_add t path what w)"
  by (auto simp: no_repeats_def watch_add_def distinct_adj_append_iff last_map)

lemma on_signal_no_repeats: "no_repeats w \<Longrightarrow> no_repeats (on_signal t e w)"
  by (cases e) (auto intro: watch_add_no_repeats)

lemma fold_signal_no_repeats: "no_repeats w \<Longrightarrow> no_repeats (fold (on_signal t) es w)"
  by (induction es arbitrary: w) (auto intro: on_signal_no_repeats)

lemma watch_poll_no_repeats: "no_repeats w \<Longrightarrow> no_repeats (watch_poll t r path w)"
  by (auto simp: watch_poll_def intro: watch_add_no_repeats split: sum.splits option.splits)

lemma watch_loop_no_repeats: "no_repeats w \<Longrightarrow> no_repeats (watch_loop path t0 d n rs w)"
  by (induction rs arbitrary: n w)
     (auto simp: Let_def intro: fold_signal_no_repeats watch_poll_no_repeats)

lemma find_rev_Some: "find p (rev xs) = Some x \<Longrightarrow> x \<in> set xs \<and> p x"
  by (auto simp: find_Some_iff) (metis nth_mem length_rev set_rev)

lemma find_rev_last: "find p (rev xs) = (if filter p xs = [] then None else Some (last (filter p xs)))"
  by (induction xs rule: rev_induct) auto

lemma watch_add_prefix: "\<exists>new. watch_add t q what w path = w path @ new"
  by (simp add: watch_add_def)

lemma fold_signal_prefix: "\<exists>new. fold (on_signal t) es w path = w path @ new"
proof (induction es arbitrary: w)
  case (Cons e es)
  have "\<exists>new. on_signal t e w path = w path @ new"
    using watch_add_prefix by (cases e) auto
  with Cons [of "on_signal t e w"] show ?case by auto
qed simp

lemma watch_poll_prefix: "\<exists>new. watch_poll t r q w path = w path @ new"
  using watch_add_prefix by (auto simp: watch_poll_def split: sum.splits option.splits)

lemma watch_loop_prefix: "\<exists>new. watch_loop q t0 d n rs w path = w path @ new"
proof (induction rs arbitrary: n w)
  case (Cons r rs)
  obtain n1 where "fold (on_signal (head_clock r - t0)) (signals r) w path = w path @ n1"
    using fold_signal_prefix by blast
  moreover have "\<exists>n2. watch_poll (poll_clock r - t0) (poll_reply r) q v path = v path @ n2" for v
    by (rule watch_poll_prefix)
  ultimately show ?case
    using Cons fold_signal_prefix by (simp add: Let_def) (metis append.assoc)
qed simp

section \<open>Properties\<close>

text \<open>
  The watcher answers "sent" or "failed" only if ofono reported that state
  for the message, by signal or poll, and then it is the last final state reported; reports made
  before the wait are not lost, and the log never repeats a state.
\<close>
lemma sms_state_verdict:
  assumes "no_repeats w" "w' = watch_loop path t0 (started + timeout) 0 rounds w"
  shows "(watch_wait path t0 started timeout rounds w \<in> {''sent'', ''failed''} \<longleftrightarrow>
           (\<exists>st\<in>set (watch_states path w'). st \<in> {''sent'', ''failed''}))
    \<and> (watch_wait path t0 started timeout rounds w \<in> {''sent'', ''failed''} \<longrightarrow>
         watch_wait path t0 started timeout rounds w
           = last (filter (\<lambda>st. st \<in> {''sent'', ''failed''}) (watch_states path w')))
    \<and> set (watch_states path w) \<subseteq> set (watch_states path w')
    \<and> distinct_adj (map snd (w' path))"
proof -
  have "watch_wait path t0 started timeout rounds w = verdict (watch_states path w')"
    by (simp add: watch_wait_def assms(2))
  moreover have "verdict ss \<in> {''sent'', ''failed''} \<longleftrightarrow> (\<exists>st\<in>set ss. st \<in> {''sent'', ''failed''})" for ss
  proof (cases "find (\<lambda>st. st \<in> set FINAL) (rev ss)")
    case None
    have "verdict ss \<in> {''done (state unknown)'', ''pending''}" by (simp add: verdict_def None)
    then have "verdict ss \<notin> {''sent'', ''failed''}" by auto
    moreover have "\<not> (\<exists>st\<in>set ss. st \<in> {''sent'', ''failed''})" using None by (auto simp: find_None_iff FINAL_def)
    ultimately show ?thesis by blast
  next
    case (Some st)
    with find_rev_Some [OF Some] show ?thesis by (auto simp: verdict_def FINAL_def)
  qed
  moreover have "verdict ss \<in> {''sent'', ''failed''} \<longrightarrow> verdict ss = last (filter (\<lambda>st. st \<in> {''sent'', ''failed''}) ss)" for ss
    using find_rev_last [of "\<lambda>st. st \<in> {''sent'', ''failed''}" ss] by (auto simp: verdict_def FINAL_def split: if_splits)
  moreover have "set (watch_states path w) \<subseteq> set (watch_states path w')"
    using watch_loop_prefix [of path t0 "started + timeout" 0 rounds w path] by (auto simp: watch_states_def assms(2))
  moreover have "distinct_adj (map snd (w' path))"
    using watch_loop_no_repeats [OF assms(1)] by (simp add: assms(2) no_repeats_def)
  ultimately show ?thesis by simp
qed

text \<open>
  Running as root with a bus, \<open>send_sms\<close> reports success exactly when
  ofono accepted the message and did not report its final state as failed; every failure carries
  an error text. Otherwise success means that the message was queued.
\<close>
lemma sms_failure_reported:
  assumes "send_sms env modem bus_given wait_state = (Inr res, leaked)"
  shows "(success res \<longleftrightarrow> send_error res = None)
    \<and> (\<not> is_root env \<longrightarrow> success res = queued env)
    \<and> (is_root env \<longrightarrow> success res \<longrightarrow> (\<exists>path. send_message env = Inr path \<and> message_path res = Some path)
         \<and> final_state res \<noteq> Some ''failed'')
    \<and> (is_root env \<longrightarrow> final_state res = Some ''failed'' \<longrightarrow> \<not> success res \<and> wait_result env = Inr ''failed'')"
  using assms
  by (auto simp: send_sms_def send_failed_def Let_def split: if_splits sum.splits)

end
