(* ===== verification/MqttClient.thy ===== *)
theory MqttClient
  imports Prelude
begin

text \<open>
  \<open>qml/utilities/mqtt_client.py\<close>: the wrapper around one paho connection. paho is the environment:
  a paho client object is a number, and what paho answers to a call is an argument of the
  operation. The wrapper's fields are the record \<open>mqtt\<close>; its methods and callbacks are functions on
  it, atomic where the code holds \<open>_subs_lock\<close> or runs on one thread. A message arrives with its
  payload already decoded.
\<close>

definition KEEPALIVE_S :: int where "KEEPALIVE_S = 900"
definition PUBLISH_ACK_TIMEOUT_S :: int where "PUBLISH_ACK_TIMEOUT_S = 5"
definition PUBLISH_ACK_RETRY_TIMEOUT_S :: int where "PUBLISH_ACK_RETRY_TIMEOUT_S = 10"
definition CONNACK_TIMEOUT_S :: int where "CONNACK_TIMEOUT_S = 25"
definition HEALTHCHECK_INTERVAL_S :: int where "HEALTHCHECK_INTERVAL_S = 60"
definition HEALTHCHECK_TIMEOUT_S :: int where "HEALTHCHECK_TIMEOUT_S = 45"

section \<open>Topics\<close>

definition topic_location :: "string \<Rightarrow> string" where "topic_location d = ''fmd/'' @ d"
definition topic_cmd :: "string \<Rightarrow> string" where "topic_cmd d = ''fmd/'' @ d @ ''/cmd''"
definition topic_ack :: "string \<Rightarrow> string" where "topic_ack d = ''fmd/'' @ d @ ''/cmd/ack''"
definition topic_health :: "string \<Rightarrow> string" where "topic_health d = ''fmd/'' @ d @ ''/hc''"
definition client_id :: "string \<Rightarrow> string \<Rightarrow> string" where "client_id d role = d @ ''-'' @ role"

definition device_from_topic :: "string \<Rightarrow> string option" where
  "device_from_topic topic = (case split_on (CHR ''/'') topic of
       p # d # _ \<Rightarrow> if p = ''fmd'' then Some d else None
     | _ \<Rightarrow> None)"

text \<open>
  \<open>_enable_tcp_keepalive\<close>: the options set, in order. \<open>keepalive_ok\<close> is whether the first call
  succeeded, \<open>has\<close> which constants this Python knows.
\<close>

definition tcp_keepalive_options :: "bool \<Rightarrow> (string \<Rightarrow> bool) \<Rightarrow> (string \<times> int) list" where
  "tcp_keepalive_options keepalive_ok has =
    (''SO_KEEPALIVE'', 1) #
    (if \<not> keepalive_ok then []
     else filter (\<lambda>o'. has (fst o')) [(''TCP_KEEPIDLE'', 120), (''TCP_KEEPINTVL'', 30), (''TCP_KEEPCNT'', 3)]
          @ [(''TCP_USER_TIMEOUT'', 25000)])"

definition network_up :: "bool \<Rightarrow> rat \<Rightarrow> rat \<Rightarrow> bool" where
  "network_up connects answered_after timeout \<longleftrightarrow> connects \<and> answered_after \<le> timeout + 1 / 2"

section \<open>The wrapper's state\<close>

record mqtt =
  server :: string
  m_client :: "nat option"
  next_client :: nat
  m_connected :: bool
  m_closed :: bool
  subs :: "(string \<times> string) list"
  subs_confirmed :: "string set"
  subs_pending :: "nat \<rightharpoonup> string"
  conn_event :: bool
  hc_topic :: "string option"
  hc_interval :: int
  hc_timeout :: int
  hc_unanswered_since :: time
  hc_last_echo :: time
  hc_thread :: bool

definition new_mqtt :: "string \<Rightarrow> mqtt" where
  "new_mqtt srv = \<lparr>server = srv, m_client = None, next_client = 0, m_connected = False, m_closed = False,
     subs = [], subs_confirmed = {}, subs_pending = Map.empty, conn_event = False, hc_topic = None,
     hc_interval = 0, hc_timeout = HEALTHCHECK_TIMEOUT_S, hc_unanswered_since = 0, hc_last_echo = 0, hc_thread = False\<rparr>"

section \<open>Lifecycle\<close>

datatype connect_outcome = NoPaho | CreateFails | SetupFails | Dispatched

definition fresh_client :: "mqtt \<Rightarrow> mqtt" where
  "fresh_client m = m\<lparr>m_client := Some (next_client m), next_client := Suc (next_client m)\<rparr>"

definition mqtt_connect :: "connect_outcome \<Rightarrow> mqtt \<Rightarrow> bool \<times> mqtt" where
  "mqtt_connect oc m =
    (if m_closed m \<or> oc = NoPaho \<or> server m = [] then (False, m)
     else
      let m1 = m\<lparr>conn_event := False\<rparr>
      in case oc of
           Dispatched \<Rightarrow> (True, fresh_client m1)
         | SetupFails \<Rightarrow> (False, fresh_client m1)
         | _ \<Rightarrow> (False, m1))"

definition drop_subscriptions :: "mqtt \<Rightarrow> mqtt" where
  "drop_subscriptions m = m\<lparr>subs_confirmed := {}, subs_pending := Map.empty\<rparr>"

definition mqtt_disconnect :: "mqtt \<Rightarrow> mqtt" where
  "mqtt_disconnect m = drop_subscriptions (m\<lparr>m_client := None, m_connected := False, conn_event := False\<rparr>)"

definition stop_healthcheck :: "mqtt \<Rightarrow> mqtt" where
  "stop_healthcheck m = m\<lparr>hc_thread := False\<rparr>"

definition mqtt_close :: "mqtt \<Rightarrow> mqtt" where
  "mqtt_close m = mqtt_disconnect (stop_healthcheck (m\<lparr>m_closed := True\<rparr>))"

definition force_reconnect :: "connect_outcome \<Rightarrow> mqtt \<Rightarrow> bool \<times> mqtt" where
  "force_reconnect oc m = mqtt_connect oc (mqtt_disconnect m)"

text \<open>\<open>pc\<close> is what paho's own \<open>is_connected()\<close> says of the current client.\<close>

definition is_really_connected :: "bool \<Rightarrow> mqtt \<Rightarrow> bool" where
  "is_really_connected pc m \<longleftrightarrow> m_connected m \<and> m_client m \<noteq> None \<and> pc"

definition refresh_connected :: "bool \<Rightarrow> mqtt \<Rightarrow> mqtt" where
  "refresh_connected pc m = m\<lparr>m_connected := m_client m \<noteq> None \<and> pc\<rparr>"

section \<open>Subscriptions\<close>

text \<open>What \<open>subscribe(topic)\<close> gives: an exception, a return code that is not success, or a mid.\<close>

datatype sub_outcome = SubRaises | SubRejected | SubQueued nat

definition subscribe_now :: "(string \<Rightarrow> sub_outcome) \<Rightarrow> string \<Rightarrow> mqtt \<Rightarrow> mqtt" where
  "subscribe_now so topic m = (case so topic of
       SubQueued mid \<Rightarrow> m\<lparr>subs_pending := (subs_pending m)(mid \<mapsto> topic)\<rparr>
     | _ \<Rightarrow> m)"

text \<open>\<open>d[k] = v\<close> on a dict, which keeps the place of a known key.\<close>

fun dict_set :: "'k \<Rightarrow> 'v \<Rightarrow> ('k \<times> 'v) list \<Rightarrow> ('k \<times> 'v) list" where
  "dict_set k v [] = [(k, v)]"
| "dict_set k v ((k', v') # d) = (if k' = k then (k, v) # d else (k', v') # dict_set k v d)"

definition add_sub :: "(string \<Rightarrow> sub_outcome) \<Rightarrow> string \<Rightarrow> string \<Rightarrow> mqtt \<Rightarrow> mqtt" where
  "add_sub so topic kind m =
    (let m1 = m\<lparr>subs := dict_set topic kind (subs m)\<rparr>
     in if m_client m1 \<noteq> None \<and> m_connected m1 then subscribe_now so topic m1 else m1)"

definition subscribe_commands :: "(string \<Rightarrow> sub_outcome) \<Rightarrow> string \<Rightarrow> mqtt \<Rightarrow> mqtt" where
  "subscribe_commands so d = add_sub so (topic_cmd d) ''cmd''"

definition subscribe_location :: "(string \<Rightarrow> sub_outcome) \<Rightarrow> string \<Rightarrow> mqtt \<Rightarrow> mqtt" where
  "subscribe_location so d = add_sub so (topic_location d) ''loc''"

definition subscribe_ack :: "(string \<Rightarrow> sub_outcome) \<Rightarrow> string \<Rightarrow> mqtt \<Rightarrow> mqtt" where
  "subscribe_ack so d = add_sub so (topic_ack d) ''ack''"

definition subscriptions_ok :: "mqtt \<Rightarrow> bool" where
  "subscriptions_ok m \<longleftrightarrow> fst ` set (subs m) \<subseteq> subs_confirmed m"

section \<open>paho callbacks\<close>

text \<open>The flag says whether \<open>on_connected\<close> is called.\<close>

definition handle_connect :: "nat \<Rightarrow> int \<Rightarrow> (string \<Rightarrow> sub_outcome) \<Rightarrow> mqtt \<Rightarrow> bool \<times> mqtt" where
  "handle_connect client rc so m =
    (if m_client m \<noteq> Some client then (False, m)
     else if rc = 0 then
       let m1 = drop_subscriptions (m\<lparr>m_connected := True, conn_event := True\<rparr>);
           m2 = fold (\<lambda>(topic, kind). subscribe_now so topic) (subs m1) m1
       in (True, m2\<lparr>hc_unanswered_since := 0, hc_last_echo := 0\<rparr>)
     else (False, m\<lparr>m_connected := False\<rparr>))"

definition handle_disconnect :: "nat \<Rightarrow> mqtt \<Rightarrow> mqtt" where
  "handle_disconnect client m =
    (if m_client m \<noteq> Some client then m
     else drop_subscriptions (m\<lparr>m_connected := False, conn_event := False\<rparr>))"

definition handle_subscribe :: "nat \<Rightarrow> nat \<Rightarrow> int list \<Rightarrow> mqtt \<Rightarrow> mqtt" where
  "handle_subscribe client mid codes m =
    (if m_client m \<noteq> Some client then m
     else
      let m1 = m\<lparr>subs_pending := (subs_pending m)(mid := None)\<rparr>
      in case subs_pending m mid of
           None \<Rightarrow> m1
         | Some topic \<Rightarrow>
             if codes = [] \<or> (\<exists>c\<in>set codes. 128 \<le> c) then m1
             else m1\<lparr>subs_confirmed := insert topic (subs_confirmed m1)\<rparr>)"

text \<open>A decoded payload: not JSON, JSON that is no object, or an object.\<close>

type_synonym payload = "string \<rightharpoonup> pyval"

datatype decoded = BadJson | NotObject | Object payload

datatype route =
    Dropped
  | Echoed
  | ToAck "string option" payload
  | ToCommand "string option" payload
  | ToLocation "string option" payload

definition handle_message :: "nat \<Rightarrow> string \<Rightarrow> decoded \<Rightarrow> time \<Rightarrow> mqtt \<Rightarrow> route \<times> mqtt" where
  "handle_message client topic msg now m =
    (if m_client m \<noteq> Some client then (Dropped, m)
     else if ends_with topic ''/hc'' then
       (if hc_topic m = Some topic then (Echoed, m\<lparr>hc_last_echo := now, hc_unanswered_since := 0\<rparr>)
        else (Dropped, m))
     else case msg of
       Object p \<Rightarrow>
         ((if ends_with topic ''/cmd/ack'' then ToAck (device_from_topic topic) p
           else if ends_with topic ''/cmd'' then ToCommand (device_from_topic topic) p
           else ToLocation (device_from_topic topic) p), m)
     | _ \<Rightarrow> (Dropped, m))"

section \<open>Publishing\<close>

datatype send_outcome = SendRaises | Rejected | WaitRaises | NoPuback | Puback

record raw_send =
  s_client :: nat
  s_topic :: string
  s_body :: string
  s_retain :: bool
  s_timeout :: int

definition send_ok :: "bool \<Rightarrow> send_outcome \<Rightarrow> bool" where
  "send_ok wait oc \<longleftrightarrow> (if wait then oc = Puback else oc \<notin> {SendRaises, Rejected})"

definition send_once ::
    "send_outcome \<Rightarrow> bool \<Rightarrow> string \<Rightarrow> string \<Rightarrow> bool \<Rightarrow> bool \<Rightarrow> int \<Rightarrow> mqtt \<Rightarrow> bool \<times> mqtt \<times> raw_send list" where
  "send_once oc pc topic body retain wait timeout m =
    (case m_client m of
       None \<Rightarrow> (False, refresh_connected pc m, [])
     | Some c \<Rightarrow>
        let s = \<lparr>s_client = c, s_topic = topic, s_body = body, s_retain = retain, s_timeout = timeout\<rparr>
        in if send_ok wait oc then (True, m, [s]) else (False, refresh_connected pc m, [s]))"

text \<open>
  What paho does during one \<open>_publish\<close>: its connection state at the start, the first attempt, the
  reconnect and whether a CONNACK arrives in time, the second attempt.
\<close>

record publish_env =
  e_pc :: bool
  e_first :: send_outcome
  e_first_pc :: bool
  e_reconnect :: connect_outcome
  e_connack :: "(string \<Rightarrow> sub_outcome) option"
  e_second :: send_outcome
  e_second_pc :: bool

definition reconnect_and_wait :: "connect_outcome \<Rightarrow> (string \<Rightarrow> sub_outcome) option \<Rightarrow> mqtt \<Rightarrow> bool \<times> mqtt" where
  "reconnect_and_wait oc connack m =
    (case force_reconnect oc m of
       (False, m1) \<Rightarrow> (False, m1)
     | (True, m1) \<Rightarrow>
        (case connack of
           None \<Rightarrow> (False, m1)
         | Some so \<Rightarrow> (True, snd (handle_connect (the (m_client m1)) 0 so m1))))"

definition repair_and_send ::
    "publish_env \<Rightarrow> string \<Rightarrow> string \<Rightarrow> bool \<Rightarrow> bool \<Rightarrow> mqtt \<Rightarrow> bool \<times> mqtt \<times> raw_send list" where
  "repair_and_send env topic body retain wait m =
    (case reconnect_and_wait (e_reconnect env) (e_connack env) m of
       (False, m1) \<Rightarrow> (False, m1, [])
     | (True, m1) \<Rightarrow> send_once (e_second env) (e_second_pc env) topic body retain wait PUBLISH_ACK_RETRY_TIMEOUT_S m1)"

definition mqtt_publish ::
    "publish_env \<Rightarrow> string \<Rightarrow> string \<Rightarrow> bool \<Rightarrow> bool \<Rightarrow> mqtt \<Rightarrow> bool \<times> mqtt \<times> raw_send list" where
  "mqtt_publish env topic body retain wait m =
    (if \<not> is_really_connected (e_pc env) m then
       (if \<not> wait then (False, m, []) else repair_and_send env topic body retain wait m)
     else
      case send_once (e_first env) (e_first_pc env) topic body retain wait PUBLISH_ACK_TIMEOUT_S m of
        (True, m1, ss) \<Rightarrow> (True, m1, ss)
      | (False, m1, ss) \<Rightarrow>
          if \<not> wait then (False, m1, ss)
          else (case repair_and_send env topic body retain wait m1 of (ok, m2, ss') \<Rightarrow> (ok, m2, ss @ ss')))"

definition publish_location :: "publish_env \<Rightarrow> string \<Rightarrow> string \<Rightarrow> bool \<Rightarrow> mqtt \<Rightarrow> bool \<times> mqtt \<times> raw_send list" where
  "publish_location env d body wait = mqtt_publish env (topic_location d) body True wait"

definition publish_command :: "publish_env \<Rightarrow> string \<Rightarrow> string \<Rightarrow> bool \<Rightarrow> mqtt \<Rightarrow> bool \<times> mqtt \<times> raw_send list" where
  "publish_command env d body wait = mqtt_publish env (topic_cmd d) body False wait"

definition publish_ack :: "publish_env \<Rightarrow> string \<Rightarrow> string \<Rightarrow> bool \<Rightarrow> mqtt \<Rightarrow> bool \<times> mqtt \<times> raw_send list" where
  "publish_ack env d body wait = mqtt_publish env (topic_ack d) body False wait"

text \<open>
  \<open>publish_location_once\<close>: a client of its own, one hard retry of the connect, a verified publish,
  and \<open>close()\<close> on every path.
\<close>

definition connect_and_wait :: "connect_outcome \<Rightarrow> (string \<Rightarrow> sub_outcome) option \<Rightarrow> mqtt \<Rightarrow> bool \<times> mqtt" where
  "connect_and_wait oc connack m =
    (case mqtt_connect oc m of
       (False, m1) \<Rightarrow> (False, m1)
     | (True, m1) \<Rightarrow>
        (case connack of
           None \<Rightarrow> (False, m1)
         | Some so \<Rightarrow> (True, snd (handle_connect (the (m_client m1)) 0 so m1))))"

definition publish_location_once ::
    "connect_outcome \<Rightarrow> (string \<Rightarrow> sub_outcome) option \<Rightarrow> connect_outcome \<Rightarrow> (string \<Rightarrow> sub_outcome) option
     \<Rightarrow> publish_env \<Rightarrow> string \<Rightarrow> string \<Rightarrow> string \<Rightarrow> bool \<times> mqtt \<times> raw_send list" where
  "publish_location_once oc1 ca1 oc2 ca2 env srv d body =
    (let (c1, m1) = connect_and_wait oc1 ca1 (new_mqtt srv);
         (c2, m2) = (if c1 then (True, m1) else reconnect_and_wait oc2 ca2 m1);
         (ok, m3, ss) = (if c2 then publish_location env d body True m2 else (False, m2, []))
     in (ok, mqtt_close m3, ss))"

section \<open>Health check\<close>

definition start_healthcheck :: "(string \<Rightarrow> sub_outcome) \<Rightarrow> string \<Rightarrow> int \<Rightarrow> int \<Rightarrow> mqtt \<Rightarrow> mqtt" where
  "start_healthcheck so d interval timeout m =
    (if hc_thread m then m
     else
      let m1 = m\<lparr>hc_topic := Some (topic_health d), hc_interval := interval, hc_timeout := timeout,
                 hc_unanswered_since := 0, hc_last_echo := 0\<rparr>
      in (add_sub so (topic_health d) ''hc'' m1)\<lparr>hc_thread := True\<rparr>)"

text \<open>One turn of \<open>_healthcheck_loop\<close>; it ends for good once the client is closed.\<close>

definition healthcheck_beat :: "publish_env \<Rightarrow> time \<Rightarrow> mqtt \<Rightarrow> mqtt" where
  "healthcheck_beat env now m =
    (if \<not> hc_thread m \<or> m_closed m \<or> \<not> is_really_connected (e_pc env) m then m
     else
      let (sent, m1, _) = mqtt_publish env (case hc_topic m of None \<Rightarrow> [] | Some t \<Rightarrow> t)
                            (''{\"t\": '' @ dec_int \<lfloor>now\<rfloor> @ ''}'') False False m
      in if sent \<and> hc_unanswered_since m1 = 0 then m1\<lparr>hc_unanswered_since := now\<rparr> else m1)"

definition healthcheck_stale :: "time \<Rightarrow> mqtt \<Rightarrow> bool" where
  "healthcheck_stale now m \<longleftrightarrow>
     hc_interval m \<noteq> 0 \<and> 0 < hc_unanswered_since m \<and> of_int (hc_timeout m) < now - hc_unanswered_since m"

definition health_defect :: "bool \<Rightarrow> bool \<Rightarrow> time \<Rightarrow> mqtt \<Rightarrow> string option" where
  "health_defect thread_alive pc now m =
    (if m_client m = None then Some ''no client''
     else if \<not> thread_alive then Some ''network thread dead''
     else if \<not> is_really_connected pc m then Some ''disconnected''
     else if \<not> subscriptions_ok m then Some ''subscription unconfirmed''
     else if healthcheck_stale now m then Some ''healthcheck stale''
     else None)"

section \<open>Runs\<close>

datatype mqtt_event =
    Connect connect_outcome
  | Disconnect
  | Close
  | ForceReconnect connect_outcome
  | AddSub "string \<Rightarrow> sub_outcome" string string
  | Connack nat int "string \<Rightarrow> sub_outcome"
  | ConnectionLost nat
  | Suback nat nat "int list"
  | Message nat string decoded time
  | Publish publish_env string string bool bool
  | StartHealthcheck "string \<Rightarrow> sub_outcome" string int int
  | Beat publish_env time

fun mqtt_step :: "mqtt \<Rightarrow> mqtt_event \<Rightarrow> mqtt" where
  "mqtt_step m (Connect oc) = snd (mqtt_connect oc m)"
| "mqtt_step m Disconnect = mqtt_disconnect m"
| "mqtt_step m Close = mqtt_close m"
| "mqtt_step m (ForceReconnect oc) = snd (force_reconnect oc m)"
| "mqtt_step m (AddSub so topic kind) = add_sub so topic kind m"
| "mqtt_step m (Connack c rc so) = snd (handle_connect c rc so m)"
| "mqtt_step m (ConnectionLost c) = handle_disconnect c m"
| "mqtt_step m (Suback c mid codes) = handle_subscribe c mid codes m"
| "mqtt_step m (Message c topic msg now) = snd (handle_message c topic msg now m)"
| "mqtt_step m (Publish env topic body retain wait) = fst (snd (mqtt_publish env topic body retain wait m))"
| "mqtt_step m (StartHealthcheck so d i t) = start_healthcheck so d i t m"
| "mqtt_step m (Beat env now) = healthcheck_beat env now m"

section \<open>The invariant\<close>

definition topics :: "mqtt \<Rightarrow> string set" where
  "topics m = fst ` set (subs m)"

definition mqtt_inv :: "mqtt \<Rightarrow> bool" where
  "mqtt_inv m \<longleftrightarrow>
     (m_client m = None \<longrightarrow> \<not> m_connected m \<and> subs_confirmed m = {} \<and> subs_pending m = Map.empty)
   \<and> subs_confirmed m \<subseteq> topics m \<and> ran (subs_pending m) \<subseteq> topics m
   \<and> (m_closed m \<longrightarrow> m_client m = None) \<and> (\<forall>c. m_client m = Some c \<longrightarrow> c < next_client m)"

lemma topics_dict_set: "fst ` set (dict_set k v d) = insert k (fst ` set d)"
  by (induction k v d rule: dict_set.induct) auto

lemma topics_simps [simp]:
  "topics (m\<lparr>subs_pending := p\<rparr>) = topics m" "topics (m\<lparr>subs_confirmed := s\<rparr>) = topics m"
  "topics (m\<lparr>m_client := c\<rparr>) = topics m" "topics (m\<lparr>m_connected := b\<rparr>) = topics m"
  "topics (m\<lparr>conn_event := b\<rparr>) = topics m" "topics (m\<lparr>next_client := n\<rparr>) = topics m"
  "topics (m\<lparr>hc_unanswered_since := t\<rparr>) = topics m" "topics (m\<lparr>hc_last_echo := t\<rparr>) = topics m"
  "topics (m\<lparr>m_closed := b\<rparr>) = topics m" "topics (m\<lparr>hc_thread := b\<rparr>) = topics m"
  "topics (m\<lparr>hc_topic := q\<rparr>) = topics m" "topics (m\<lparr>hc_interval := i\<rparr>) = topics m" "topics (m\<lparr>hc_timeout := i\<rparr>) = topics m"
  by (simp_all add: topics_def)

lemma drop_subscriptions_inv:
  "(m_client m = None \<longrightarrow> \<not> m_connected m) \<Longrightarrow> (m_closed m \<longrightarrow> m_client m = None) \<Longrightarrow>
   (\<And>c. m_client m = Some c \<Longrightarrow> c < next_client m) \<Longrightarrow> mqtt_inv (drop_subscriptions m)"
  by (auto simp: mqtt_inv_def drop_subscriptions_def)

lemma disconnect_inv: "mqtt_inv (mqtt_disconnect m)"
  unfolding mqtt_disconnect_def by (rule drop_subscriptions_inv) simp_all

lemma connect_inv: "mqtt_inv m \<Longrightarrow> mqtt_inv (snd (mqtt_connect oc m))"
  by (auto simp: mqtt_connect_def mqtt_inv_def fresh_client_def Let_def split: connect_outcome.splits)

lemma force_reconnect_inv: "mqtt_inv (snd (force_reconnect oc m))"
  unfolding force_reconnect_def by (rule connect_inv [OF disconnect_inv])

lemma refresh_inv: "mqtt_inv m \<Longrightarrow> mqtt_inv (refresh_connected pc m)"
  by (auto simp: mqtt_inv_def refresh_connected_def)

lemma subscribe_now_inv:
  "mqtt_inv m \<Longrightarrow> topic \<in> topics m \<Longrightarrow> m_client m \<noteq> None \<Longrightarrow> mqtt_inv (subscribe_now so topic m)"
  by (auto simp: mqtt_inv_def subscribe_now_def ran_def split: sub_outcome.splits)

lemma subscribe_now_frame [simp]:
  "topics (subscribe_now so topic m) = topics m" "m_client (subscribe_now so topic m) = m_client m"
  "subs_confirmed (subscribe_now so topic m) = subs_confirmed m"
  by (simp_all add: subscribe_now_def split: sub_outcome.splits)

lemma subscribe_fold_inv:
  "mqtt_inv m \<Longrightarrow> fst ` set ts \<subseteq> topics m \<Longrightarrow> m_client m \<noteq> None \<Longrightarrow>
   mqtt_inv (fold (\<lambda>(topic, kind). subscribe_now so topic) ts m)"
  by (induction ts arbitrary: m) (auto simp: subscribe_now_inv split: prod.splits)

lemma subscribe_fold_confirmed [simp]:
  "subs_confirmed (fold (\<lambda>(topic, kind). subscribe_now so topic) ts m) = subs_confirmed m"
  by (induction ts arbitrary: m) (auto split: prod.splits)

lemma add_sub_inv: "mqtt_inv m \<Longrightarrow> mqtt_inv (add_sub so topic kind m)"
proof -
  assume inv: "mqtt_inv m"
  let ?m = "m\<lparr>subs := dict_set topic kind (subs m)\<rparr>"
  have t: "topics ?m = insert topic (topics m)" by (simp add: topics_def topics_dict_set)
  with inv have "mqtt_inv ?m" by (auto simp: mqtt_inv_def)
  with t show ?thesis by (auto simp: add_sub_def Let_def intro!: subscribe_now_inv)
qed

lemma handle_connect_inv:
  assumes inv: "mqtt_inv m"
  shows "mqtt_inv (snd (handle_connect c rc so m))"
proof (cases "m_client m = Some c \<and> rc = 0")
  case True
  let ?m = "drop_subscriptions (m\<lparr>m_connected := True, conn_event := True\<rparr>)"
  have "mqtt_inv ?m" using inv True by (intro drop_subscriptions_inv) (auto simp: mqtt_inv_def)
  then have "mqtt_inv (fold (\<lambda>(topic, kind). subscribe_now so topic) (subs ?m) ?m)"
    using True by (intro subscribe_fold_inv) (auto simp: topics_def drop_subscriptions_def)
  then show ?thesis using True by (simp add: handle_connect_def Let_def) (simp add: mqtt_inv_def)
next
  case False
  with inv show ?thesis by (auto simp: handle_connect_def mqtt_inv_def)
qed

lemma handle_disconnect_inv: "mqtt_inv m \<Longrightarrow> mqtt_inv (handle_disconnect c m)"
  by (auto simp: handle_disconnect_def intro!: drop_subscriptions_inv) (auto simp: mqtt_inv_def)

lemma handle_subscribe_inv: "mqtt_inv m \<Longrightarrow> mqtt_inv (handle_subscribe c mid codes m)"
  by (auto simp: handle_subscribe_def mqtt_inv_def Let_def ran_def split: option.splits)

lemma handle_message_inv: "mqtt_inv m \<Longrightarrow> mqtt_inv (snd (handle_message c topic msg now m))"
  by (auto simp: handle_message_def mqtt_inv_def split: decoded.splits)

lemma send_once_inv: "mqtt_inv m \<Longrightarrow> mqtt_inv (fst (snd (send_once oc pc topic body retain wait t m)))"
  by (auto simp: send_once_def Let_def refresh_inv split: option.splits)

lemma reconnect_and_wait_inv: "mqtt_inv (snd (reconnect_and_wait oc ca m))"
  using force_reconnect_inv [of oc m]
  by (auto simp: reconnect_and_wait_def handle_connect_inv split: prod.splits bool.splits option.splits)

lemma repair_and_send_inv: "mqtt_inv (fst (snd (repair_and_send env topic body retain wait m)))"
  using reconnect_and_wait_inv [of "e_reconnect env" "e_connack env" m]
  by (auto simp: repair_and_send_def send_once_inv split: prod.splits bool.splits)

lemma publish_inv:
  assumes "mqtt_inv m"
  shows "mqtt_inv (fst (snd (mqtt_publish env topic body retain wait m)))"
proof -
  obtain ok m1 ss where s: "send_once (e_first env) (e_first_pc env) topic body retain wait PUBLISH_ACK_TIMEOUT_S m = (ok, m1, ss)"
    by (cases "send_once (e_first env) (e_first_pc env) topic body retain wait PUBLISH_ACK_TIMEOUT_S m") auto
  with send_once_inv [OF assms] have "mqtt_inv m1" by (metis fst_conv snd_conv)
  with s assms show ?thesis
    using repair_and_send_inv by (auto simp: mqtt_publish_def split_beta split: bool.splits)
qed

lemma beat_inv: "mqtt_inv m \<Longrightarrow> mqtt_inv (healthcheck_beat env now m)"
  using publish_inv [of m env]
  by (auto simp: healthcheck_beat_def Let_def split_beta) (simp add: mqtt_inv_def)

lemma start_healthcheck_inv: "mqtt_inv m \<Longrightarrow> mqtt_inv (start_healthcheck so d i t m)"
proof -
  assume "mqtt_inv m"
  then have "mqtt_inv (m\<lparr>hc_topic := Some (topic_health d), hc_interval := i, hc_timeout := t,
                 hc_unanswered_since := 0, hc_last_echo := 0\<rparr>)" by (simp add: mqtt_inv_def)
  from add_sub_inv [OF this] have "mqtt_inv ((add_sub so (topic_health d) ''hc'' (m\<lparr>hc_topic := Some (topic_health d),
     hc_interval := i, hc_timeout := t, hc_unanswered_since := 0, hc_last_echo := 0\<rparr>))\<lparr>hc_thread := True\<rparr>)"
    by (simp add: mqtt_inv_def)
  with \<open>mqtt_inv m\<close> show ?thesis by (simp add: start_healthcheck_def Let_def)
qed

lemmas mqtt_op_invs = connect_inv disconnect_inv force_reconnect_inv add_sub_inv handle_connect_inv
  handle_disconnect_inv handle_subscribe_inv handle_message_inv publish_inv start_healthcheck_inv beat_inv

interpretation mqtt_system: event_system "\<lambda>m. \<exists>srv. m = new_mqtt srv" mqtt_step mqtt_inv
proof unfold_locales
  show "\<exists>srv. m = new_mqtt srv \<Longrightarrow> mqtt_inv m" for m
    by (auto simp: new_mqtt_def mqtt_inv_def)
  show "mqtt_inv m \<Longrightarrow> mqtt_inv (mqtt_step m e)" for m e
    by (cases e) (simp_all add: mqtt_op_invs mqtt_close_def)
qed

section \<open>A closed client stays closed\<close>

definition retired :: "mqtt \<Rightarrow> bool" where
  "retired m \<longleftrightarrow> m_closed m \<and> m_client m = None \<and> \<not> m_connected m"

lemma retired_reconnect: "retired m \<Longrightarrow> \<exists>m'. force_reconnect oc m = (False, m') \<and> retired m'"
  by (simp add: force_reconnect_def mqtt_connect_def mqtt_disconnect_def drop_subscriptions_def retired_def)

lemma retired_publish: "retired m \<Longrightarrow> \<exists>m'. mqtt_publish env topic body retain wait m = (False, m', []) \<and> retired m'"
  using retired_reconnect [of m "e_reconnect env"]
  by (auto simp: mqtt_publish_def is_really_connected_def repair_and_send_def reconnect_and_wait_def) (auto simp: retired_def)

lemma retired_step: "retired m \<Longrightarrow> retired (mqtt_step m e)"
proof (cases e)
  case (Publish env topic body retain wait)
  then show "retired m \<Longrightarrow> ?thesis" using retired_publish [of m env topic body retain wait] by auto
next
  case (ForceReconnect oc)
  then show "retired m \<Longrightarrow> ?thesis" using retired_reconnect [of m oc] by auto
next
  case (AddSub so topic kind)
  then show "retired m \<Longrightarrow> ?thesis" by (simp add: add_sub_def Let_def retired_def)
next
  case (StartHealthcheck so d i t)
  then show "retired m \<Longrightarrow> ?thesis" by (simp add: start_healthcheck_def add_sub_def Let_def retired_def)
qed (auto simp: retired_def mqtt_connect_def mqtt_disconnect_def mqtt_close_def stop_healthcheck_def drop_subscriptions_def
      handle_connect_def handle_disconnect_def handle_subscribe_def handle_message_def healthcheck_beat_def)

lemma retired_close: "retired (mqtt_close m)"
  by (simp add: retired_def mqtt_close_def mqtt_disconnect_def stop_healthcheck_def drop_subscriptions_def)

lemma retired_run: "retired m \<Longrightarrow> retired (run_events mqtt_step m es)"
  by (induction es arbitrary: m) (auto intro: retired_step)

section \<open>Verified publishing\<close>

lemma send_once_sends:
  "send_once oc pc topic body retain wait t m = (ok, m', ss) \<Longrightarrow>
   (ok \<longleftrightarrow> ss \<noteq> [] \<and> send_ok wait oc) \<and> length ss \<le> 1
   \<and> (\<forall>s\<in>set ss. s_topic s = topic \<and> s_body s = body \<and> s_retain s = retain)
   \<and> m_client m' = m_client m \<and> next_client m' = next_client m"
  by (auto simp: send_once_def Let_def refresh_connected_def split: option.splits if_splits)

lemma repair_sends:
  assumes "repair_and_send env topic body retain wait m = (ok, m', ss)"
  shows "(ok \<longleftrightarrow> ss \<noteq> [] \<and> send_ok wait (e_second env)) \<and> length ss \<le> 1
   \<and> (\<forall>s\<in>set ss. s_topic s = topic \<and> s_body s = body \<and> s_retain s = retain)"
proof (cases "reconnect_and_wait (e_reconnect env) (e_connack env) m")
  case (Pair b m1)
  with assms show ?thesis
    by (cases b) (auto simp: repair_and_send_def dest!: send_once_sends)
qed

section \<open>Properties\<close>

text \<open>
  After any run of calls and callbacks, confirmed and pending
  subscriptions are among the requested ones, a wrapper without a paho client is neither connected
  nor has confirmations left over, and a closed wrapper has no client.
\<close>
lemma mqtt_subscriptions_tracked:
  "mqtt_inv (run_events mqtt_step (new_mqtt srv) es)"
  by (rule mqtt_system.reachable_inv) blast

text \<open>
  A topic becomes confirmed only in the step that handles a SUBACK
  of the current paho client whose mid was recorded for that topic and that grants it (no code of
  128 or more); no reconnect, publish or message ever confirms a subscription.
\<close>
lemma confirmation_needs_suback:
  assumes "topic \<in> subs_confirmed (mqtt_step m e)" "topic \<notin> subs_confirmed m"
  shows "\<exists>c mid codes. e = Suback c mid codes \<and> m_client m = Some c \<and> subs_pending m mid = Some topic
       \<and> codes \<noteq> [] \<and> (\<forall>code\<in>set codes. code < 128)"
proof -
  have conn: "subs_confirmed (snd (mqtt_connect oc m')) = subs_confirmed m'" for oc m'
    by (simp add: mqtt_connect_def fresh_client_def Let_def split: connect_outcome.splits)
  have disc: "subs_confirmed (mqtt_disconnect m') = {}" for m'
    by (simp add: mqtt_disconnect_def drop_subscriptions_def)
  have addsub: "subs_confirmed (add_sub so t k m') = subs_confirmed m'" for so t k m'
    by (simp add: add_sub_def Let_def)
  have hconn: "subs_confirmed (snd (handle_connect c rc so m')) \<subseteq> subs_confirmed m'" for c rc so m'
    by (auto simp: handle_connect_def Let_def drop_subscriptions_def)
  have so: "subs_confirmed (fst (snd (send_once oc pc t b r w tm m'))) = subs_confirmed m'" for oc pc t b r w tm m'
    by (simp add: send_once_def refresh_connected_def Let_def split: option.splits)
  have rw: "subs_confirmed (snd (reconnect_and_wait oc ca m')) = {}" for oc ca m'
    using conn [of oc "mqtt_disconnect m'"] disc [of m'] hconn
    by (auto simp: reconnect_and_wait_def force_reconnect_def split: prod.splits bool.splits option.splits)
       (metis empty_iff subsetD snd_conv)+
  have rp: "subs_confirmed (fst (snd (repair_and_send env t b r w m'))) = {}" for env t b r w m'
    using rw [of "e_reconnect env" "e_connack env" m'] so
    by (auto simp: repair_and_send_def split: prod.splits bool.splits)
  have pub: "subs_confirmed (fst (snd (mqtt_publish env t b r w m'))) \<subseteq> subs_confirmed m'" for env t b r w m'
  proof (cases "send_once (e_first env) (e_first_pc env) t b r w PUBLISH_ACK_TIMEOUT_S m'")
    case (fields ok1 m1 s1)
    then have "subs_confirmed m1 = subs_confirmed m'"
      using so [of "e_first env" "e_first_pc env" t b r w PUBLISH_ACK_TIMEOUT_S m'] by simp
    then show ?thesis
      using fields rp by (cases ok1) (simp_all add: mqtt_publish_def split_beta)
  qed
  have beat: "subs_confirmed (healthcheck_beat env now m') \<subseteq> subs_confirmed m'" for env now m'
    using pub by (auto simp: healthcheck_beat_def Let_def split_beta)
  show ?thesis
  proof (cases e)
    case (Suback c mid codes)
    with assms show ?thesis
      by (auto simp: handle_subscribe_def Let_def not_le split: if_splits option.splits)
  next
    case (Connack c rc so)
    with assms hconn [of c rc so m] show ?thesis by auto
  next
    case (Publish env t b r w)
    with assms pub [of env t b r w m] show ?thesis by auto
  next
    case (Beat env now)
    with assms beat [of env now m] show ?thesis by auto
  qed (use assms conn disc addsub in
      \<open>auto simp: force_reconnect_def mqtt_close_def handle_disconnect_def drop_subscriptions_def
        handle_message_def start_healthcheck_def Let_def split: if_splits decoded.splits\<close>)
qed

definition subscribed_mqtt :: mqtt where
  "subscribed_mqtt = run_events mqtt_step (new_mqtt ''broker'')
     [AddSub (\<lambda>_. SubQueued 7) ''fmd/aB3dE6gH9k/cmd'' ''cmd'', Connect Dispatched, Connack 0 0 (\<lambda>_. SubQueued 7)]"

lemma subscribed_mqtt_eval:
  "m_client subscribed_mqtt = Some 0" "subs_pending subscribed_mqtt 7 = Some ''fmd/aB3dE6gH9k/cmd''"
  "subs_confirmed subscribed_mqtt = {}" "m_connected subscribed_mqtt" "subs subscribed_mqtt = [(''fmd/aB3dE6gH9k/cmd'', ''cmd'')]"
  by (simp_all add: subscribed_mqtt_def new_mqtt_def add_sub_def Let_def mqtt_connect_def fresh_client_def
      handle_connect_def drop_subscriptions_def subscribe_now_def)

text \<open>
  C37. \<open>closed_client_never_revived\<close>: after \<open>close()\<close>, whatever is called or arrives late, the wrapper
  has no paho client again, is not connected, and every publish returns False without sending.
\<close>
theorem closed_client_never_revived:
  "let m' = run_events mqtt_step (mqtt_close m) es
   in m_client m' = None \<and> \<not> m_connected m'
      \<and> fst (mqtt_publish env topic body retain wait m') = False
      \<and> snd (snd (mqtt_publish env topic body retain wait m')) = []"
  using retired_run [OF retired_close, of m es] retired_publish [of "run_events mqtt_step (mqtt_close m) es" env topic body retain wait]
  by (auto simp: Let_def retired_def)

text \<open>
  Once a reconnect has replaced the paho client, no callback of the old
  one changes the wrapper.
\<close>
lemma stale_callbacks_ignored:
  assumes "mqtt_inv m" "m_client m = Some old" "m' = snd (force_reconnect oc m)"
    and "e \<in> {Connack old rc so, ConnectionLost old, Suback old mid codes, Message old topic msg now}"
  shows "mqtt_step m' e = m'"
proof -
  have "old < next_client m" using assms(1,2) by (auto simp: mqtt_inv_def)
  then have "m_client m' \<noteq> Some old"
    by (auto simp: assms(3) force_reconnect_def mqtt_connect_def mqtt_disconnect_def drop_subscriptions_def
        fresh_client_def Let_def split: connect_outcome.splits if_splits)
  with assms(4) show ?thesis
    by (auto simp: handle_connect_def handle_disconnect_def handle_subscribe_def handle_message_def)
qed

lemma subscribed_mqtt_inv: "mqtt_inv subscribed_mqtt"
  unfolding subscribed_mqtt_def by (rule mqtt_system.reachable_inv) blast


lemma publish_sends:
  assumes "mqtt_publish env topic body retain wait m = (ok, m', ss)"
  shows "length ss \<le> 2 \<and> (\<forall>s\<in>set ss. s_topic s = topic \<and> s_body s = body \<and> s_retain s = retain)
    \<and> (wait \<longrightarrow> (ok \<longleftrightarrow> ss \<noteq> [] \<and> (if length ss = 2 \<or> \<not> is_really_connected (e_pc env) m
                             then e_second env = Puback else e_first env = Puback)))
    \<and> (wait \<longrightarrow> is_really_connected (e_pc env) m \<longrightarrow> e_first env = Puback \<longrightarrow> ok \<and> length ss = 1)
    \<and> (\<not> wait \<longrightarrow> length ss \<le> 1 \<and> m_client m' = m_client m \<and> next_client m' = next_client m)"
proof (cases "is_really_connected (e_pc env) m")
  case False
  with assms show ?thesis
    by (cases wait) (auto simp: mqtt_publish_def send_ok_def dest!: repair_sends)
next
  case True
  obtain ok1 m1 s1 where s: "send_once (e_first env) (e_first_pc env) topic body retain wait PUBLISH_ACK_TIMEOUT_S m = (ok1, m1, s1)"
    by (cases "send_once (e_first env) (e_first_pc env) topic body retain wait PUBLISH_ACK_TIMEOUT_S m") auto
  note f = send_once_sends [OF s]
  from True have one: "length s1 = 1" "wait \<Longrightarrow> ok1 = (e_first env = Puback)"
    using s by (auto simp: send_once_def is_really_connected_def send_ok_def Let_def split: option.splits if_splits)
  show ?thesis
  proof (cases "ok1 \<or> \<not> wait")
    case True
    then have "ok = ok1 \<and> m' = m1 \<and> ss = s1"
      using assms s \<open>is_really_connected (e_pc env) m\<close> by (cases ok1) (simp_all add: mqtt_publish_def)
    with f one \<open>is_really_connected (e_pc env) m\<close> show ?thesis by (auto simp: send_ok_def)
  next
    case no: False
    obtain s2 where "repair_and_send env topic body retain wait m1 = (ok, m', s2)" "ss = s1 @ s2"
      using assms s no \<open>is_really_connected (e_pc env) m\<close>
      by (cases "repair_and_send env topic body retain wait m1") (auto simp: mqtt_publish_def)
    with f one no repair_sends [OF this(1)] \<open>is_really_connected (e_pc env) m\<close> show ?thesis
      by (auto simp: send_ok_def le_Suc_eq)
  qed
qed


definition lost_puback :: publish_env where
  "lost_puback = \<lparr>e_pc = True, e_first = NoPuback, e_first_pc = True, e_reconnect = Dispatched,
     e_connack = Some (\<lambda>_. SubQueued 2), e_second = Puback, e_second_pc = True\<rparr>"


lemma beat_keeps_clock:
  "hc_unanswered_since m \<noteq> 0 \<Longrightarrow> hc_unanswered_since (healthcheck_beat env now m) = hc_unanswered_since m
     \<and> hc_timeout (healthcheck_beat env now m) = hc_timeout m \<and> hc_interval (healthcheck_beat env now m) = hc_interval m"
  by (auto simp: healthcheck_beat_def mqtt_publish_def send_once_def refresh_connected_def Let_def
      split: prod.splits option.splits bool.splits if_splits)

lemma beats_keep_clock:
  "hc_unanswered_since m \<noteq> 0 \<Longrightarrow>
   hc_unanswered_since (run_events mqtt_step m (map (\<lambda>(env, t). Beat env t) bs)) = hc_unanswered_since m
   \<and> hc_timeout (run_events mqtt_step m (map (\<lambda>(env, t). Beat env t) bs)) = hc_timeout m
   \<and> hc_interval (run_events mqtt_step m (map (\<lambda>(env, t). Beat env t) bs)) = hc_interval m"
  by (induction bs arbitrary: m) (auto simp: beat_keeps_clock)

text \<open>
  Once a beat was sent at \<open>t0\<close>, further unanswered beats do not restart the
  clock: at any time later than \<open>t0\<close> plus the timeout the client reports a defect, and the echo of
  the own topic clears it.
\<close>
lemma lost_echo_detected:
  assumes "hc_unanswered_since m = t0" "0 < t0" "hc_interval m \<noteq> 0" "t0 + of_int (hc_timeout m) < now"
    and "m' = run_events mqtt_step m (map (\<lambda>(env, t). Beat env t) bs)"
  shows "healthcheck_stale now m' \<and> health_defect alive pc now m' \<noteq> None
    \<and> (m_client m' = Some c \<longrightarrow> hc_topic m' = Some (topic_health d) \<longrightarrow>
         \<not> healthcheck_stale later (mqtt_step m' (Message c (topic_health d) msg now)))"
proof -
  have k: "hc_unanswered_since m' = t0 \<and> hc_timeout m' = hc_timeout m \<and> hc_interval m' = hc_interval m"
    unfolding assms(5) using beats_keep_clock [of m bs] assms(1,2) by simp
  then have "healthcheck_stale now m'" using assms by (simp add: healthcheck_stale_def)
  moreover have "ends_with (topic_health d) ''/hc''"
    unfolding ends_with_iff topic_health_def by (rule exI [of _ "''fmd/'' @ d"]) simp
  ultimately show ?thesis
    by (simp add: health_defect_def handle_message_def) (simp add: healthcheck_stale_def)
qed

lemma ends_with_sep:
  assumes "c \<notin> set d" "length p < length d" "c \<in> set p"
  shows "\<not> ends_with (s @ d) p"
proof
  assume "ends_with (s @ d) p"
  then obtain t where t: "s @ d = t @ p" by (auto simp: ends_with_iff)
  then have "set p \<subseteq> set d" using assms(2) by (auto simp: append_eq_append_conv2)
  with assms show False by blast
qed

lemma split_topic:
  "CHR ''/'' \<notin> set d \<Longrightarrow> split_on (CHR ''/'') (''fmd/'' @ d) = [''fmd'', d]
   \<and> split_on (CHR ''/'') (''fmd/'' @ d @ ''/'' @ r) = ''fmd'' # d # split_on (CHR ''/'') r"
  using split_on_append [of "CHR ''/''" "''fmd''" d] split_on_append [of "CHR ''/''" "''fmd''" "d @ ''/'' @ r"]
    split_on_append [of "CHR ''/''" d r] by (auto simp: split_on_no_sep)

text \<open>
  For a device id without a slash and longer than four characters, a
  message on each of its topics reaches exactly the handler of that topic with that device id, and
  a health beat of any device reaches no handler.
\<close>
lemma messages_routed_by_topic:
  assumes "m_client m = Some c" "CHR ''/'' \<notin> set d" "4 < length d"
  shows "fst (handle_message c (topic_location d) (Object p) now m) = ToLocation (Some d) p
    \<and> fst (handle_message c (topic_cmd d) (Object p) now m) = ToCommand (Some d) p
    \<and> fst (handle_message c (topic_ack d) (Object p) now m) = ToAck (Some d) p
    \<and> fst (handle_message c (topic_health d) (Object p) now m) \<in> {Echoed, Dropped}"
proof -
  have cmd: "\<not> ends_with (topic_cmd d) ''/hc''" "ends_with (topic_cmd d) ''/cmd''"
    by (auto simp: topic_cmd_def ends_with_def)
  have cmd': "\<not> ends_with (topic_cmd d) ''/cmd/ack''"
    using arg_cong [where f = last, of "topic_cmd d"] by (auto simp: ends_with_iff topic_cmd_def)
  have ack: "\<not> ends_with (topic_ack d) ''/hc''" "ends_with (topic_ack d) ''/cmd/ack''"
    by (auto simp: topic_ack_def ends_with_def)
  have hc: "ends_with (topic_health d) ''/hc''"
    by (auto simp: topic_health_def ends_with_def)
  have loc: "\<not> ends_with (topic_location d) ''/hc''" "\<not> ends_with (topic_location d) ''/cmd''"
    using ends_with_sep [of "CHR ''/''" d "''/hc''" "''fmd/''"] ends_with_sep [of "CHR ''/''" d "''/cmd''" "''fmd/''"] assms
    by (simp_all add: topic_location_def)
  have loc': "\<not> ends_with (topic_location d) ''/cmd/ack''"
  proof
    assume "ends_with (topic_location d) ''/cmd/ack''"
    then obtain t where "topic_location d = (t @ ''/cmd'') @ ''/ack''" by (auto simp: ends_with_iff)
    then have "ends_with (topic_location d) ''/ack''" unfolding ends_with_iff by blast
    with ends_with_sep [of "CHR ''/''" d "''/ack''" "''fmd/''"] assms show False by (simp add: topic_location_def)
  qed
  have dev: "device_from_topic (topic_location d) = Some d" "device_from_topic (topic_cmd d) = Some d"
    "device_from_topic (topic_ack d) = Some d"
    using split_topic [OF assms(2), of "''cmd''"] split_topic [OF assms(2), of "''cmd/ack''"]
    by (simp_all add: device_from_topic_def topic_location_def topic_cmd_def topic_ack_def)
  show ?thesis using assms(1) cmd cmd' ack hc loc loc' dev by (simp add: handle_message_def)
qed

text \<open>
  The one-shot publisher leaves its client closed whatever happened,
  sends only the given payload on the device's retained location topic, at most twice, and returns
  True only after a PUBACK.
\<close>
lemma one_shot_publish_retired:
  assumes "publish_location_once oc1 ca1 oc2 ca2 env srv d body = (ok, m, ss)"
  shows "m_closed m \<and> m_client m = None \<and> \<not> m_connected m \<and> length ss \<le> 2
    \<and> (\<forall>s\<in>set ss. s_topic s = topic_location d \<and> s_body s = body \<and> s_retain s)
    \<and> (ok \<longrightarrow> ss \<noteq> [] \<and> (e_first env = Puback \<or> e_second env = Puback))"
proof -
  obtain c1 m1 where c1: "connect_and_wait oc1 ca1 (new_mqtt srv) = (c1, m1)" by fastforce
  obtain c2 m2 where c2: "(if c1 then (True, m1) else reconnect_and_wait oc2 ca2 m1) = (c2, m2)" by fastforce
  obtain ok3 m3 s3 where c3: "(if c2 then publish_location env d body True m2 else (False, m2, [])) = (ok3, m3, s3)"
    using prod_cases3 by blast
  have r: "ok = ok3" "ss = s3" "m = mqtt_close m3"
    using assms c1 c2 c3 by (simp_all add: publish_location_once_def Let_def)
  have "length ss \<le> 2 \<and> (\<forall>s\<in>set ss. s_topic s = topic_location d \<and> s_body s = body \<and> s_retain s)
    \<and> (ok \<longrightarrow> ss \<noteq> [] \<and> (e_first env = Puback \<or> e_second env = Puback))"
  proof (cases c2)
    case True
    with c3 have "mqtt_publish env (topic_location d) body True True m2 = (ok3, m3, s3)"
      by (simp add: publish_location_def)
    from publish_sends [OF this] r show ?thesis by (auto split: if_splits)
  next
    case False
    with c3 r show ?thesis by simp
  qed
  then show ?thesis using retired_close [of m3] r by (simp add: retired_def)
qed

end
