(* ===== verification/Mobiledata.thy ===== *)
theory Mobiledata
  imports Prelude
begin

text \<open>
  \<open>daemon-rpm/src/mobiledata_control.py\<close>: mobile data switched on for the time of one network action.
  The world holds what outlives a process: ConnMan's AutoConnect flag of each service, and the
  ownership record on disk. The answers of ConnMan, ofono and the file system are arguments; a
  D-Bus write that raises may or may not have taken effect.
\<close>

record world =
  autoconnect :: "string \<Rightarrow> bool"
  owned_file :: "string option"

record session =
  enabled_by_us :: bool
  service :: "string option"
  md_note :: "string option"
  online :: "bool option"

definition new_session :: session where
  "new_session = \<lparr>enabled_by_us = False, service = None, md_note = None, online = None\<rparr>"

section \<open>ConnMan\<close>

record cm_service =
  cm_path :: string
  cm_type :: string
  cm_state :: string
  cm_roaming :: bool

definition services_of :: "string \<Rightarrow> cm_service list \<Rightarrow> cm_service list" where
  "services_of kind = filter (\<lambda>s. cm_type s = kind)"

definition wifi_connected :: "cm_service list \<Rightarrow> bool" where
  "wifi_connected ss \<longleftrightarrow> list_ex (\<lambda>s. cm_state s \<in> {''ready'', ''online''}) (services_of ''wifi'' ss)"

fun contains :: "string \<Rightarrow> string \<Rightarrow> bool" where
  "contains [] p \<longleftrightarrow> p = []"
| "contains (c # cs) p \<longleftrightarrow> starts_with (c # cs) p \<or> contains cs p"

definition data_service :: "cm_service list \<Rightarrow> string option \<Rightarrow> cm_service option" where
  "data_service ss imsi =
    (let cell = services_of ''cellular'' ss;
         hit = (case imsi of
                  None \<Rightarrow> None
                | Some i \<Rightarrow> if i = [] then None
                            else find (\<lambda>s. contains (cm_path s) (''cellular_'' @ i @ ''_'')) cell)
     in case hit of Some s \<Rightarrow> Some s | None \<Rightarrow> (case cell of [s] \<Rightarrow> Some s | _ \<Rightarrow> None))"

datatype set_outcome = SetOk | SetFailed | SetTimedOut

text \<open>\<open>_set_autoconnect\<close>: whether it raised, and the world.\<close>

definition set_autoconnect :: "set_outcome \<Rightarrow> string \<Rightarrow> bool \<Rightarrow> world \<Rightarrow> bool \<times> world" where
  "set_autoconnect oc path v w =
    (oc \<noteq> SetOk, if oc = SetFailed then w else w\<lparr>autoconnect := (autoconnect w)(path := v)\<rparr>)"

text \<open>
  One turn of \<open>_wait_online\<close>: the state read (or \<open>None\<close>, which keeps the last one), and the clock at
  the two comparisons.
\<close>

type_synonym online_poll = "string option \<times> time \<times> time"

fun wait_online :: "time \<Rightarrow> time \<Rightarrow> string option \<Rightarrow> online_poll list \<Rightarrow> bool option" where
  "wait_online t0 deadline state [] = None"
| "wait_online t0 deadline state ((read, t1, t2) # polls) =
    (let st = (case read of None \<Rightarrow> state | Some s \<Rightarrow> Some s)
     in if st = Some ''online'' then Some True
        else if st = Some ''ready'' \<and> 2 \<le> t1 - t0 then Some True
        else if deadline \<le> t2 then Some False
        else wait_online t0 deadline st polls)"

text \<open>The lock: each attempt succeeds, is refused, or raises; with the clock after it.\<close>

datatype lock_outcome = Locked | LockBusy | LockError

fun lock_acquire :: "time \<Rightarrow> (lock_outcome \<times> time) list \<Rightarrow> bool option" where
  "lock_acquire deadline [] = None"
| "lock_acquire deadline ((oc, t) # attempts) =
    (case oc of
       Locked \<Rightarrow> Some True
     | LockError \<Rightarrow> Some False
     | LockBusy \<Rightarrow> if deadline \<le> t then Some False else lock_acquire deadline attempts)"

section \<open>The ownership record\<close>

definition mark_owned :: "bool \<Rightarrow> string \<Rightarrow> world \<Rightarrow> world" where
  "mark_owned write_ok p w = (if write_ok then w\<lparr>owned_file := Some p\<rparr> else w)"

definition read_owned :: "bool \<Rightarrow> world \<Rightarrow> string option" where
  "read_owned read_ok w = (if \<not> read_ok then None
     else case owned_file w of None \<Rightarrow> None | Some s \<Rightarrow> if strip s = [] then None else Some (strip s))"

definition clear_owned :: "bool \<Rightarrow> world \<Rightarrow> world" where
  "clear_owned remove_ok w = (if remove_ok then w\<lparr>owned_file := None\<rparr> else w)"

record recover_env =
  r_read :: bool
  r_props :: bool
  r_set :: set_outcome
  r_remove :: bool

definition recover :: "recover_env \<Rightarrow> world \<Rightarrow> world" where
  "recover env w =
    (case read_owned (r_read env) w of
       None \<Rightarrow> w
     | Some p \<Rightarrow>
        if \<not> r_props env then w
        else if autoconnect w p then
          (case set_autoconnect (r_set env) p False w of
             (True, w') \<Rightarrow> w'
           | (False, w') \<Rightarrow> clear_owned (r_remove env) w')
        else clear_owned (r_remove env) w)"

section \<open>enable_if_needed and restore\<close>

record enable_env =
  n_services :: "(exn + cm_service list)"
  n_imsi :: "string option"
  n_mark :: bool
  n_set :: set_outcome
  n_online :: "exn + bool"

definition failed_session :: "session \<Rightarrow> session" where
  "failed_session s = s\<lparr>md_note := Some ''Mobile data could not be enabled''\<rparr>"

definition enable_if_needed :: "enable_env \<Rightarrow> bool \<Rightarrow> world \<Rightarrow> session \<times> world" where
  "enable_if_needed env allowed w =
    (if \<not> allowed then (new_session, w)
     else case n_services env of
       Inl _ \<Rightarrow> (failed_session new_session, w)
     | Inr ss \<Rightarrow>
        if wifi_connected ss then (new_session, w)
        else case data_service ss (n_imsi env) of
          None \<Rightarrow> (new_session\<lparr>md_note := Some ''Mobile data not available''\<rparr>, w)
        | Some sv \<Rightarrow>
           (let p = cm_path sv; s = new_session\<lparr>service := Some p\<rparr>
            in if autoconnect w p then (s, w)
               else if cm_roaming sv
               then (s\<lparr>md_note := Some ''Mobile data is off (roaming, not enabled)''\<rparr>, w)
               else
                (case set_autoconnect (n_set env) p True (mark_owned (n_mark env) p w) of
                   (True, w') \<Rightarrow> (failed_session s, w')
                 | (False, w') \<Rightarrow>
                    (case n_online env of
                       Inl _ \<Rightarrow> (failed_session (s\<lparr>enabled_by_us := True\<rparr>), w')
                     | Inr b \<Rightarrow>
                         (s\<lparr>enabled_by_us := True, online := Some b,
                            md_note := Some (if b then ''Mobile data was off, enabled temporarily''
                                          else ''Mobile data was off, enabled but no connection'')\<rparr>, w')))))"

definition restore :: "set_outcome \<Rightarrow> bool \<Rightarrow> session option \<Rightarrow> world \<Rightarrow> session option \<times> world" where
  "restore oc remove_ok s w =
    (case s of
       None \<Rightarrow> (None, w)
     | Some ss \<Rightarrow>
        if \<not> enabled_by_us ss then (s, w)
        else case set_autoconnect oc (case service ss of None \<Rightarrow> [] | Some p \<Rightarrow> p) False w of
          (True, w') \<Rightarrow> (s, w')
        | (False, w') \<Rightarrow> (Some (ss\<lparr>enabled_by_us := False\<rparr>), clear_owned remove_ok w'))"

text \<open>Entering \<open>temporarily_enabled\<close>, and leaving it (also when the action inside raised).\<close>

definition enter_session :: "bool \<Rightarrow> bool \<Rightarrow> recover_env \<Rightarrow> enable_env \<Rightarrow> world \<Rightarrow> session \<times> world" where
  "enter_session allowed locked renv env w =
    (if \<not> allowed \<or> \<not> locked then (new_session, w)
     else enable_if_needed env True (recover renv w))"

definition recover_interrupted :: "bool \<Rightarrow> recover_env \<Rightarrow> world \<Rightarrow> world" where
  "recover_interrupted locked renv w = (if locked then recover renv w else w)"

section \<open>Runs of the two daemons\<close>

text \<open>
  Sessions exclude each other through the lock. A daemon can be killed at any time: the session is
  then lost, the world stays.
\<close>

datatype md_event =
    Enter bool bool recover_env enable_env
  | Leave set_outcome bool
  | Killed
  | Start bool recover_env

type_synonym md_state = "session option \<times> world"

fun md_step :: "md_state \<Rightarrow> md_event \<Rightarrow> md_state" where
  "md_step (None, w) (Enter allowed locked renv env) = apfst Some (enter_session allowed locked renv env w)"
| "md_step (Some s, w) (Enter allowed locked renv env) = (Some s, w)"
| "md_step (s, w) (Leave oc remove_ok) = (None, snd (restore oc remove_ok s w))"
| "md_step (s, w) Killed = (None, w)"
| "md_step (None, w) (Start locked renv) = (None, recover_interrupted locked renv w)"
| "md_step (Some s, w) (Start locked renv) = (Some s, w)"

text \<open>The events of a phone whose data SIM has service \<open>p\<close> and whose file system works.\<close>

fun single_sim :: "string \<Rightarrow> md_event \<Rightarrow> bool" where
  "single_sim p (Enter allowed locked renv env) \<longleftrightarrow>
     n_mark env \<and> (case n_services env of Inl _ \<Rightarrow> True
       | Inr ss \<Rightarrow> (case data_service ss (n_imsi env) of None \<Rightarrow> True | Some sv \<Rightarrow> cm_path sv = p))"
| "single_sim p _ \<longleftrightarrow> True"

text \<open>
  What every run keeps when the user leaves the switch alone: with mobile data on, nothing is
  recorded and nothing is ours; with it off, a flag that is on is on record.
\<close>

definition md_inv :: "string \<Rightarrow> bool \<Rightarrow> (string \<Rightarrow> bool) \<Rightarrow> md_state \<Rightarrow> bool" where
  "md_inv p user_on others st \<longleftrightarrow>
     (\<forall>q. q \<noteq> p \<longrightarrow> autoconnect (snd st) q = others q)
   \<and> owned_file (snd st) \<in> {None, Some p}
   \<and> (user_on \<longrightarrow> autoconnect (snd st) p \<and> owned_file (snd st) = None)
   \<and> (\<not> user_on \<longrightarrow> autoconnect (snd st) p \<longrightarrow> owned_file (snd st) = Some p)
   \<and> (\<forall>s. fst st = Some s \<longrightarrow> enabled_by_us s \<longrightarrow> service s = Some p \<and> \<not> user_on)"

lemma recover_inv:
  assumes "md_inv p u oth (s, w)" "strip p = p" "p \<noteq> []" "s = None"
  shows "md_inv p u oth (s, recover renv w)"
proof -
  have "read_owned (r_read renv) w = None \<or> (read_owned (r_read renv) w = Some p \<and> owned_file w = Some p)"
    using assms(1-3) unfolding md_inv_def read_owned_def by auto
  then show ?thesis
  proof
    assume "read_owned (r_read renv) w = None"
    then show ?thesis using assms(1) by (simp add: recover_def)
  next
    assume "read_owned (r_read renv) w = Some p \<and> owned_file w = Some p"
    then show ?thesis
      using assms(1,4)
      by (cases "r_set renv") (simp_all add: md_inv_def recover_def set_autoconnect_def clear_owned_def)
  qed
qed

lemma enable_cases:
  assumes "enable_if_needed env True w = (s, w')"
  shows "(w' = w \<and> \<not> enabled_by_us s) \<or>
    (\<exists>ss sv. n_services env = Inr ss \<and> data_service ss (n_imsi env) = Some sv \<and> \<not> autoconnect w (cm_path sv)
       \<and> w' = snd (set_autoconnect (n_set env) (cm_path sv) True (mark_owned (n_mark env) (cm_path sv) w))
       \<and> service s = Some (cm_path sv))"
proof (cases "n_services env")
  case (Inl e)
  with assms show ?thesis by (auto simp: enable_if_needed_def failed_session_def new_session_def)
next
  case (Inr ss)
  show ?thesis
  proof (cases "wifi_connected ss \<or> data_service ss (n_imsi env) = None")
    case True
    with assms Inr show ?thesis by (auto simp: enable_if_needed_def new_session_def split: if_splits)
  next
    case False
    then obtain sv where sv: "data_service ss (n_imsi env) = Some sv" "\<not> wifi_connected ss" by auto
    show ?thesis
    proof (cases "autoconnect w (cm_path sv) \<or> cm_roaming sv")
      case True
      with assms Inr sv show ?thesis by (auto simp: enable_if_needed_def new_session_def Let_def split: if_splits)
    next
      case no: False
      obtain b w1 where "set_autoconnect (n_set env) (cm_path sv) True (mark_owned (n_mark env) (cm_path sv) w) = (b, w1)"
        by fastforce
      with assms Inr sv no show ?thesis
        by (cases b; cases "n_online env")
           (auto simp: enable_if_needed_def failed_session_def new_session_def Let_def)
    qed
  qed
qed

lemma enable_inv:
  assumes "md_inv p u oth (None, w)" "single_sim p (Enter True True renv env)"
  shows "md_inv p u oth (apfst Some (enable_if_needed env True w))"
proof -
  obtain s w' where e: "enable_if_needed env True w = (s, w')" by fastforce
  from enable_cases [OF e] show ?thesis
  proof
    assume "w' = w \<and> \<not> enabled_by_us s"
    with assms(1) e show ?thesis by (simp add: md_inv_def)
  next
    assume "\<exists>ss sv. n_services env = Inr ss \<and> data_service ss (n_imsi env) = Some sv \<and> \<not> autoconnect w (cm_path sv)
       \<and> w' = snd (set_autoconnect (n_set env) (cm_path sv) True (mark_owned (n_mark env) (cm_path sv) w))
       \<and> service s = Some (cm_path sv)"
    then have "\<not> autoconnect w p \<and> service s = Some p
        \<and> w' = snd (set_autoconnect (n_set env) p True (mark_owned True p w))"
      using assms(2) by auto
    with assms(1) e show ?thesis
      by (cases "n_set env") (auto simp: md_inv_def set_autoconnect_def mark_owned_def)
  qed
qed

lemma restore_inv:
  assumes "md_inv p u oth (s, w)"
  shows "md_inv p u oth (None, snd (restore oc b s w))"
  using assms
  by (cases oc; cases s) (auto simp: md_inv_def restore_def set_autoconnect_def clear_owned_def)

lemma md_step_inv:
  assumes "md_inv p u oth st" "single_sim p e" "strip p = p" "p \<noteq> []"
  shows "md_inv p u oth (md_step st e)"
proof -
  obtain s w where st: "st = (s, w)" by (cases st)
  show ?thesis
  proof (cases e)
    case (Enter allowed locked renv env)
    show ?thesis
    proof (cases s)
      case None
      have "md_inv p u oth (Some new_session, w)" using assms(1) st by (simp add: md_inv_def new_session_def)
      moreover have "md_inv p u oth (None, recover renv w)"
        using recover_inv [of p u oth None w renv] assms None st by simp
      then have "md_inv p u oth (apfst Some (enable_if_needed env True (recover renv w)))"
        using enable_inv [of p u oth "recover renv w" renv env] assms(2) Enter by simp
      ultimately show ?thesis using None st Enter by (simp add: enter_session_def)
    next
      case (Some s')
      with assms(1) st Enter show ?thesis by simp
    qed
  next
    case (Leave oc b)
    with restore_inv [of p u oth s w oc b] assms(1) st show ?thesis by simp
  next
    case Killed
    with assms(1) st show ?thesis by (simp add: md_inv_def)
  next
    case (Start locked renv)
    with assms recover_inv [of p u oth None w renv] st show ?thesis
      by (cases s) (simp_all add: recover_interrupted_def)
  qed
qed

lemma md_run_inv:
  "md_inv p u oth st \<Longrightarrow> list_all (single_sim p) es \<Longrightarrow> strip p = p \<Longrightarrow> p \<noteq> [] \<Longrightarrow>
   md_inv p u oth (run_events md_step st es)"
proof (induction es arbitrary: st)
  case (Cons e es)
  then show ?case using md_step_inv [of p u oth st e] by simp
qed simp

lemma md_step_Killed [simp]: "md_step st Killed = (None, snd st)"
  by (cases st) simp

section \<open>Properties\<close>


definition good_recover :: recover_env where
  "good_recover = \<lparr>r_read = True, r_props = True, r_set = SetOk, r_remove = True\<rparr>"

definition sim_env :: enable_env where
  "sim_env = \<lparr>n_services = Inr [\<lparr>cm_path = ''/cellular_262_context1'', cm_type = ''cellular'', cm_state = ''idle'', cm_roaming = False\<rparr>],
     n_imsi = Some ''262'', n_mark = True, n_set = SetTimedOut, n_online = Inr True\<rparr>"


text \<open>
  A session changes the AutoConnect flags only when the user
  allowed it, no WLAN is connected, and the data SIM's service is off and not roaming; then it
  changes that one flag, after recording it, and says so in its note.
\<close>
lemma mobile_data_enabled_only_by_policy:
  assumes "enable_if_needed env allowed w = (s, w')" "autoconnect w' \<noteq> autoconnect w"
  shows "\<exists>ss sv. allowed \<and> n_services env = Inr ss \<and> \<not> wifi_connected ss \<and> data_service ss (n_imsi env) = Some sv
    \<and> \<not> autoconnect w (cm_path sv) \<and> \<not> cm_roaming sv
    \<and> autoconnect w' = (autoconnect w)(cm_path sv := True) \<and> service s = Some (cm_path sv)
    \<and> (n_mark env \<longrightarrow> owned_file w' = Some (cm_path sv)) \<and> md_note s \<noteq> None"
  using assms
  by (cases "n_set env") (auto simp: enable_if_needed_def failed_session_def new_session_def Let_def mark_owned_def set_autoconnect_def
      split: if_splits sum.splits option.splits)

end
