(* ===== verification/LocationControl.thy ===== *)
theory LocationControl
  imports Prelude
begin

text \<open>
  \<open>daemon-rpm/src/location_control.py\<close>: reading and writing the system location switch in the
  \<open>location.conf\<close> files. The three regular expressions of the code are functions on the text with
  the semantics of Python's \<open>re\<close> under \<open>MULTILINE\<close> (\<open>^\<close> after every newline, \<open>.\<close> up to a newline,
  \<open>\s\<close> across newlines). A file is its text with mode and owner; what the file system answers is an
  argument.
\<close>

definition KEY_ENABLED :: string where "KEY_ENABLED = ''enabled''"
definition KEY_GPS_ENABLED :: string where "KEY_GPS_ENABLED = ''gps'' @ [CHR 0x5C] @ ''enabled''"
definition KEY_AGREEMENT :: string where "KEY_AGREEMENT = ''agreement_accepted''"

abbreviation nl :: char where "nl \<equiv> CHR 0x0A"

section \<open>The regular expressions\<close>

text \<open>\<open>key\s*=\<close> at the head of a text: the text after the equals sign.\<close>

definition key_eq :: "string \<Rightarrow> string \<Rightarrow> string option" where
  "key_eq key s =
    (if \<not> starts_with s key then None
     else case dropWhile is_space (drop (length key) s) of
            c # r \<Rightarrow> if c = CHR ''='' then Some r else None
          | [] \<Rightarrow> None)"

text \<open>\<open>^key\s*=.*$\<close>: what follows the match.\<close>

definition set_match :: "string \<Rightarrow> string \<Rightarrow> string option" where
  "set_match key s = map_option (dropWhile (\<lambda>c. c \<noteq> nl)) (key_eq key s)"

text \<open>\<open>\s*$\<close> after greedy matching: the blanks run to the end of the text, or back off to the last newline of the run.\<close>

definition blanks_to_eol :: "string \<Rightarrow> string option" where
  "blanks_to_eol s =
    (let run = takeWhile is_space s; after = dropWhile is_space s
     in if after = [] then Some []
        else if nl \<in> set run then Some (nl # rev (takeWhile (\<lambda>c. c \<noteq> nl) (rev run)) @ after)
        else None)"

definition section_match :: "string \<Rightarrow> string option" where
  "section_match s = (if starts_with s ''[location]'' then blanks_to_eol (drop 10 s) else None)"

text \<open>\<open>^key\s*=\s*(\S+)\s*$\<close>: the captured value.\<close>

definition read_match :: "string \<Rightarrow> string \<Rightarrow> string option" where
  "read_match key s =
    (case key_eq key s of
       None \<Rightarrow> None
     | Some r \<Rightarrow>
        let r' = dropWhile is_space r;
            v = takeWhile (\<lambda>c. \<not> is_space c) r'
        in if v = [] \<or> blanks_to_eol (dropWhile (\<lambda>c. \<not> is_space c) r') = None then None else Some v)"

text \<open>The first match at a line start, replaced; and the first captured value.\<close>

fun sub_first :: "bool \<Rightarrow> (string \<Rightarrow> string option) \<Rightarrow> string \<Rightarrow> string \<Rightarrow> string option" where
  "sub_first bol m repl [] = (case (if bol then m [] else None) of Some r \<Rightarrow> Some (repl @ r) | None \<Rightarrow> None)"
| "sub_first bol m repl (c # cs) =
    (case (if bol then m (c # cs) else None) of
       Some r \<Rightarrow> Some (repl @ r)
     | None \<Rightarrow> map_option (Cons c) (sub_first (c = nl) m repl cs))"

fun search_first :: "bool \<Rightarrow> (string \<Rightarrow> string option) \<Rightarrow> string \<Rightarrow> string option" where
  "search_first bol m [] = (if bol then m [] else None)"
| "search_first bol m (c # cs) =
    (case (if bol then m (c # cs) else None) of
       Some r \<Rightarrow> Some r
     | None \<Rightarrow> search_first (c = nl) m cs)"

definition set_key :: "string \<Rightarrow> string \<Rightarrow> string \<Rightarrow> string" where
  "set_key text key v =
    (let repl = key @ ''='' @ v
     in case sub_first True (set_match key) repl text of
          Some t \<Rightarrow> t
        | None \<Rightarrow>
           (case sub_first True section_match (''[location]'' @ [nl] @ repl) text of
              Some t \<Rightarrow> t
            | None \<Rightarrow> text))"

definition read_key :: "string \<Rightarrow> string \<Rightarrow> string option" where
  "read_key text key = search_first True (read_match key) text"

section \<open>Files\<close>

record conf_file =
  content :: string
  mode :: nat
  owner :: "nat \<times> nat"

type_synonym conf_fs = "string \<rightharpoonup> conf_file"

text \<open>
  What the file system does to a write: the temporary file cannot be made (then the file is
  rewritten in place, if it can be), or it is made, and mode and owner can or cannot be copied.
\<close>

datatype write_outcome =
    InPlace bool
  | Replaced bool
  | ReplaceFails

definition write_conf :: "write_outcome \<Rightarrow> nat \<times> nat \<Rightarrow> string \<Rightarrow> string \<Rightarrow> conf_fs \<Rightarrow> bool \<times> conf_fs" where
  "write_conf oc me path text fs =
    (case oc of
       InPlace ok \<Rightarrow>
         (if ok then (True, fs(path \<mapsto> (case fs path of Some f \<Rightarrow> f\<lparr>content := text\<rparr>
             | None \<Rightarrow> \<lparr>content = text, mode = 420, owner = me\<rparr>))) else (False, fs))
     | Replaced perms \<Rightarrow>
         (True, fs(path \<mapsto> (case fs path of
             Some f \<Rightarrow> if perms then f\<lparr>content := text\<rparr> else \<lparr>content = text, mode = 384, owner = me\<rparr>
           | None \<Rightarrow> \<lparr>content = text, mode = 384, owner = me\<rparr>)))
     | ReplaceFails \<Rightarrow> (False, fs))"

record conf_state =
  cs_exists :: bool
  cs_enabled :: "string option"
  cs_gps :: "string option"
  cs_agreement :: "string option"

definition read_state :: "(string \<Rightarrow> bool) \<Rightarrow> conf_fs \<Rightarrow> string \<Rightarrow> conf_state" where
  "read_state readable fs path =
    (case fs path of
       None \<Rightarrow> \<lparr>cs_exists = False, cs_enabled = None, cs_gps = None, cs_agreement = None\<rparr>
     | Some f \<Rightarrow>
         if \<not> readable path then \<lparr>cs_exists = True, cs_enabled = None, cs_gps = None, cs_agreement = None\<rparr>
         else \<lparr>cs_exists = True, cs_enabled = read_key (content f) KEY_ENABLED,
               cs_gps = read_key (content f) KEY_GPS_ENABLED, cs_agreement = read_key (content f) KEY_AGREEMENT\<rparr>)"

definition DEFAULT_PATHS :: "string list" where
  "DEFAULT_PATHS = [''/var/lib/location/location.conf'', ''/etc/location/location.conf'']"

definition is_enabled :: "(string \<Rightarrow> bool) \<Rightarrow> conf_fs \<Rightarrow> string list \<Rightarrow> bool" where
  "is_enabled readable fs paths \<longleftrightarrow> list_ex (\<lambda>p. cs_enabled (read_state readable fs p) = Some ''true'') paths"

fun gps_mode_loop :: "(string \<Rightarrow> bool) \<Rightarrow> conf_fs \<Rightarrow> bool \<Rightarrow> string list \<Rightarrow> bool" where
  "gps_mode_loop readable fs found [] = (\<not> found)"
| "gps_mode_loop readable fs found (p # ps) =
    (let st = read_state readable fs p
     in if cs_enabled st \<noteq> Some ''true'' then gps_mode_loop readable fs found ps
        else if cs_gps st \<noteq> Some ''false'' then True
        else gps_mode_loop readable fs True ps)"

definition gps_mode_enabled :: "(string \<Rightarrow> bool) \<Rightarrow> conf_fs \<Rightarrow> string list \<Rightarrow> bool" where
  "gps_mode_enabled readable fs paths = gps_mode_loop readable fs False paths"

definition needs_enable :: "(string \<Rightarrow> bool) \<Rightarrow> conf_fs \<Rightarrow> string option" where
  "needs_enable readable fs =
    (if \<not> is_enabled readable fs DEFAULT_PATHS then Some ''off''
     else if \<not> gps_mode_enabled readable fs DEFAULT_PATHS then Some ''no_gps''
     else None)"

text \<open>\<open>wait_until_enabled\<close>: the clock and the file system at each turn, and the file system at the end.\<close>

fun wait_until_enabled :: "(string \<Rightarrow> bool) \<Rightarrow> string list \<Rightarrow> time \<Rightarrow> (time \<times> conf_fs) list \<Rightarrow> conf_fs \<Rightarrow> bool" where
  "wait_until_enabled readable paths deadline [] final = is_enabled readable final paths"
| "wait_until_enabled readable paths deadline ((t, fs) # polls) final =
    (if deadline \<le> t then is_enabled readable final paths
     else if is_enabled readable fs paths then True
     else wait_until_enabled readable paths deadline polls final)"

section \<open>set_location_enabled\<close>

record file_result =
  fr_path :: string
  written :: bool
  fr_error :: "string option"

definition new_text :: "bool \<Rightarrow> bool \<Rightarrow> bool \<Rightarrow> string \<Rightarrow> string" where
  "new_text enable accept_agreement enable_gps text =
    (let t1 = set_key text KEY_ENABLED (if enable then ''true'' else ''false'');
         t2 = (if enable \<and> enable_gps then set_key t1 KEY_GPS_ENABLED ''true'' else t1)
     in if enable \<and> accept_agreement then set_key t2 KEY_AGREEMENT ''true'' else t2)"

text \<open>What the file system does to one path: whether it can be read, the backup copied, and written.\<close>

record path_env =
  pe_readable :: bool
  pe_backup :: bool
  pe_write :: write_outcome

definition set_in_file ::
    "path_env \<Rightarrow> nat \<times> nat \<Rightarrow> bool \<Rightarrow> bool \<Rightarrow> bool \<Rightarrow> bool \<Rightarrow> string \<Rightarrow> conf_fs \<Rightarrow> file_result \<times> conf_fs" where
  "set_in_file env me enable accept gps backup path fs =
    (case fs path of
       None \<Rightarrow> (\<lparr>fr_path = path, written = False, fr_error = Some ''missing''\<rparr>, fs)
     | Some f \<Rightarrow>
        (let failed = \<lambda>fs'. (\<lparr>fr_path = path, written = False, fr_error = Some ''OSError''\<rparr>, fs');
             bak = path @ ''.fmd.bak''
         in if \<not> pe_readable env then failed fs
            else if backup \<and> fs bak = None \<and> \<not> pe_backup env then failed fs
            else
             (let fs1 = (if backup \<and> fs bak = None then fs(bak \<mapsto> f) else fs)
              in case write_conf (pe_write env) me path (new_text enable accept gps (content f)) fs1 of
                   (True, fs2) \<Rightarrow> (\<lparr>fr_path = path, written = True, fr_error = None\<rparr>, fs2)
                 | (False, fs2) \<Rightarrow> failed fs2)))"

fun set_location_enabled ::
    "(string \<Rightarrow> path_env) \<Rightarrow> nat \<times> nat \<Rightarrow> bool \<Rightarrow> bool \<Rightarrow> bool \<Rightarrow> bool \<Rightarrow> string list \<Rightarrow> conf_fs
     \<Rightarrow> file_result list \<times> conf_fs" where
  "set_location_enabled env me enable accept gps backup [] fs = ([], fs)"
| "set_location_enabled env me enable accept gps backup (p # ps) fs =
    (let (r, fs1) = set_in_file (env p) me enable accept gps backup p fs;
         (rs, fs2) = set_location_enabled env me enable accept gps backup ps fs1
     in (r # rs, fs2))"

text \<open>Without root rights the change is also queued for the priv service.\<close>

definition location_request :: "bool \<Rightarrow> bool \<Rightarrow> bool option" where
  "location_request as_root enable = (if as_root then None else Some enable)"

section \<open>Lemmas\<close>

lemma key_eq_append:
  assumes "nl \<notin> set key" "p \<noteq> []" "last p = nl" "key_eq key (p @ k # t) \<noteq> None" "\<not> is_space k" "k \<noteq> CHR ''=''"
  shows "key_eq key (p @ x) \<noteq> None"
proof -
  from assms(4) have st: "starts_with (p @ k # t) key" by (auto simp: key_eq_def split: if_splits)
  have len: "length key < length p"
  proof (rule ccontr)
    assume "\<not> length key < length p"
    moreover have "take (length key) (p @ k # t) = key" using st by (simp add: starts_with_def)
    ultimately have "set p \<subseteq> set key" by (metis not_less take_append take_all set_append Un_upper1)
    moreover have "nl \<in> set p" using assms(2,3) by (metis last_in_set)
    ultimately show False using assms(1) by blast
  qed
  let ?q = "drop (length key) p"
  have d0: "length key - length p = 0" using len by simp
  have "\<exists>r. dropWhile is_space ?q = CHR ''='' # r"
  proof (cases "dropWhile is_space ?q")
    case Nil
    then have "dropWhile is_space (?q @ k # t) = k # t"
      using assms(5) by (simp add: dropWhile_append)
    with assms(4) st show ?thesis using assms(6) by (simp add: key_eq_def d0)
  next
    case (Cons a r)
    then have "dropWhile is_space (?q @ k # t) = a # r @ k # t"
      by (simp add: dropWhile_append) (metis dropWhile_eq_Nil_conv list.distinct(1))
    with assms(4) st Cons show ?thesis by (auto simp: key_eq_def d0 split: if_splits)
  qed
  then obtain r where "dropWhile is_space ?q = CHR ''='' # r" by blast
  then have "dropWhile is_space (?q @ x) = CHR ''='' # r @ x"
    by (simp add: dropWhile_append) (metis dropWhile_eq_Nil_conv list.distinct(1))
  moreover have "starts_with (p @ x) key" using st len by (simp add: starts_with_def)
  ultimately show ?thesis by (simp add: key_eq_def d0)
qed

text \<open>The shape of a replacement: unmatched lines, the replacement, and what followed the match.\<close>

lemma sub_first_shape:
  "sub_first bol m repl s = Some t \<Longrightarrow>
   \<exists>p s' r. s = p @ s' \<and> t = p @ repl @ r \<and> m s' = Some r \<and> (p = [] \<longrightarrow> bol) \<and> (p \<noteq> [] \<longrightarrow> last p = nl)
     \<and> (\<forall>a b. p = a @ b \<longrightarrow> b \<noteq> [] \<longrightarrow> (a = [] \<longrightarrow> bol) \<longrightarrow> (a \<noteq> [] \<longrightarrow> last a = nl) \<longrightarrow> m (b @ s') = None)"
proof (induction s arbitrary: bol t)
  case Nil
  then show ?case by (cases "if bol then m [] else None") (auto split: if_splits)
next
  case (Cons c cs)
  show ?case
  proof (cases "if bol then m (c # cs) else None")
    case (Some r)
    with Cons.prems have "t = repl @ r" "bol" "m (c # cs) = Some r" by (auto split: if_splits)
    then show ?thesis by (intro exI [of _ "[]"] exI [of _ "c # cs"] exI [of _ r]) simp
  next
    case None
    with Cons.prems obtain t' where t': "sub_first (c = nl) m repl cs = Some t'" "t = c # t'" by auto
    from Cons.IH [OF t'(1)] obtain p s' r where p: "cs = p @ s'" "t' = p @ repl @ r" "m s' = Some r"
      "p = [] \<longrightarrow> c = nl" "p \<noteq> [] \<longrightarrow> last p = nl"
      and un: "\<And>a b. p = a @ b \<Longrightarrow> b \<noteq> [] \<Longrightarrow> (a = [] \<longrightarrow> c = nl) \<Longrightarrow> (a \<noteq> [] \<longrightarrow> last a = nl) \<Longrightarrow> m (b @ s') = None"
      by blast
    have "m (b @ s') = None" if "c # p = a @ b" "b \<noteq> []" "a = [] \<longrightarrow> bol" "a \<noteq> [] \<longrightarrow> last a = nl" for a b
    proof (cases a)
      case Nil
      with that None p(1) show ?thesis by (auto split: if_splits)
    next
      case (Cons x a')
      with that show ?thesis by (intro un [of a' b]) (auto split: if_splits)
    qed
    with p t'(2) show ?thesis
      by (intro exI [of _ "c # p"] exI [of _ s'] exI [of _ r]) auto
  qed
qed

lemma search_first_skip:
  "(p = [] \<longrightarrow> bol) \<Longrightarrow> (p \<noteq> [] \<longrightarrow> last p = nl) \<Longrightarrow>
   (\<And>a b. p = a @ b \<Longrightarrow> b \<noteq> [] \<Longrightarrow> (a = [] \<longrightarrow> bol) \<Longrightarrow> (a \<noteq> [] \<longrightarrow> last a = nl) \<Longrightarrow> m (b @ s) = None) \<Longrightarrow>
   m s = Some r \<Longrightarrow> search_first bol m (p @ s) = Some r"
proof (induction p arbitrary: bol)
  case Nil
  then show ?case by (cases s) simp_all
next
  case (Cons c p)
  have "(if bol then m ((c # p) @ s) else None) = None" using Cons.prems(3) [of "[]" "c # p"] by simp
  moreover have "search_first (c = nl) m (p @ s) = Some r"
  proof (rule Cons.IH)
    show "p = [] \<longrightarrow> c = nl" "p \<noteq> [] \<longrightarrow> last p = nl" using Cons.prems(2) by (auto split: if_splits)
    show "m (b @ s) = None" if "p = a @ b" "b \<noteq> []" "a = [] \<longrightarrow> c = nl" "a \<noteq> [] \<longrightarrow> last a = nl" for a b
      using that Cons.prems(3) [of "c # a" b] by (auto split: if_splits)
  qed (rule Cons.prems(4))
  ultimately show ?case by (cases bol) simp_all
qed

lemma dropWhile_eol: "dropWhile (\<lambda>c. c \<noteq> nl) r = [] \<or> (\<exists>q. dropWhile (\<lambda>c. c \<noteq> nl) r = nl # q)"
  by (induction r) auto

lemma is_space_nl [simp]: "is_space nl"
  by (simp add: is_space_def code_def)

lemma blanks_eol:
  assumes "s = [] \<or> (\<exists>q. s = nl # q)"
  shows "blanks_to_eol s \<noteq> None"
  using assms by (auto simp: blanks_to_eol_def Let_def)

lemma read_match_fresh:
  assumes "v \<noteq> []" "\<forall>c\<in>set v. \<not> is_space c" "r = [] \<or> (\<exists>q. r = nl # q)"
  shows "read_match key (key @ ''='' @ v @ r) = Some v"
proof -
  have eq: "\<not> is_space (CHR ''='')" by code_simp
  have "key_eq key (key @ ''='' @ v @ r) = Some (v @ r)"
    using eq by (simp add: key_eq_def)
  moreover have "dropWhile is_space (v @ r) = v @ r" using assms(1,2) by (cases v) auto
  moreover have "takeWhile (\<lambda>c. \<not> is_space c) (v @ r) = v" "dropWhile (\<lambda>c. \<not> is_space c) (v @ r) = r"
    using assms(2,3) by (auto simp: takeWhile_append dropWhile_append)
  ultimately show ?thesis using assms(1) blanks_eol [OF assms(3)] by (simp add: read_match_def Let_def)
qed

lemma read_match_None: "key_eq key s = None \<Longrightarrow> read_match key s = None"
  by (simp add: read_match_def)

text \<open>A key that is replaced is read back with the new value.\<close>

lemma read_set_replaced:
  assumes key: "key \<noteq> []" "nl \<notin> set key" "\<not> is_space (hd key)" "hd key \<noteq> CHR ''=''"
    and v: "v \<noteq> []" "\<forall>c\<in>set v. \<not> is_space c"
    and sub: "sub_first True (set_match key) (key @ ''='' @ v) text = Some t"
  shows "read_key t key = Some v"
proof -
  from sub_first_shape [OF sub] obtain p s' r where
    sh: "text = p @ s' \<and> t = p @ (key @ ''='' @ v) @ r \<and> set_match key s' = Some r \<and> (p = [] \<longrightarrow> True)
      \<and> (p \<noteq> [] \<longrightarrow> last p = nl) \<and> (\<forall>a b. p = a @ b \<longrightarrow> b \<noteq> [] \<longrightarrow> (a = [] \<longrightarrow> True) \<longrightarrow>
            (a \<noteq> [] \<longrightarrow> last a = nl) \<longrightarrow> set_match key (b @ s') = None)"
    by (elim exE)
  then have p: "text = p @ s'" "t = p @ (key @ ''='' @ v) @ r" "set_match key s' = Some r" "p \<noteq> [] \<longrightarrow> last p = nl"
    by simp_all
  from sh have all: "\<forall>a b. p = a @ b \<longrightarrow> b \<noteq> [] \<longrightarrow> (a = [] \<longrightarrow> True) \<longrightarrow>
            (a \<noteq> [] \<longrightarrow> last a = nl) \<longrightarrow> set_match key (b @ s') = None"
    by (elim conjE)
  have un: "set_match key (b @ s') = None" if "p = a @ b" "b \<noteq> []" "a \<noteq> [] \<longrightarrow> last a = nl" for a b
    by (rule all [THEN spec, THEN spec, THEN mp, THEN mp, THEN mp, THEN mp, OF that(1,2) impI [OF TrueI] that(3)])
  have r: "r = [] \<or> (\<exists>q. r = nl # q)"
  proof -
    obtain q where "r = dropWhile (\<lambda>c. c \<noteq> nl) q" using p(3) by (auto simp: set_match_def)
    then show ?thesis using dropWhile_eol [of q] by metis
  qed
  obtain k ks where k: "key = k # ks" using key(1) by (cases key) auto
  have "search_first True (read_match key) (p @ (key @ ''='' @ v @ r)) = Some v"
  proof (rule search_first_skip)
    fix a b
    assume ab: "p = a @ b" "b \<noteq> []" "a \<noteq> [] \<longrightarrow> last a = nl"
    have b: "last b = nl" using p(4) ab by (auto split: if_splits)
    have none: "key_eq key (b @ s') = None" using un [OF ab] by (simp add: set_match_def)
    have "key_eq key (b @ key @ ''='' @ v @ r) = None"
    proof (rule ccontr)
      assume "key_eq key (b @ key @ ''='' @ v @ r) \<noteq> None"
      then have "key_eq key (b @ k # ks @ ''='' @ v @ r) \<noteq> None" using k by simp
      from key_eq_append [OF key(2) ab(2) b this, of s'] key(3,4) k none show False by simp
    qed
    then show "read_match key (b @ key @ ''='' @ v @ r) = None" by (rule read_match_None)
  qed (use p read_match_fresh [OF v r] in auto)
  then show ?thesis by (simp add: read_key_def p(2))
qed

section \<open>Properties\<close>

text \<open>
  Setting a key that a line of the file already sets makes the reader
  see the new value, whatever else the file holds.
\<close>
lemma location_key_round_trip:
  assumes "sub_first True (set_match key) x text \<noteq> None"
    and "key \<in> {KEY_ENABLED, KEY_GPS_ENABLED, KEY_AGREEMENT}" "v \<in> {''true'', ''false''}"
  shows "read_key (set_key text key v) key = Some v"
proof -
  have "sub_first bol m a s \<noteq> None \<Longrightarrow> sub_first bol m b s \<noteq> None" for bol m a b s
    by (induction s arbitrary: bol) (auto split: option.splits if_splits)
  from this [OF assms(1)] obtain t where t: "sub_first True (set_match key) (key @ ''='' @ v) text = Some t" by blast
  have key: "key \<noteq> []" "nl \<notin> set key" "\<not> is_space (hd key)" "hd key \<noteq> CHR ''=''"
    using assms(2) by (auto simp: KEY_ENABLED_def KEY_GPS_ENABLED_def KEY_AGREEMENT_def is_space_def code_def)
  have v: "v \<noteq> []" "\<forall>c\<in>set v. \<not> is_space c"
    using assms(3) by (auto simp: is_space_def code_def)
  from read_set_replaced [OF key v t] t show ?thesis by (simp add: set_key_def)
qed

end
