(* ===== verification/PrivService.thy ===== *)
theory PrivService
  imports Prelude "HOL-Library.List_Lexorder"
begin

text \<open>
  The privilege boundary: \<open>daemon-rpm/src/priv_client.py\<close>, which queues a request in the spool
  directory, and \<open>daemon-rpm/src/priv_service.py\<close>, the root service that works the spool off. The
  spool maps a file name to a file; what the file system answers to each call is an argument. The
  actions the service takes are returned in order.
\<close>

type_synonym request = "string \<rightharpoonup> pyval"

text \<open>What \<open>json.load\<close> makes of a file: an error, a value that is no object, or an object.\<close>

datatype document = Unreadable | NotADict | Dict request

record spool_file =
  is_regular :: bool
  nlink :: nat
  uid :: nat
  doc :: document

type_synonym spool = "string \<rightharpoonup> spool_file"

datatype action = Reboot | SendSms string string | SetLocation bool

section \<open>priv_client\<close>

text \<open>How far a \<open>queue\<close> gets: the temporary file, its content, the rename; and the removal after a failure.\<close>

datatype queue_outcome = NoTemp | WriteFailed bool | RenameFailed bool | Queued

definition queue :: "queue_outcome \<Rightarrow> string \<Rightarrow> nat \<Rightarrow> request \<Rightarrow> spool \<Rightarrow> bool \<times> spool" where
  "queue oc req_id me req sp =
    (let file = \<lparr>is_regular = True, nlink = 1, uid = me, doc = Dict (req(''id'' \<mapsto> PStr req_id))\<rparr>;
         tmp = req_id @ ''.tmp'';
         half = file\<lparr>doc := Unreadable\<rparr>
     in case oc of
          NoTemp \<Rightarrow> (False, sp)
        | WriteFailed removed \<Rightarrow> (False, if removed then sp else sp(tmp \<mapsto> half))
        | RenameFailed removed \<Rightarrow> (False, if removed then sp else sp(tmp \<mapsto> file))
        | Queued \<Rightarrow> (True, sp(req_id @ ''.json'' \<mapsto> file)))"

definition send_sms_request :: "string \<Rightarrow> string option \<Rightarrow> request" where
  "send_sms_request recipient body =
     [''cmd'' \<mapsto> PStr ''sendsms'', ''to'' \<mapsto> PStr recipient, ''body'' \<mapsto> PStr (case body of None \<Rightarrow> [] | Some b \<Rightarrow> b)]"

definition reboot_request :: request where
  "reboot_request = [''cmd'' \<mapsto> PStr ''reboot'']"

definition set_location_request :: "bool \<Rightarrow> request" where
  "set_location_request enable = [''cmd'' \<mapsto> PStr ''location'', ''enable'' \<mapsto> PBool enable]"

text \<open>
  \<open>_watch_consumed\<close>: the polls of the request file (clock, still there); the result is whether the
  request was seen consumed within the time.
\<close>

fun watch_consumed :: "time \<Rightarrow> (time \<times> bool) list \<Rightarrow> bool option" where
  "watch_consumed deadline [] = None"
| "watch_consumed deadline ((t, there) # polls) =
    (if deadline \<le> t then Some False else if \<not> there then Some True else watch_consumed deadline polls)"

section \<open>priv_service: one request\<close>

text \<open>\<open>str.lower\<close> of what \<open>get("cmd") or ""\<close> gives; a truthy value that is no text has no \<open>lower\<close>.\<close>

definition request_cmd :: "request \<Rightarrow> exn + string" where
  "request_cmd req = (case req ''cmd'' of
       None \<Rightarrow> Inr []
     | Some v \<Rightarrow> if \<not> py_truthy v then Inr []
                else (case v of PStr s \<Rightarrow> Inr (lower s) | _ \<Rightarrow> Inl (OtherError ''AttributeError'')))"

text \<open>\<open>_do_sendsms\<close>: ofono takes text only, so any other recipient or body ends in a caught exception.\<close>

definition do_sendsms :: "request \<Rightarrow> action list" where
  "do_sendsms req =
    (let body = (case req ''body'' of None \<Rightarrow> PStr [] | Some v \<Rightarrow> if py_truthy v then v else PStr [])
     in case req ''to'' of
          Some (PStr r) \<Rightarrow> if r = [] then [] else (case body of PStr b \<Rightarrow> [SendSms r b] | _ \<Rightarrow> [])
        | _ \<Rightarrow> [])"

definition do_location :: "request \<Rightarrow> action list" where
  "do_location req = [SetLocation (case req ''enable'' of None \<Rightarrow> False | Some v \<Rightarrow> py_truthy v)]"

definition run_request :: "request \<Rightarrow> exn + action list" where
  "run_request req =
    (case request_cmd req of
       Inl e \<Rightarrow> Inl e
     | Inr cmd \<Rightarrow> Inr (if cmd = ''reboot'' then [Reboot]
                       else if cmd = ''sendsms'' then do_sendsms req
                       else if cmd = ''location'' then do_location req
                       else []))"

text \<open>The checks on the opened file, by \<open>fstat\<close>.\<close>

definition file_acceptable :: "nat \<Rightarrow> spool_file \<Rightarrow> bool" where
  "file_acceptable spool_uid f \<longleftrightarrow> is_regular f \<and> nlink f = 1 \<and> uid f = spool_uid"

definition process :: "nat \<Rightarrow> bool \<Rightarrow> spool_file option \<Rightarrow> exn + action list" where
  "process spool_uid opened file =
    (case file of
       None \<Rightarrow> Inr []
     | Some f \<Rightarrow>
        if \<not> opened \<or> \<not> file_acceptable spool_uid f then Inr []
        else (case doc f of
                Unreadable \<Rightarrow> Inr []
              | NotADict \<Rightarrow> Inl (OtherError ''AttributeError'')
              | Dict req \<Rightarrow> run_request req))"

section \<open>priv_service: the spool\<close>

text \<open>The answers of the file system for one request: the claim, the open and the removal.\<close>

record request_env =
  q_claim :: bool
  q_open :: bool
  q_remove :: bool

definition work_name :: "string \<Rightarrow> string" where
  "work_name name = take (length name - 5) name @ ''.work''"

definition step_request ::
    "nat \<Rightarrow> request_env \<Rightarrow> string \<Rightarrow> spool \<Rightarrow> (exn + action list) \<times> spool" where
  "step_request spool_uid env name sp =
    (let claimed = q_claim env \<and> sp name \<noteq> None;
         pos = (if claimed then work_name name else name);
         sp1 = (if claimed then (sp(name := None))(work_name name := sp name) else sp)
     in (process spool_uid (q_open env) (sp1 pos), if q_remove env then sp1(pos := None) else sp1))"

text \<open>An exception that leaves \<open>_process\<close> ends the run, after the removal.\<close>

fun work_off :: "nat \<Rightarrow> (string \<Rightarrow> request_env) \<Rightarrow> string list \<Rightarrow> spool \<Rightarrow> action list \<times> bool \<times> spool" where
  "work_off spool_uid env [] sp = ([], True, sp)"
| "work_off spool_uid env (name # names) sp =
    (case step_request spool_uid (env name) name sp of
       (Inl e, sp1) \<Rightarrow> ([], False, sp1)
     | (Inr acts, sp1) \<Rightarrow>
         (let (acts', fin, sp2) = work_off spool_uid env names sp1 in (acts @ acts', fin, sp2)))"

text \<open>\<open>glob("*suffix")\<close>: names that start with a dot are not matched.\<close>

definition glob_match :: "string \<Rightarrow> string \<Rightarrow> bool" where
  "glob_match suffix n \<longleftrightarrow> ends_with n suffix \<and> \<not> starts_with n ''.''"

definition drop_stale :: "(string \<Rightarrow> bool) \<Rightarrow> spool \<Rightarrow> spool" where
  "drop_stale removed sp = (\<lambda>n. if glob_match ''.work'' n \<and> removed n then None else sp n)"

definition pending_names :: "string list \<Rightarrow> string list" where
  "pending_names listing = sort (filter (glob_match ''.json'') listing)"

text \<open>
  \<open>main\<close>: the actions taken, whether the run came to its end, and the spool after it. \<open>listing\<close> is the
  directory as \<open>glob\<close> lists it.
\<close>

definition priv_main ::
    "nat \<Rightarrow> (string \<Rightarrow> bool) \<Rightarrow> (string \<Rightarrow> request_env) \<Rightarrow> string list \<Rightarrow> spool \<Rightarrow> action list \<times> bool \<times> spool" where
  "priv_main spool_uid removed env listing sp =
     work_off spool_uid env (pending_names listing) (drop_stale removed sp)"

section \<open>Lemmas\<close>

lemma ends_with_append [simp]: "ends_with (s @ p) p"
  by (auto simp: ends_with_iff)

lemma json_name: "ends_with n ''.json'' \<Longrightarrow> n = take (length n - 5) n @ ''.json''"
  by (auto simp: ends_with_iff)

lemma work_name_work [simp]: "ends_with (work_name n) ''.work''"
  by (simp add: work_name_def)

lemma json_not_work: "ends_with n ''.json'' \<Longrightarrow> \<not> ends_with n ''.work''"
  by (auto simp: ends_with_iff)

lemma ends_with_last: "ends_with s p \<Longrightarrow> p \<noteq> [] \<Longrightarrow> last s = last p"
  by (auto simp: ends_with_iff)

lemma work_name_other: "ends_with n ''.json'' \<Longrightarrow> work_name m \<noteq> n"
  using ends_with_last [of n "''.json''"] ends_with_last [OF work_name_work [of m]] by auto

lemma process_actions:
  "process u opened file = Inr acts \<Longrightarrow> acts \<noteq> [] \<Longrightarrow>
   \<exists>f req. file = Some f \<and> file_acceptable u f \<and> doc f = Dict req \<and> run_request req = Inr acts"
  by (auto simp: process_def split: option.splits if_splits document.splits)

lemma step_request_frame:
  "ends_with n ''.json'' \<Longrightarrow> n \<noteq> m \<Longrightarrow> snd (step_request u env m sp) n = sp n"
  using work_name_other [of n m] by (auto simp: step_request_def Let_def)

lemma run_request_length: "run_request req = Inr acts \<Longrightarrow> length acts \<le> 1"
  by (auto simp: run_request_def do_sendsms_def do_location_def Let_def split: sum.splits if_splits option.splits pyval.splits)

lemma step_request_process:
  assumes "ends_with m ''.json''"
  shows "fst (step_request u env m sp) = process u (q_open env) (sp m)"
  using work_name_other [OF assms, of m] by (auto simp: step_request_def Let_def)

lemma step_request_removed:
  assumes "ends_with m ''.json''" "q_remove env"
  shows "snd (step_request u env m sp) m = None"
    and "n \<noteq> m \<Longrightarrow> snd (step_request u env m sp) n \<noteq> None \<Longrightarrow> sp n \<noteq> None"
  using work_name_other [OF assms(1), of m] assms(2) by (auto simp: step_request_def Let_def split: if_splits)

lemma work_off_actions:
  "\<forall>n\<in>set names. ends_with n ''.json'' \<Longrightarrow> distinct names \<Longrightarrow> work_off u env names sp = (acts, fin, sp') \<Longrightarrow>
   a \<in> set acts \<Longrightarrow>
   \<exists>n f req. n \<in> set names \<and> sp n = Some f \<and> file_acceptable u f \<and> doc f = Dict req \<and> run_request req = Inr [a]"
proof (induction names arbitrary: sp acts fin sp')
  case Nil
  then show ?case by simp
next
  case (Cons m names)
  obtain r sp1 where s: "step_request u (env m) m sp = (r, sp1)" by fastforce
  have p: "r = process u (q_open (env m)) (sp m)" using step_request_process [of m u "env m" sp] Cons.prems(1) s by simp
  from Cons.prems s obtain a1 where a1: "r = Inr a1" by (cases r) auto
  with Cons.prems s obtain a2 sp2 where w: "work_off u env names sp1 = (a2, fin, sp2)" "acts = a1 @ a2"
    by (cases "work_off u env names sp1") auto
  show ?case
  proof (cases "a \<in> set a1")
    case True
    have pr: "process u (q_open (env m)) (sp m) = Inr a1" using p a1 by simp
    from True have "a1 \<noteq> []" by auto
    from process_actions [OF pr this] obtain f req where f: "sp m = Some f" "file_acceptable u f" "doc f = Dict req"
      "run_request req = Inr a1" by blast
    moreover have "a1 = [a]" using run_request_length [OF f(4)] True by (cases a1) auto
    ultimately show ?thesis by auto
  next
    case False
    then have "a \<in> set a2" using Cons.prems(4) w by auto
    with Cons.IH [OF _ _ w(1)] Cons.prems obtain n f req where n: "n \<in> set names" "sp1 n = Some f" "file_acceptable u f"
      "doc f = Dict req" "run_request req = Inr [a]" by auto
    moreover have "n \<noteq> m" using n(1) Cons.prems(2) by auto
    then have "sp n = Some f"
      using n(1,2) step_request_frame [of n m u "env m" sp] s Cons.prems(1,2) by auto
    ultimately show ?thesis by auto
  qed
qed

lemma work_off_clears:
  "\<forall>n\<in>set names. ends_with n ''.json'' \<and> q_remove (env n) \<Longrightarrow> distinct names \<Longrightarrow>
   work_off u env names sp = (acts, True, sp') \<Longrightarrow>
   (\<forall>n\<in>set names. sp' n = None) \<and> (\<forall>n. sp' n \<noteq> None \<longrightarrow> sp n \<noteq> None)"
proof (induction names arbitrary: sp acts)
  case Nil
  then show ?case by simp
next
  case (Cons m names)
  obtain r sp1 where s: "step_request u (env m) m sp = (r, sp1)" by fastforce
  from Cons.prems s obtain a1 where a1: "r = Inr a1" by (cases r) auto
  with Cons.prems s obtain a2 where w: "work_off u env names sp1 = (a2, True, sp')"
    by (cases "work_off u env names sp1") auto
  have rest: "(\<forall>n\<in>set names. sp' n = None) \<and> (\<forall>n. sp' n \<noteq> None \<longrightarrow> sp1 n \<noteq> None)"
    using Cons.IH [OF _ _ w] Cons.prems by simp
  have m: "sp1 m = None" "\<And>n. n \<noteq> m \<Longrightarrow> sp1 n \<noteq> None \<Longrightarrow> sp n \<noteq> None"
    using step_request_removed [where m = m and env = "env m" and u = u and sp = sp] s Cons.prems(1) by auto
  show ?case
  proof (intro conjI ballI allI impI)
    fix n assume "n \<in> set (m # names)"
    then show "sp' n = None" using rest m(1) by (cases "n = m") auto
  next
    fix n assume "sp' n \<noteq> None"
    with rest m show "sp n \<noteq> None" by (cases "n = m") auto
  qed
qed

lemma pending_json: "n \<in> set (pending_names listing) \<Longrightarrow> ends_with n ''.json''"
  by (simp add: pending_names_def glob_match_def)

section \<open>Properties\<close>

text \<open>
  C9. \<open>privileged_action_authorised\<close>: whatever is in the spool, every action the root service takes
  comes from a pending request file that is a plain file with one link owned by the owner of the
  spool, and is the one action its "cmd" names; so only reboot, SMS and the location switch can
  happen, and no request acts twice in a run.
\<close>
theorem privileged_action_authorised:
  assumes "distinct listing" "priv_main u removed env listing sp = (acts, fin, sp')" "a \<in> set acts"
  shows "\<exists>n f req. n \<in> set listing \<and> ends_with n ''.json'' \<and> sp n = Some f \<and> is_regular f \<and> nlink f = 1 \<and> uid f = u
    \<and> doc f = Dict req \<and> run_request req = Inr [a]
    \<and> (a = Reboot \<longrightarrow> request_cmd req = Inr ''reboot'')
    \<and> (\<forall>r b. a = SendSms r b \<longrightarrow> request_cmd req = Inr ''sendsms'' \<and> r \<noteq> [])
    \<and> (\<forall>v. a = SetLocation v \<longrightarrow> request_cmd req = Inr ''location'')"
proof -
  have d: "distinct (pending_names listing)" using assms(1) by (simp add: pending_names_def)
  have j: "\<forall>n\<in>set (pending_names listing). ends_with n ''.json''" using pending_json by blast
  from work_off_actions [OF j d assms(2) [unfolded priv_main_def] assms(3)]
  obtain n f req where n: "n \<in> set (pending_names listing)" "drop_stale removed sp n = Some f" "file_acceptable u f"
    "doc f = Dict req" "run_request req = Inr [a]" by blast
  have l: "n \<in> set listing" "ends_with n ''.json''" "sp n = Some f"
    using n(1,2) by (auto simp: pending_names_def drop_stale_def glob_match_def split: if_splits)
  have c: "(a = Reboot \<longrightarrow> request_cmd req = Inr ''reboot'')
    \<and> (\<forall>r b. a = SendSms r b \<longrightarrow> request_cmd req = Inr ''sendsms'' \<and> r \<noteq> [])
    \<and> (\<forall>v. a = SetLocation v \<longrightarrow> request_cmd req = Inr ''location'')"
    using n(5) by (auto simp: run_request_def do_sendsms_def do_location_def Let_def
        split: sum.splits if_splits option.splits pyval.splits)
  show ?thesis using n l c unfolding file_acceptable_def by blast
qed

definition one_request :: spool where
  "one_request = snd (queue Queued ''req-1'' 100000 reboot_request Map.empty)"

lemma one_request_eval:
  "one_request = [''req-1.json'' \<mapsto> \<lparr>is_regular = True, nlink = 1, uid = 100000,
     doc = Dict [''cmd'' \<mapsto> PStr ''reboot'', ''id'' \<mapsto> PStr ''req-1'']\<rparr>]"
  by (simp add: one_request_def queue_def reboot_request_def Let_def fun_upd_twist)

definition ok_env :: "string \<Rightarrow> request_env" where
  "ok_env = (\<lambda>_. \<lparr>q_claim = True, q_open = True, q_remove = True\<rparr>)"

lemma run_single:
  assumes "run_request req = Inr acts"
  shows "priv_main 100000 (\<lambda>_. True) ok_env [''req-1.json'']
      [''req-1.json'' \<mapsto> \<lparr>is_regular = True, nlink = 1, uid = 100000, doc = Dict req\<rparr>] = (acts, True, Map.empty)"
proof -
  let ?f = "\<lparr>is_regular = True, nlink = 1, uid = 100000, doc = Dict req\<rparr>"
  have names: "pending_names [''req-1.json''] = [''req-1.json'']"
    by (simp add: pending_names_def glob_match_def starts_with_def ends_with_def)
  have stale: "drop_stale (\<lambda>_. True) [''req-1.json'' \<mapsto> ?f] = [''req-1.json'' \<mapsto> ?f]"
    by (simp add: drop_stale_def glob_match_def ends_with_def fun_eq_iff)
  have "step_request 100000 (ok_env ''req-1.json'') ''req-1.json'' [''req-1.json'' \<mapsto> ?f] = (Inr acts, Map.empty)"
    using assms by (simp add: step_request_def ok_env_def process_def file_acceptable_def work_name_def Let_def fun_eq_iff)
  then show ?thesis unfolding priv_main_def names stale by simp
qed

lemma one_request_run:
  "priv_main 100000 (\<lambda>_. True) ok_env [''req-1.json''] one_request = ([Reboot], True, Map.empty)"
  unfolding one_request_eval
  by (rule run_single) (simp add: run_request_def request_cmd_def to_lower_def code_def)

theorem privileged_action_authorised_witness:
  "\<exists>n f. one_request n = Some f \<and> is_regular f \<and> uid f = 100000"
  using privileged_action_authorised [OF _ one_request_run, of Reboot] by auto

text \<open>
  C38. \<open>spool_emptied\<close>: a run that comes to its end leaves no pending request and no claimed one
  behind, whatever the requests were, so the path unit does not trigger again; and it adds no file.
\<close>
theorem spool_emptied:
  assumes "distinct listing" "\<And>n. sp n \<noteq> None \<Longrightarrow> n \<in> set listing" "\<And>n. q_remove (env n)"
    and "priv_main u (\<lambda>_. True) env listing sp = (acts, True, sp')"
  shows "(\<forall>n. glob_match ''.json'' n \<or> glob_match ''.work'' n \<longrightarrow> sp' n = None) \<and> (\<forall>n. sp' n \<noteq> None \<longrightarrow> sp n \<noteq> None)"
proof -
  have d: "distinct (pending_names listing)" using assms(1) by (simp add: pending_names_def)
  have j: "\<forall>n\<in>set (pending_names listing). ends_with n ''.json'' \<and> q_remove (env n)" using pending_json assms(3) by blast
  from work_off_clears [OF j d assms(4) [unfolded priv_main_def]]
  have c: "\<forall>n\<in>set (pending_names listing). sp' n = None" "\<forall>n. sp' n \<noteq> None \<longrightarrow> drop_stale (\<lambda>_. True) sp n \<noteq> None" by auto
  have c3: "\<not> glob_match ''.work'' n \<and> sp n \<noteq> None" if "sp' n \<noteq> None" for n
    using c(2) [rule_format, OF that] by (auto simp: drop_stale_def split: if_splits)
  show ?thesis
  proof (intro conjI allI impI)
    fix n assume g: "glob_match ''.json'' n \<or> glob_match ''.work'' n"
    show "sp' n = None"
    proof (rule ccontr)
      assume left: "sp' n \<noteq> None"
      with g c3 have "glob_match ''.json'' n" "sp n \<noteq> None" by blast+
      then have "n \<in> set (pending_names listing)" using assms(2) by (simp add: pending_names_def)
      with c(1) left show False by simp
    qed
  next
    fix n assume "sp' n \<noteq> None"
    with c3 show "sp n \<noteq> None" by blast
  qed
qed

theorem spool_emptied_witness:
  "snd (snd (priv_main 100000 (\<lambda>_. True) ok_env [''req-1.json''] one_request)) ''req-1.json'' = None"
proof -
  have "glob_match ''.json'' ''req-1.json''" by code_simp
  moreover
  have "one_request n \<noteq> None \<Longrightarrow> n \<in> set [''req-1.json'']" for n
    by (simp add: one_request_eval split: if_splits)
  from spool_emptied [OF _ this _ one_request_run]
  have "glob_match ''.json'' n \<Longrightarrow> snd (snd (priv_main 100000 (\<lambda>_. True) ok_env [''req-1.json''] one_request)) n = None" for n
    unfolding one_request_run by (simp add: ok_env_def)
  ultimately show ?thesis by blast
qed

text \<open>
  A reboot, SMS or location request queued by the user daemon is carried out
  by the next run of the service exactly as asked, and leaves the spool empty; a request that could
  not be queued leaves no request file behind.
\<close>
lemma queued_request_acts:
  "priv_main 100000 (\<lambda>_. True) ok_env [''req-1.json''] (snd (queue Queued ''req-1'' 100000 reboot_request Map.empty))
      = ([Reboot], True, Map.empty)
    \<and> priv_main 100000 (\<lambda>_. True) ok_env [''req-1.json''] (snd (queue Queued ''req-1'' 100000 (send_sms_request (c # cs) body) Map.empty))
      = ([SendSms (c # cs) (case body of None \<Rightarrow> [] | Some b \<Rightarrow> b)], True, Map.empty)
    \<and> priv_main 100000 (\<lambda>_. True) ok_env [''req-1.json''] (snd (queue Queued ''req-1'' 100000 (set_location_request v) Map.empty))
      = ([SetLocation v], True, Map.empty)
    \<and> fst (queue oc ''req-1'' 100000 req Map.empty) = (oc = Queued)
    \<and> (oc = Queued \<or> snd (queue oc ''req-1'' 100000 req Map.empty) ''req-1.json'' = None)"
proof -
  have q: "snd (queue Queued ''req-1'' 100000 r Map.empty) = [''req-1.json'' \<mapsto>
      \<lparr>is_regular = True, nlink = 1, uid = 100000, doc = Dict (r(''id'' \<mapsto> PStr ''req-1''))\<rparr>]" for r
    by (simp add: queue_def Let_def)
  have low: "lower ''reboot'' = ''reboot''" "lower ''sendsms'' = ''sendsms''" "lower ''location'' = ''location''" by code_simp+
  have 1: "run_request (reboot_request(''id'' \<mapsto> PStr ''req-1'')) = Inr [Reboot]"
    using low by (simp add: run_request_def request_cmd_def reboot_request_def)
  have 2: "run_request ((send_sms_request (c # cs) body)(''id'' \<mapsto> PStr ''req-1''))
      = Inr [SendSms (c # cs) (case body of None \<Rightarrow> [] | Some b \<Rightarrow> b)]"
    using low by (auto simp: run_request_def request_cmd_def send_sms_request_def do_sendsms_def Let_def split: option.splits)
  have 3: "run_request ((set_location_request v)(''id'' \<mapsto> PStr ''req-1'')) = Inr [SetLocation v]"
    using low by (simp add: run_request_def request_cmd_def set_location_request_def do_location_def)
  have 4: "fst (queue oc ''req-1'' 100000 req Map.empty) = (oc = Queued)
      \<and> (oc = Queued \<or> snd (queue oc ''req-1'' 100000 req Map.empty) ''req-1.json'' = None)"
    by (cases oc) (simp_all add: queue_def Let_def)
  show ?thesis
    unfolding q using run_single [OF 1] run_single [OF 2] run_single [OF 3] 4 by (simp add: q)
qed

end
