(* ===== verification/GpsReader.thy ===== *)
theory GpsReader
  imports Prelude
begin

text \<open>
  \<open>daemon-rpm/src/gps_reader.py\<close>: one position fix from geoclue, the time stamps and the battery
  level; and \<open>qml/utilities/net_watch.py\<close>, the source address the kernel would choose. The position
  signals and poll answers of geoclue, the clock, the resolver and the sockets are arguments.
\<close>

section \<open>Time stamps\<close>

text \<open>The civil date of a day number since 1970-01-01 (\<open>time.gmtime\<close>).\<close>

definition civil_from_days :: "int \<Rightarrow> int \<times> int \<times> int" where
  "civil_from_days days =
    (let z = days + 719468;
         era = z div 146097;
         doe = z mod 146097;
         yoe = (doe - doe div 1460 + doe div 36524 - doe div 146096) div 365;
         doy = doe - (365 * yoe + yoe div 4 - yoe div 100);
         mp = (5 * doy + 2) div 153;
         d = doy - (153 * mp + 2) div 5 + 1;
         m = (if mp < 10 then mp + 3 else mp - 9)
     in (yoe + era * 400 + (if m \<le> 2 then 1 else 0), m, d))"

definition pad2 :: "int \<Rightarrow> string" where
  "pad2 i = zfill 2 (dec_int i)"

definition format_time :: "int \<Rightarrow> string" where
  "format_time t =
    (let (y, m, d) = civil_from_days (t div 86400); s = t mod 86400
     in dec_int y @ ''-'' @ pad2 m @ ''-'' @ pad2 d @ ''T'' @ pad2 (s div 3600) @ '':''
        @ pad2 (s mod 3600 div 60) @ '':'' @ pad2 (s mod 60))"

definition iso_utc :: "time \<Rightarrow> string" where
  "iso_utc t = format_time \<lfloor>t\<rfloor> @ ''Z''"

text \<open>\<open>offset\<close> is what the C library gives for the local zone, in seconds east.\<close>

definition iso_local :: "int \<Rightarrow> time \<Rightarrow> string" where
  "iso_local offset t =
     format_time (\<lfloor>t\<rfloor> + offset) @ (if 0 \<le> offset then ''+'' else ''-'')
       @ pad2 (\<bar>offset\<bar> div 3600) @ '':'' @ pad2 (\<bar>offset\<bar> mod 3600 div 60)"

text \<open>\<open>read_battery_level\<close>: the first candidate file that holds a number; \<open>int(float(text))\<close> truncates.\<close>

definition truncate_rat :: "rat \<Rightarrow> int" where
  "truncate_rat r = (if 0 \<le> r then \<lfloor>r\<rfloor> else \<lceil>r\<rceil>)"

definition battery_text :: "string option \<Rightarrow> int option" where
  "battery_text file = (case file of
       None \<Rightarrow> None
     | Some text \<Rightarrow> (case py_float (strip text) of Some (Fin r) \<Rightarrow> Some (truncate_rat r) | _ \<Rightarrow> None))"

fun read_battery_level :: "string option list \<Rightarrow> int option" where
  "read_battery_level [] = None"
| "read_battery_level (f # fs) = (case battery_text f of Some b \<Rightarrow> Some b | None \<Rightarrow> read_battery_level fs)"

section \<open>One fix\<close>

record fix_result =
  fx_success :: bool
  fx_lat :: "rat option"
  fx_lon :: "rat option"
  fx_alt :: "rat option"
  fx_accuracy :: "rat option"
  fx_speed :: "rat option"
  fx_utc :: "string option"
  fx_local :: "string option"
  fx_error :: "string option"

definition no_fix :: "string \<Rightarrow> fix_result" where
  "no_fix e = \<lparr>fx_success = False, fx_lat = None, fx_lon = None, fx_alt = None, fx_accuracy = None, fx_speed = None,
     fx_utc = None, fx_local = None, fx_error = Some e\<rparr>"

text \<open>A position report: the valid-field bits, the numbers, the accuracy tuple, and the velocity if it could be read.\<close>

record position =
  p_fields :: nat
  p_lat :: rat
  p_lon :: rat
  p_alt :: rat
  p_accuracy :: "rat list"
  p_velocity :: "(nat \<times> rat) option"
  p_time :: time

definition F_LAT :: nat where "F_LAT = 1"
definition F_LON :: nat where "F_LON = 2"
definition F_ALT :: nat where "F_ALT = 4"
definition V_SPEED :: nat where "V_SPEED = 1"

definition has_bits :: "nat \<Rightarrow> nat \<Rightarrow> bool" where
  "has_bits b m \<longleftrightarrow> Bit_Operations.and b m \<noteq> 0"

definition consider_report :: "int \<Rightarrow> position \<Rightarrow> fix_result option \<Rightarrow> fix_result option" where
  "consider_report offset p best =
    (if \<not> has_bits (p_fields p) (Bit_Operations.or F_LAT F_LON) then best
     else Some \<lparr>fx_success = True, fx_lat = Some (p_lat p), fx_lon = Some (p_lon p),
       fx_alt = (if has_bits (p_fields p) F_ALT then Some (p_alt p) else None),
       fx_accuracy = (if 2 \<le> length (p_accuracy p) then Some (p_accuracy p ! 1) else None),
       fx_speed = (case p_velocity p of None \<Rightarrow> None | Some (vf, v) \<Rightarrow> if has_bits vf V_SPEED then Some v else None),
       fx_utc = Some (iso_utc (p_time p)), fx_local = Some (iso_local offset (p_time p)), fx_error = None\<rparr>)"

text \<open>
  \<open>_drive_until_fix\<close>: each turn gives the clock, whether \<open>should_abort\<close> says so, and the reports
  that arrive in the iteration of the main context.
\<close>

type_synonym fix_turn = "time \<times> bool \<times> position list"

fun drive_until_fix :: "int \<Rightarrow> time \<Rightarrow> rat option \<Rightarrow> fix_turn list \<Rightarrow> fix_result option \<Rightarrow> fix_result option" where
  "drive_until_fix offset deadline min_accuracy [] best = best"
| "drive_until_fix offset deadline min_accuracy ((now, abort, reports) # turns) best =
    (if deadline \<le> now \<or> abort then best
     else
      let best' = fold (consider_report offset) reports best
      in case best' of
           None \<Rightarrow> drive_until_fix offset deadline min_accuracy turns None
         | Some r \<Rightarrow>
             (case min_accuracy of
                None \<Rightarrow> Some r
              | Some a \<Rightarrow> if (case fx_accuracy r of None \<Rightarrow> False | Some h \<Rightarrow> h \<le> a) then Some r
                          else drive_until_fix offset deadline min_accuracy turns best'))"

definition get_fix :: "int \<Rightarrow> bool \<Rightarrow> time \<Rightarrow> rat \<Rightarrow> rat option \<Rightarrow> fix_turn list \<Rightarrow> fix_result" where
  "get_fix offset provider_ok started timeout min_accuracy turns =
    (if \<not> provider_ok then no_fix ''cannot reach geoclue provider''
     else case drive_until_fix offset (started + timeout + 2) min_accuracy turns None of
            Some r \<Rightarrow> r
          | None \<Rightarrow> no_fix ''no fix within timeout'')"

section \<open>net_watch\<close>

record dns_cache =
  dc_host :: "string option"
  dc_addr :: "string option"
  dc_family :: "string option"
  dc_ts :: time

definition dns_empty :: dns_cache where
  "dns_empty = \<lparr>dc_host = None, dc_addr = None, dc_family = None, dc_ts = 0\<rparr>"

definition DNS_TTL_S :: rat where "DNS_TTL_S = 300"

text \<open>\<open>_resolve\<close>; \<open>infos\<close> is the answer of \<open>getaddrinfo\<close>, sorted stably with IPv4 first. The flag tells whether it was called.\<close>

definition resolve :: "string \<Rightarrow> time \<Rightarrow> exn + (string \<times> string) list \<Rightarrow> dns_cache
    \<Rightarrow> (string \<times> string) option \<times> bool \<times> dns_cache" where
  "resolve host now infos c =
    (if dc_host c = Some host \<and> now - dc_ts c < DNS_TTL_S
     then ((case (dc_addr c, dc_family c) of (Some a, Some f) \<Rightarrow> Some (f, a) | _ \<Rightarrow> None), False, c)
     else case infos of
       Inl _ \<Rightarrow> (None, True, c)
     | Inr is \<Rightarrow>
        (case sort_key (\<lambda>i. if fst i = ''inet'' then 0 else 1 :: nat) is of
           [] \<Rightarrow> (None, True, c)
         | (f, a) # _ \<Rightarrow> (Some (f, a), True, \<lparr>dc_host = Some host, dc_addr = Some a, dc_family = Some f, dc_ts = now\<rparr>)))"

definition preferred_src_ip ::
    "string \<Rightarrow> time \<Rightarrow> exn + (string \<times> string) list \<Rightarrow> ((string \<times> string) \<Rightarrow> exn + string) \<Rightarrow> dns_cache
     \<Rightarrow> string option \<times> dns_cache" where
  "preferred_src_ip host now infos route c =
    (case resolve host now infos c of
       (None, _, c') \<Rightarrow> (None, c')
     | (Some fa, _, c') \<Rightarrow> (case route fa of Inl _ \<Rightarrow> (None, c') | Inr ip \<Rightarrow> (Some ip, c')))"

section \<open>Lemmas and properties\<close>

text \<open>What a successful result carries.\<close>

definition fix_ok :: "fix_result \<Rightarrow> bool" where
  "fix_ok r \<longleftrightarrow> fx_success r \<and> fx_lat r \<noteq> None \<and> fx_lon r \<noteq> None \<and> fx_utc r \<noteq> None \<and> fx_local r \<noteq> None
     \<and> fx_error r = None"

lemma consider_report_ok: "consider_report off p best = Some r \<Longrightarrow> best = Some r \<or> fix_ok r"
  by (auto simp: consider_report_def fix_ok_def split: if_splits)

lemma fold_consider_ok:
  "fold (consider_report off) ps best = Some r \<Longrightarrow> (\<And>b. best = Some b \<Longrightarrow> fix_ok b) \<Longrightarrow> fix_ok r"
proof (induction ps arbitrary: best)
  case (Cons p ps)
  from Cons.prems(1) have "fold (consider_report off) ps (consider_report off p best) = Some r" by simp
  then show ?case
    by (rule Cons.IH) (use consider_report_ok [of off p best] Cons.prems(2) in blast)
qed simp

lemma drive_ok:
  "drive_until_fix off d ma turns best = Some r \<Longrightarrow> (\<And>b. best = Some b \<Longrightarrow> fix_ok b) \<Longrightarrow> fix_ok r"
proof (induction turns arbitrary: best)
  case (Cons t turns)
  obtain now ab reps where t: "t = (now, ab, reps)" by (cases t)
  have f: "\<And>b. fold (consider_report off) reps best = Some b \<Longrightarrow> fix_ok b"
    using fold_consider_ok [of off reps best] Cons.prems(2) by blast
  show ?case
  proof (cases "d \<le> now \<or> ab")
    case True
    with Cons.prems t show ?thesis by auto
  next
    case False
    show ?thesis
    proof (cases "fold (consider_report off) reps best")
      case None
      with Cons False t show ?thesis by (auto simp: Let_def)
    next
      case (Some b)
      with f have "fix_ok b" by blast
      with Cons.prems(1) Some False t Cons.IH [of "Some b"] show ?thesis
        by (auto simp: Let_def split: option.splits if_splits)
    qed
  qed
qed simp


text \<open>
  Within five minutes of an answer for a host the resolver is not asked again
  and the same address is used; an unknown route or a failed lookup gives no address at all, which
  the callers take as "no handover".
\<close>
lemma dns_answer_reused:
  assumes "resolve host now infos c = (Some (f, a), True, c')" "now \<le> now'" "now' - now < 300"
  shows "resolve host now' infos' c' = (Some (f, a), False, c')
    \<and> preferred_src_ip host now' infos' (\<lambda>_. Inl OSError) c' = (None, c')"
  using assms
  by (auto simp: resolve_def preferred_src_ip_def DNS_TTL_S_def split: if_splits sum.splits list.splits)


end
