(* ===== verification/GpsDaemon.thy ===== *)
theory GpsDaemon
  imports Gpsstore Fixedloc GpsReader LocationControl Runtime
begin

text \<open>
  \<open>daemon-rpm/src/daemon_gps.py\<close>: the GPS service. One cycle (\<open>tick\<close>) works on the pending fix and
  the database and returns what it did as a list of effects; what ConnMan, the location files, the
  GPS fix, the battery and the verified one-shot publish give is an argument. The abort predicate
  of the fix wait, the event-based sleep and the heartbeat are modelled on their own.
\<close>

type_synonym payload = "(string \<times> pyval) list"

datatype gps_effect =
    EnabledLocation
  | QueriedGps
  | Stored payload
  | LocalOnly payload            \<comment> \<open>publishing is not configured\<close>
  | Delivered payload
  | NotDelivered payload
  | DroppedPending payload       \<comment> \<open>MQTT was switched off meanwhile\<close>

section \<open>Publishing\<close>

text \<open>
  \<open>_publish\<close>: True when the fix is on the broker or there is nothing to deliver to. \<open>delivered\<close> is
  what \<open>publish_location_once\<close> returns inside the mobile data session.
\<close>

definition gps_publish :: "database \<Rightarrow> bool \<Rightarrow> bool \<Rightarrow> payload \<Rightarrow> bool \<times> gps_effect" where
  "gps_publish db paho delivered p =
    (if \<not> get_bool db MQTT_ENABLED then (True, LocalOnly p)
     else if \<not> setting_filled db MQTT_SERVER \<or> \<not> paho then (True, LocalOnly p)
     else if delivered then (True, Delivered p)
     else (False, NotDelivered p))"

type_synonym pending = "(string \<times> payload) option"

definition flush_pending :: "database \<Rightarrow> bool \<Rightarrow> bool \<Rightarrow> pending \<Rightarrow> pending \<times> gps_effect list" where
  "flush_pending db paho delivered pend =
    (case pend of
       None \<Rightarrow> (None, [])
     | Some (own_id, p) \<Rightarrow>
         if \<not> get_bool db MQTT_ENABLED then (None, [DroppedPending p])
         else (case gps_publish db paho delivered p of
                 (True, e) \<Rightarrow> (None, [e])
               | (False, e) \<Rightarrow> (pend, [e])))"

definition publish_new :: "database \<Rightarrow> bool \<Rightarrow> bool \<Rightarrow> string \<Rightarrow> payload \<Rightarrow> pending \<times> gps_effect list" where
  "publish_new db paho delivered own_id p =
    (case gps_publish db paho delivered p of
       (True, e) \<Rightarrow> (None, [e])
     | (False, e) \<Rightarrow> (Some (own_id, p), [e]))"

section \<open>One cycle\<close>

definition float_py :: "rat \<Rightarrow> pyval" where
  "float_py r = PFloat r []"

definition opt_py :: "('a \<Rightarrow> pyval) \<Rightarrow> 'a option \<Rightarrow> pyval" where
  "opt_py f v = (case v of None \<Rightarrow> PNone | Some x \<Rightarrow> f x)"

definition fin_py :: "pyfloat \<Rightarrow> pyval" where
  "fin_py x = (case x of Fin r \<Rightarrow> float_py r | _ \<Rightarrow> PFloat 0 [])"

definition location_payload :: "string \<Rightarrow> pyval \<Rightarrow> pyval \<Rightarrow> pyval \<Rightarrow> pyval \<Rightarrow> pyval \<Rightarrow> pyval \<Rightarrow> pyval \<Rightarrow> pyval \<Rightarrow> payload" where
  "location_payload own_id ts_utc ts_local lat lon alt speed accuracy battery =
     [(''device_id'', PStr own_id), (''timestamp_utc'', ts_utc), (''timestamp_local'', ts_local),
      (''lat'', lat), (''lon'', lon), (''alt'', alt), (''speed'', speed), (''accuracy'', accuracy), (''battery'', battery)]"

record tick_env =
  t_draws :: "string list"
  t_stamp :: string
  t_connman :: "exn + connman_service list"
  t_now :: time
  t_offset :: int
  t_battery :: "int option"
  t_needs_enable :: "string option"
  t_fix :: fix_result
  t_stopped :: bool
  t_generation :: int
  t_paho :: bool
  t_delivered :: bool

text \<open>
  Store the new fix and publish it. \<open>store_fix\<close> may raise; then the cycle ends with the exception.
\<close>

definition store_and_publish ::
    "tick_env \<Rightarrow> string \<Rightarrow> pyval \<Rightarrow> pyval \<Rightarrow> pyval \<Rightarrow> pyval \<Rightarrow> pyval \<Rightarrow> pyval \<Rightarrow> pyval \<Rightarrow> pending \<Rightarrow> database
     \<Rightarrow> (exn + unit) \<times> pending \<times> database \<times> gps_effect list" where
  "store_and_publish env own_id tu tl' la lo al sp ac pend db =
    (let ba = opt_py PInt (t_battery env);
         p = location_payload own_id tu tl' la lo al sp ac ba
     in case store_fix own_id tu tl' la lo al sp ac ba True db of
          (Inl e, db') \<Rightarrow> (Inl e, pend, db', [])
        | (Inr _, db') \<Rightarrow>
            (let (pend', es) = publish_new db' (t_paho env) (t_delivered env) own_id p
             in (Inr (), pend', db', Stored p # es)))"

definition tick ::
    "tick_env \<Rightarrow> int option \<Rightarrow> pending \<Rightarrow> database \<Rightarrow> (exn + unit) \<times> pending \<times> database \<times> gps_effect list" where
  "tick env gen pend db0 =
    (case own_device_id (t_draws env) (t_stamp env) db0 of
       (Inl e, db) \<Rightarrow> (Inl e, pend, db, [])
     | (Inr None, db) \<Rightarrow> (Inl TypeError, pend, db, [])
     | (Inr (Some own_id), db) \<Rightarrow>
        (case fst (fixed_get db (t_connman env) None) of
           Some (lat, lon) \<Rightarrow>
             store_and_publish env own_id (PStr (iso_utc (t_now env))) (PStr (iso_local (t_offset env) (t_now env)))
               (fin_py lat) (fin_py lon) PNone (float_py SPEED) (float_py ACCURACY_M) pend db
         | None \<Rightarrow>
             let auto = get_bool db AUTO_ENABLE_LOCATION;
                 pre = (if t_needs_enable env \<noteq> None \<and> auto then [EnabledLocation] else [])
             in if t_needs_enable env = Some ''off'' \<and> \<not> auto then
                  (let (pend', es) = flush_pending db (t_paho env) (t_delivered env) pend in (Inr (), pend', db, es))
                else
                  let fix' = t_fix env; pre' = pre @ [QueriedGps] in
                  if t_stopped env then (Inr (), pend, db, pre')
                  else if \<not> fx_success fix' \<and> gen \<noteq> None \<and> gen \<noteq> Some (t_generation env) then (Inr (), pend, db, pre')
                  else if \<not> fx_success fix' then
                    (let (pend', es) = flush_pending db (t_paho env) (t_delivered env) pend
                     in (Inr (), pend', db, pre' @ es))
                  else
                    (case store_and_publish env own_id (opt_py PStr (fx_utc fix')) (opt_py PStr (fx_local fix'))
                        (opt_py float_py (fx_lat fix')) (opt_py float_py (fx_lon fix')) (opt_py float_py (fx_alt fix'))
                        (opt_py float_py (fx_speed fix')) (opt_py float_py (fx_accuracy fix')) pend db of
                       (r, pend', db', es) \<Rightarrow> (r, pend', db', pre' @ es))))"

text \<open>Several cycles in a row; a save of the settings by the UI may change the database in between.\<close>

fun ticks :: "(tick_env \<times> int option \<times> (database \<Rightarrow> database)) list \<Rightarrow> pending \<Rightarrow> database \<Rightarrow> pending \<times> gps_effect list" where
  "ticks [] pend db = (pend, [])"
| "ticks ((env, gen, change) # ts) pend db =
    (let (_, pend1, db1, es1) = tick env gen pend (change db);
         (pend2, es2) = ticks ts pend1 db1
     in (pend2, es1 @ es2))"

section \<open>Abort predicate, sleep and main loop\<close>

record abort_state =
  a_next :: time
  aborted :: bool

text \<open>\<open>check()\<close>: \<open>stop\<close>, the clock, and the generation read from the table (\<open>Inl\<close> if the read raised).\<close>

definition abort_check :: "int \<Rightarrow> rat \<Rightarrow> bool \<Rightarrow> time \<Rightarrow> exn + int \<Rightarrow> abort_state \<Rightarrow> bool \<times> abort_state" where
  "abort_check gen every_s stop now read a =
    (if stop \<or> aborted a then (True, a)
     else if now < a_next a then (False, a)
     else
      let a1 = a\<lparr>a_next := now + every_s\<rparr>
      in case read of
           Inl _ \<Rightarrow> (False, a1)
         | Inr g \<Rightarrow> if g \<noteq> gen then (True, a1\<lparr>aborted := True\<rparr>) else (False, a1))"

text \<open>
  \<open>_sleep\<close>: each turn gives \<open>_stop\<close>, the generation in the table and the clock; the result is the list
  of waits.
\<close>

fun sleep_loop :: "int \<Rightarrow> time \<Rightarrow> (bool \<times> int \<times> time) list \<Rightarrow> rat list" where
  "sleep_loop gen deadline [] = []"
| "sleep_loop gen deadline ((stop, g, now) # turns) =
    (if stop then []
     else if g \<noteq> gen then []
     else if deadline - now \<le> 0 then []
     else min (deadline - now) HEARTBEAT_INTERVAL_S # sleep_loop gen deadline turns)"

definition IDLE_POLL_SECONDS :: int where "IDLE_POLL_SECONDS = 30"

text \<open>
  One turn of \<open>run\<close>: the heartbeat written, the cycle if the switch is on, and how long to sleep and
  for which generation. An exception is logged, and the loop sleeps and goes on.
\<close>

definition gps_cycle ::
    "tick_env \<Rightarrow> string \<Rightarrow> time \<Rightarrow> pending \<Rightarrow> database \<Rightarrow> pending \<times> database \<times> gps_effect list \<times> int \<times> int option" where
  "gps_cycle env version now pend db =
    (let gen = generation db in
     if get_bool db BACKGROUND_ENABLED then
       (case tick env (Some gen) pend (write_heartbeat ''gps'' ''active'' version (Some gen) now db) of
          (Inl _, pend', db', es) \<Rightarrow> (pend', db', es, IDLE_POLL_SECONDS, None)
        | (Inr _, pend', db', es) \<Rightarrow> (pend', db', es, max 1 (get_int db' GPS_INTERVAL_MIN 15) * 60, Some gen))
     else (pend, write_heartbeat ''gps'' ''idle'' version (Some gen) now db, [], IDLE_POLL_SECONDS, Some gen))"

section \<open>Lemmas\<close>

text \<open>The last fix stored, and whether the effects show what became of it.\<close>

fun last_stored :: "gps_effect list \<Rightarrow> payload option \<Rightarrow> payload option" where
  "last_stored [] acc = acc"
| "last_stored (Stored p # es) acc = last_stored es (Some p)"
| "last_stored (_ # es) acc = last_stored es acc"

lemma last_stored_append: "last_stored (xs @ ys) acc = last_stored ys (last_stored xs acc)"
  by (induction xs acc rule: last_stored.induct) auto

definition settled_payload :: "payload \<Rightarrow> gps_effect list \<Rightarrow> bool" where
  "settled_payload p es \<longleftrightarrow> Delivered p \<in> set es \<or> LocalOnly p \<in> set es \<or> DroppedPending p \<in> set es"

text \<open>What a run keeps: the newest fix is settled or pending, and nothing else is ever pending.\<close>

definition gps_run_inv :: "pending \<Rightarrow> gps_effect list \<Rightarrow> bool" where
  "gps_run_inv pend es \<longleftrightarrow>
     (\<forall>p. last_stored es None = Some p \<longrightarrow> settled_payload p es \<or> (\<exists>i. pend = Some (i, p)))
   \<and> (\<forall>i p. pend = Some (i, p) \<longrightarrow> last_stored es None = Some p)"

lemma gps_publish_cases:
  "gps_publish db paho d p = (True, e) \<Longrightarrow> e \<in> {LocalOnly p, Delivered p}"
  "gps_publish db paho d p = (False, e) \<Longrightarrow> e = NotDelivered p"
  by (auto simp: gps_publish_def split: if_splits)

lemma flush_inv:
  assumes "gps_run_inv pend es" "flush_pending db paho d pend = (pend', es')" "list_all (\<lambda>e. e \<in> {EnabledLocation, QueriedGps}) pre"
  shows "gps_run_inv pend' (es @ pre @ es')"
proof -
  have pre: "last_stored pre acc = acc" for acc using assms(3) by (induction pre) auto
  show ?thesis
  proof (cases pend)
    case None
    with assms(1,2) pre show ?thesis by (auto simp: flush_pending_def gps_run_inv_def last_stored_append settled_payload_def)
  next
    case (Some ip)
    obtain i p where ip: "ip = (i, p)" by (cases ip)
    obtain b e where g: "gps_publish db paho d p = (b, e)" by fastforce
    from assms(2) Some ip g have
      "(pend' = None \<and> (es' = [DroppedPending p] \<or> es' = [LocalOnly p] \<or> es' = [Delivered p]))
       \<or> (pend' = pend \<and> es' = [NotDelivered p])"
      by (cases b) (auto simp: flush_pending_def split: if_splits dest!: gps_publish_cases)
    with assms(1) Some ip pre show ?thesis
      by (auto simp: gps_run_inv_def last_stored_append settled_payload_def)
  qed
qed

lemma store_and_publish_inv:
  assumes "gps_run_inv pend es" "store_and_publish env i tu tl' la lo al sp ac pend db = (r, pend', db', es')"
    and "list_all (\<lambda>e. e \<in> {EnabledLocation, QueriedGps}) pre"
  shows "gps_run_inv pend' (es @ pre @ es')"
proof -
  have pre: "last_stored pre acc = acc" for acc using assms(3) by (induction pre) auto
  let ?p = "location_payload i tu tl' la lo al sp ac (opt_py PInt (t_battery env))"
  obtain rs dbs where st: "store_fix i tu tl' la lo al sp ac (opt_py PInt (t_battery env)) True db = (rs, dbs)" by fastforce
  show ?thesis
  proof (cases rs)
    case (Inl e)
    with st assms pre show ?thesis
      by (auto simp: store_and_publish_def Let_def gps_run_inv_def last_stored_append settled_payload_def)
  next
    case (Inr n)
    obtain b e where g: "gps_publish dbs (t_paho env) (t_delivered env) ?p = (b, e)" by fastforce
    from assms(2) st Inr g have
      "(pend' = None \<and> es' = [Stored ?p, e] \<and> e \<in> {LocalOnly ?p, Delivered ?p})
       \<or> (pend' = Some (i, ?p) \<and> es' = [Stored ?p, NotDelivered ?p])"
      by (cases b) (auto simp: store_and_publish_def publish_new_def Let_def dest!: gps_publish_cases)
    with pre show ?thesis by (auto simp: gps_run_inv_def last_stored_append settled_payload_def)
  qed
qed

lemma gps_run_inv_pre:
  assumes "gps_run_inv pend es" "list_all (\<lambda>e. e \<in> {EnabledLocation, QueriedGps}) pre"
  shows "gps_run_inv pend (es @ pre)"
proof -
  have "last_stored pre acc = acc" for acc using assms(2) by (induction pre) auto
  with assms(1) show ?thesis by (auto simp: gps_run_inv_def last_stored_append settled_payload_def)
qed

lemma tick_inv:
  assumes inv: "gps_run_inv pend es" and t: "tick env gen pend db0 = (r, pend', db', es')"
  shows "gps_run_inv pend' (es @ es')"
proof -
  obtain ro db where o': "own_device_id (t_draws env) (t_stamp env) db0 = (ro, db)" by fastforce
  show ?thesis
  proof (cases "\<exists>own_id. ro = Inr (Some own_id)")
    case False
    then have "pend' = pend \<and> es' = []" using t o' by (auto simp: tick_def split: sum.splits option.splits)
    with inv show ?thesis by simp
  next
    case True
    then obtain own_id where ro: "ro = Inr (Some own_id)" by blast
    show ?thesis
    proof (cases "fst (fixed_get db (t_connman env) None)")
      case (Some c)
      obtain lat lon where "c = (lat, lon)" by (cases c)
      with t o' ro Some show ?thesis
        using store_and_publish_inv [OF inv, of env own_id _ _ _ _ _ _ _ db r pend' db' es' "[]"]
        by (simp add: tick_def)
    next
      case None
      let ?pre = "(if t_needs_enable env \<noteq> None \<and> get_bool db AUTO_ENABLE_LOCATION then [EnabledLocation] else [])"
      have pre: "list_all (\<lambda>e. e \<in> {EnabledLocation, QueriedGps}) (?pre @ [QueriedGps])" by simp
      show ?thesis
      proof (cases "t_needs_enable env = Some ''off'' \<and> \<not> get_bool db AUTO_ENABLE_LOCATION")
        case True
        obtain p2 e2 where f: "flush_pending db (t_paho env) (t_delivered env) pend = (p2, e2)" by fastforce
        with t o' ro None True have "pend' = p2" "es' = e2" by (auto simp: tick_def)
        with flush_inv [OF inv f, of "[]"] show ?thesis by simp
      next
        case on: False
        show ?thesis
        proof (cases "t_stopped env \<or> \<not> fx_success (t_fix env) \<and> gen \<noteq> None \<and> gen \<noteq> Some (t_generation env)")
          case True
          with t o' ro None on have "pend' = pend" "es' = ?pre @ [QueriedGps]"
            by (auto simp: tick_def Let_def split: if_splits)
          with gps_run_inv_pre [OF inv pre] show ?thesis by simp
        next
          case go: False
          show ?thesis
          proof (cases "fx_success (t_fix env)")
            case False
            obtain p2 e2 where f: "flush_pending db (t_paho env) (t_delivered env) pend = (p2, e2)" by fastforce
            with t o' ro None on go False have "pend' = p2" "es' = ?pre @ [QueriedGps] @ e2"
              by (auto simp: tick_def Let_def split: if_splits)
            with flush_inv [OF inv f pre] show ?thesis by simp
          next
            case True
            let ?f = "t_fix env"
            obtain r2 p2 d2 e2 where s: "store_and_publish env own_id (opt_py PStr (fx_utc ?f)) (opt_py PStr (fx_local ?f))
                (opt_py float_py (fx_lat ?f)) (opt_py float_py (fx_lon ?f)) (opt_py float_py (fx_alt ?f))
                (opt_py float_py (fx_speed ?f)) (opt_py float_py (fx_accuracy ?f)) pend db = (r2, p2, d2, e2)"
              using prod_cases4 by blast
            with t o' ro None on go True have "pend' = p2" "es' = ?pre @ [QueriedGps] @ e2"
              by (auto simp: tick_def Let_def split: if_splits)
            with store_and_publish_inv [OF inv s pre] show ?thesis by simp
          qed
        qed
      qed
    qed
  qed
qed

lemma ticks_inv:
  "gps_run_inv pend es \<Longrightarrow> ticks ts pend db = (pend', es') \<Longrightarrow> gps_run_inv pend' (es @ es')"
proof (induction ts arbitrary: pend db es es' pend')
  case Nil
  then show ?case by simp
next
  case (Cons t ts)
  obtain env gen change where t: "t = (env, gen, change)" by (cases t)
  obtain r p1 d1 e1 where k: "tick env gen pend (change db) = (r, p1, d1, e1)" using prod_cases4 by blast
  obtain p2 e2 where ks: "ticks ts p1 d1 = (p2, e2)" by fastforce
  have "gps_run_inv p2 ((es @ e1) @ e2)"
    by (rule Cons.IH [OF tick_inv [OF Cons.prems(1) k] ks])
  with Cons.prems(2) t k ks show ?case by simp
qed

lemma sleep_loop_bounds:
  "w \<in> set (sleep_loop gen deadline turns) \<Longrightarrow> 0 < w \<and> w \<le> 30"
  by (induction turns) (auto simp: HEARTBEAT_INTERVAL_S_def split: if_splits)

lemma sleep_loop_stops:
  assumes "stop \<or> g \<noteq> gen \<or> deadline \<le> now"
  shows "sleep_loop gen deadline (turns @ (stop, g, now) # rest) = sleep_loop gen deadline turns"
proof (induction turns)
  case Nil
  then show ?case using assms by auto
next
  case (Cons t turns)
  then show ?case by (cases t) simp
qed

section \<open>Properties\<close>


definition walk_env :: "bool \<Rightarrow> tick_env" where
  "walk_env ok = \<lparr>t_draws = [], t_stamp = [], t_connman = Inl OSError, t_now = 0, t_offset = 0,
     t_battery = Some 80, t_needs_enable = None,
     t_fix = \<lparr>fx_success = ok, fx_lat = Some 48, fx_lon = Some 11, fx_alt = None, fx_accuracy = Some 5, fx_speed = None,
       fx_utc = Some ''t'', fx_local = None, fx_error = None\<rparr>,
     t_stopped = False, t_generation = 0, t_paho = True, t_delivered = False\<rparr>"

definition walk_db :: database where
  "walk_db = settings_set_many [(MQTT_ENABLED, PBool True), (MQTT_SERVER, PStr ''m'')] first_start_db"

definition walk :: "(tick_env \<times> int option \<times> (database \<Rightarrow> database)) list" where
  "walk = [(walk_env True, Some 0, id), (walk_env False, Some 0, id)]"

definition walk_fix :: payload where
  "walk_fix = location_payload ''aB3dE6gH9k'' (PStr ''t'') PNone (PFloat 48 []) (PFloat 11 []) PNone PNone (PFloat 5 []) (PInt 80)"

lemma walk_run: "ticks walk None walk_db
    = (Some (''aB3dE6gH9k'', walk_fix), [QueriedGps, Stored walk_fix, NotDelivered walk_fix, QueriedGps, NotDelivered walk_fix])"
  by code_simp


text \<open>
  While the phone is connected to the configured WiFi a cycle neither
  queries the GPS nor switches location on, and every fix it stores has the configured coordinates,
  the fixed accuracy and speed.
\<close>
lemma home_wifi_needs_no_gps:
  assumes "own_device_id (t_draws env) (t_stamp env) db0 = (Inr (Some i), db)"
    and "fst (fixed_get db (t_connman env) None) = Some (lat, lon)"
    and "tick env gen pend db0 = (r, pend', db', es)"
  shows "QueriedGps \<notin> set es \<and> EnabledLocation \<notin> set es
    \<and> (\<forall>p. Stored p \<in> set es \<longrightarrow> map_of p ''lat'' = Some (fin_py lat) \<and> map_of p ''lon'' = Some (fin_py lon)
          \<and> map_of p ''accuracy'' = Some (float_py ACCURACY_M) \<and> map_of p ''speed'' = Some (float_py SPEED))
    \<and> (r = Inr () \<longrightarrow> (\<exists>p. Stored p \<in> set es))"
  using assms
  by (auto simp: tick_def store_and_publish_def publish_new_def gps_publish_def location_payload_def Let_def
      split: sum.splits prod.splits if_splits)

definition home_env :: tick_env where
  "home_env = (walk_env True)\<lparr>t_connman := Inr [(''home'', ''wifi'', ''online'')], t_draws := [''aB3dE6gH9k'']\<rparr>"

definition home_db' :: database where
  "home_db' = snd (own_device_id [''aB3dE6gH9k''] [] home_db)"

lemma home_own: "own_device_id (t_draws home_env) (t_stamp home_env) home_db = (Inr (Some ''aB3dE6gH9k''), home_db')"
proof -
  have "fst (own_device_id [''aB3dE6gH9k''] [] home_db) = Inr (Some ''aB3dE6gH9k'')" by code_simp
  then show ?thesis by (simp add: home_db'_def home_env_def walk_env_def prod_eq_iff)
qed

lemma fixed_get_settings_cong: "settings_t db = settings_t db' \<Longrightarrow> fixed_get db q prev = fixed_get db' q prev"
proof -
  assume a: "settings_t db = settings_t db'"
  have "stripped_setting db = stripped_setting db'"
    by (rule ext) (simp add: stripped_setting_def settings_get_def settings_lookup_def a)
  then have "match db = match db'" "fixed_decision db = fixed_decision db'"
    by (auto simp: match_def configured_def fixed_decision_def fun_eq_iff)
  then show ?thesis by (simp add: fixed_get_def)
qed

lemma fixed_get_home': "fst (fixed_get home_db' (t_connman home_env) None) = Some (Fin (97 / 2), Fin 11)"
proof -
  have "settings_t home_db' = settings_t home_db"
    by (auto simp: home_db'_def own_device_id_def ensure_own_device_def insert_device_def write_devices_def
        split: option.splits sum.splits if_splits)
  with fixed_get_home show ?thesis by (simp add: fixed_get_settings_cong [of home_db' home_db] home_env_def)
qed

end
