(* ===== verification/RingControl.thy ===== *)
theory RingControl
  imports Settings
begin

text \<open>
  \<open>daemon-rpm/src/ring_control.py\<close>: the ring, its Settings preview, and the ring's state file, which
  tells the UI process that this device rings. A GStreamer pipeline is a number; whether a file or
  the sine tone can be started, and whether the state file can be written, is an argument. A running
  \<open>threading.Timer\<close> is the time it is due; the sound set is what is in state PLAYING.
\<close>

definition RING_SECONDS :: rat where "RING_SECONDS = 60"

text \<open>
  The text of the state file: what \<open>str(time.time() + duration)\<close> wrote, which \<open>float\<close> reads back as the
  same number, or any other text.
\<close>

datatype ring_file = Stamp time | Text string

record ringer =
  ring_state :: "ring_file option"
  active_stop :: "nat option"
  active_timer :: "time option"
  preview_stop :: "nat option"
  preview_timer :: "time option"
  sounding :: "nat set"
  next_pipeline :: nat

definition silent :: ringer where
  "silent = \<lparr>ring_state = None, active_stop = None, active_timer = None, preview_stop = None, preview_timer = None,
     sounding = {}, next_pipeline = 0\<rparr>"

record ring_env =
  r_now :: time
  plays :: "string \<Rightarrow> bool"
  sine_ok :: bool
  state_writable :: bool

definition write_state :: "ring_env \<Rightarrow> rat \<Rightarrow> ringer \<Rightarrow> ringer" where
  "write_state env duration r =
    (if state_writable env then r\<lparr>ring_state := Some (Stamp (r_now env + duration))\<rparr> else r)"

definition clear_state :: "ringer \<Rightarrow> ringer" where
  "clear_state r = r\<lparr>ring_state := None\<rparr>"

text \<open>\<open>float(text or "0")\<close> of the file: \<open>None\<close> for a \<open>ValueError\<close>.\<close>

definition ring_until :: "ring_file \<Rightarrow> pyfloat option" where
  "ring_until f = (case f of Stamp t \<Rightarrow> Some (Fin t)
     | Text s \<Rightarrow> py_float (if strip s = [] then ''0'' else strip s))"

definition before :: "time \<Rightarrow> pyfloat \<Rightarrow> bool" where
  "before now x = (case x of Fin r \<Rightarrow> now < r | PosInf \<Rightarrow> True | _ \<Rightarrow> False)"

definition is_ringing :: "time \<Rightarrow> ringer \<Rightarrow> bool \<times> ringer" where
  "is_ringing now r =
    (case ring_state r of
       None \<Rightarrow> (False, r)
     | Some f \<Rightarrow>
         (case ring_until f of
            None \<Rightarrow> (False, r)
          | Some u \<Rightarrow> if before now u then (True, r) else (False, clear_state r)))"

text \<open>\<open>_play_file\<close> and \<open>_play_sine\<close>: the new pipeline whose \<open>stop()\<close> is returned.\<close>

definition start_pipeline :: "ringer \<Rightarrow> nat option \<times> ringer" where
  "start_pipeline r = (Some (next_pipeline r),
     r\<lparr>sounding := insert (next_pipeline r) (sounding r), next_pipeline := Suc (next_pipeline r)\<rparr>)"

definition play_file :: "ring_env \<Rightarrow> string \<Rightarrow> ringer \<Rightarrow> nat option \<times> ringer" where
  "play_file env path r = (if path = [] \<or> \<not> plays env path then (None, r) else start_pipeline r)"

definition play_sine :: "ring_env \<Rightarrow> ringer \<Rightarrow> nat option \<times> ringer" where
  "play_sine env r = (if sine_ok env then start_pipeline r else (None, r))"

definition stop_current :: "ringer \<Rightarrow> ringer" where
  "stop_current r =
    (let r1 = (clear_state r)\<lparr>active_timer := None\<rparr>
     in case active_stop r1 of None \<Rightarrow> r1
        | Some p \<Rightarrow> r1\<lparr>sounding := sounding r1 - {p}, active_stop := None\<rparr>)"

definition ring :: "ring_env \<Rightarrow> string \<Rightarrow> rat \<Rightarrow> ringer \<Rightarrow> bool \<times> ringer" where
  "ring env tone duration r0 =
    (let (stop1, r1) = (if tone = [] then (None, stop_current r0) else play_file env tone (stop_current r0));
         (stop2, r2) = (if stop1 = None then play_sine env r1 else (stop1, r1))
     in case stop2 of
          None \<Rightarrow> (False, r2)
        | Some p \<Rightarrow> (True, (write_state env duration (r2\<lparr>active_stop := Some p\<rparr>))\<lparr>active_timer := Some (r_now env + duration)\<rparr>))"

definition stop_preview :: "ringer \<Rightarrow> ringer" where
  "stop_preview r =
    (let r1 = r\<lparr>preview_timer := None\<rparr>
     in case preview_stop r1 of None \<Rightarrow> r1
        | Some p \<Rightarrow> r1\<lparr>sounding := sounding r1 - {p}, preview_stop := None\<rparr>)"

definition preview :: "ring_env \<Rightarrow> string \<Rightarrow> rat \<Rightarrow> ringer \<Rightarrow> bool \<times> ringer" where
  "preview env path duration r0 =
    (case play_file env path (stop_preview r0) of
       (None, r) \<Rightarrow> (False, r)
     | (Some p, r) \<Rightarrow> (True, r\<lparr>preview_stop := Some p, preview_timer := Some (r_now env + duration)\<rparr>))"

text \<open>A timer fires once it is due, and calls its function.\<close>

datatype ring_event =
    Ring ring_env string
  | StopRing
  | Preview ring_env string
  | StopPreview
  | Poll time
  | TimerDue time

fun ring_step :: "ringer \<Rightarrow> ring_event \<Rightarrow> ringer" where
  "ring_step r (Ring env tone) = snd (ring env tone RING_SECONDS r)"
| "ring_step r StopRing = stop_current r"
| "ring_step r (Preview env path) = snd (preview env path 6 r)"
| "ring_step r StopPreview = stop_preview r"
| "ring_step r (Poll now) = snd (is_ringing now r)"
| "ring_step r (TimerDue now) =
    (let r1 = (case active_timer r of Some d \<Rightarrow> if d \<le> now then stop_current r else r | None \<Rightarrow> r)
     in case preview_timer r1 of Some d \<Rightarrow> if d \<le> now then stop_preview r1 else r1 | None \<Rightarrow> r1)"

section \<open>Lemmas\<close>

text \<open>Nothing sounds that a slot does not hold, the slots are apart, and a filled slot has its timer.\<close>

definition ring_inv :: "ringer \<Rightarrow> bool" where
  "ring_inv r \<longleftrightarrow> sounding r = set_option (active_stop r) \<union> set_option (preview_stop r)
     \<and> (\<forall>p\<in>sounding r. p < next_pipeline r)
     \<and> (active_stop r = None \<or> active_stop r \<noteq> preview_stop r)
     \<and> (active_stop r \<noteq> None \<longleftrightarrow> active_timer r \<noteq> None)
     \<and> (preview_stop r \<noteq> None \<longleftrightarrow> preview_timer r \<noteq> None)"

lemma ring_inv_silent: "ring_inv silent"
  by (simp add: ring_inv_def silent_def)

lemma stop_current_inv: "ring_inv r \<Longrightarrow> ring_inv (stop_current r)"
  by (auto simp: ring_inv_def stop_current_def clear_state_def split: option.splits)

lemma stop_current_slots [simp]:
  "active_stop (stop_current r) = None" "active_timer (stop_current r) = None"
  "preview_stop (stop_current r) = preview_stop r" "preview_timer (stop_current r) = preview_timer r"
  "ring_state (stop_current r) = None" "next_pipeline (stop_current r) = next_pipeline r"
  by (simp_all add: stop_current_def clear_state_def Let_def split: option.splits)

lemma stop_preview_inv: "ring_inv r \<Longrightarrow> ring_inv (stop_preview r)"
  by (auto simp: ring_inv_def stop_preview_def split: option.splits)

lemma stop_preview_slots [simp]:
  "preview_stop (stop_preview r) = None" "preview_timer (stop_preview r) = None"
  "active_stop (stop_preview r) = active_stop r" "active_timer (stop_preview r) = active_timer r"
  by (simp_all add: stop_preview_def Let_def split: option.splits)

lemma is_ringing_inv: "ring_inv r \<Longrightarrow> ring_inv (snd (is_ringing now r))"
  by (auto simp: ring_inv_def is_ringing_def clear_state_def split: option.splits)

lemma ring_cases:
  "ring env tone duration r0 = (False, stop_current r0)
   \<or> ring env tone duration r0 =
      (True, (write_state env duration
         ((stop_current r0)\<lparr>sounding := insert (next_pipeline r0) (sounding (stop_current r0)),
                            next_pipeline := Suc (next_pipeline r0),
                            active_stop := Some (next_pipeline r0)\<rparr>))\<lparr>active_timer := Some (r_now env + duration)\<rparr>)"
  by (simp add: ring_def play_file_def play_sine_def start_pipeline_def Let_def)

lemma started_inv:
  assumes "ring_inv r" "active_stop r = None"
  shows "ring_inv ((write_state env duration
         (r\<lparr>sounding := insert (next_pipeline r) (sounding r), next_pipeline := Suc (next_pipeline r),
            active_stop := Some (next_pipeline r)\<rparr>))\<lparr>active_timer := Some t\<rparr>)"
  using assms by (auto simp: ring_inv_def write_state_def)

lemma ring_ring_inv: "ring_inv r \<Longrightarrow> ring_inv (snd (ring env tone duration r))"
  using ring_cases [of env tone duration r] started_inv [OF stop_current_inv, where env = env and duration = duration and t = "r_now env + duration", of r]
    stop_current_inv [of r]
  by auto

lemma preview_inv: "ring_inv r \<Longrightarrow> ring_inv (snd (preview env path duration r))"
  using stop_preview_inv [of r]
  by (auto simp: preview_def play_file_def start_pipeline_def ring_inv_def)

lemma ring_step_inv: "ring_inv r \<Longrightarrow> ring_inv (ring_step r e)"
  by (cases e) (auto simp: ring_ring_inv stop_current_inv preview_inv stop_preview_inv is_ringing_inv Let_def
      split: option.splits)

interpretation ring_sys: event_system "\<lambda>r. r = silent" ring_step ring_inv
  by unfold_locales (simp_all add: ring_inv_silent ring_step_inv)

section \<open>Properties\<close>

text \<open>
  C40. \<open>ring_bounded_and_stoppable\<close>: after any sequence of rings, stops, previews, polls and timer
  firings, a ring that starts replaces the ring before it: besides a preview it is the only sound,
  its timer is due after 60 seconds, the UI sees it as ringing until then (the state file being
  writable), and both the stop and the timer silence it and end that report.
\<close>
theorem ring_bounded_and_stoppable:
  assumes "ring env tone RING_SECONDS (run_events ring_step silent es) = (True, r)" "state_writable env"
  shows "(\<exists>p. active_stop r = Some p \<and> sounding r = {p} \<union> set_option (preview_stop r) \<and> preview_stop r \<noteq> Some p)
    \<and> active_timer r = Some (r_now env + 60)
    \<and> (fst (is_ringing now r) \<longleftrightarrow> now < r_now env + 60)
    \<and> sounding (stop_current r) = set_option (preview_stop r)
    \<and> \<not> fst (is_ringing now (stop_current r))
    \<and> (r_now env + 60 \<le> due \<longrightarrow> sounding (ring_step r (TimerDue due)) \<subseteq> set_option (preview_stop r))"
proof -
  let ?r0 = "run_events ring_step silent es"
  have i0: "ring_inv ?r0" by (rule ring_sys.run_inv) (rule ring_inv_silent)
  have inv: "ring_inv r" using ring_ring_inv [OF i0, of env tone RING_SECONDS] assms(1) by simp
  have r: "active_stop r = Some (next_pipeline ?r0)" "active_timer r = Some (r_now env + 60)"
    "ring_state r = Some (Stamp (r_now env + 60))"
    using ring_cases [of env tone RING_SECONDS ?r0] assms by (auto simp: write_state_def RING_SECONDS_def)
  have s: "sounding r = {next_pipeline ?r0} \<union> set_option (preview_stop r)" "preview_stop r \<noteq> Some (next_pipeline ?r0)"
    using inv r(1) by (auto simp: ring_inv_def)
  have stopped: "sounding (stop_current r) = set_option (preview_stop r)"
    using stop_current_inv [OF inv] by (auto simp: ring_inv_def)
  have due: "sounding (ring_step r (TimerDue due)) \<subseteq> set_option (preview_stop r)" if "r_now env + 60 \<le> due"
    using stopped r(2) that by (auto simp: Let_def stop_preview_def split: option.splits)
  show ?thesis
    using r s stopped due by (auto simp: is_ringing_def ring_until_def before_def)
qed

definition ring_example_env :: ring_env where
  "ring_example_env = \<lparr>r_now = 100, plays = (\<lambda>p. p = ''/tone.ogg''), sine_ok = True, state_writable = True\<rparr>"

theorem ring_bounded_and_stoppable_witness:
  "sounding (stop_current (snd (ring ring_example_env ''/none.ogg'' RING_SECONDS
      (run_events ring_step silent [Ring ring_example_env ''/tone.ogg''])))) = {}"
  using ring_bounded_and_stoppable [of ring_example_env "''/none.ogg''" "[Ring ring_example_env ''/tone.ogg'']"
      "snd (ring ring_example_env ''/none.ogg'' RING_SECONDS (run_events ring_step silent [Ring ring_example_env ''/tone.ogg'']))"
      0 0]
  by (simp add: ring_def play_file_def play_sine_def start_pipeline_def ring_example_env_def write_state_def Let_def
      silent_def stop_current_def clear_state_def)

end
