(* ===== verification/LockControl.thy ===== *)
theory LockControl
  imports Prelude
begin

text \<open>
  \<open>daemon-rpm/src/lock_control.py\<close>: locking the device. What each D-Bus call answers is an argument;
  the calls made are returned in order.
\<close>

definition STATE_UNLOCKED :: int where "STATE_UNLOCKED = 0"
definition STATE_LOCKED :: int where "STATE_LOCKED = 1"

datatype lock_call = SetState int | ReadState | TklockMode string | DisplayOff

record lock_env =
  set_state :: bool
  read_lock :: "exn + int"
  tklock :: bool
  display_off :: bool

definition get_state :: "lock_env \<Rightarrow> int option" where
  "get_state env = (case read_lock env of Inl _ \<Rightarrow> None | Inr s \<Rightarrow> Some s)"

definition is_security_code_set :: "exn + bool \<Rightarrow> bool option" where
  "is_security_code_set r = (case r of Inl _ \<Rightarrow> None | Inr b \<Rightarrow> Some b)"

definition lock_secure :: "lock_env \<Rightarrow> bool \<times> lock_call list" where
  "lock_secure env =
    (if set_state env then (get_state env = Some STATE_LOCKED \<or> get_state env = None, [SetState STATE_LOCKED, ReadState])
     else (False, [SetState STATE_LOCKED]))"

definition lock_screen :: "lock_env \<Rightarrow> bool \<times> lock_call list" where
  "lock_screen env =
    (if tklock env then (True, [TklockMode ''locked'', DisplayOff]) else (False, [TklockMode ''locked'']))"

definition lock :: "bool \<Rightarrow> lock_env \<Rightarrow> string \<times> lock_call list" where
  "lock prefer_secure env =
    (let (sec, c1) = (if prefer_secure then lock_secure env else (False, []))
     in if sec then (''secure'', c1)
        else let (scr, c2) = lock_screen env in (if scr then ''screen'' else [], c1 @ c2))"

definition unlock_for_testing :: "lock_env \<Rightarrow> bool" where
  "unlock_for_testing env \<longleftrightarrow> set_state env \<or> tklock env"

lemma lock_nonempty_iff: "fst (lock prefer env) \<noteq> [] \<longleftrightarrow> prefer \<and> fst (lock_secure env) \<or> tklock env"
  by (auto simp: lock_def lock_screen_def split: prod.splits)

lemma lock_secure_first: "fst (lock True env) = ''secure'' \<longleftrightarrow> set_state env \<and> (\<forall>s. read_lock env = Inr s \<longrightarrow> s = 1)"
  by (auto simp: lock_def lock_secure_def lock_screen_def get_state_def STATE_LOCKED_def split: prod.splits sum.splits if_splits)

text \<open>A lock reported as failed was asked for in both ways.\<close>

lemma lock_failed_tried_both:
  "fst (lock True env) = [] \<Longrightarrow> SetState 1 \<in> set (snd (lock True env)) \<and> TklockMode ''locked'' \<in> set (snd (lock True env))"
  by (auto simp: lock_def lock_secure_def lock_screen_def STATE_LOCKED_def split: prod.splits if_splits)

end
