(* ===== verification/Camera.thy ===== *)
theory Camera
  imports GpsReader
begin

text \<open>
  \<open>daemon-rpm/src/camera_capture.py\<close>: the file name of a photo, the choice of the still resolution,
  the state machine of one capture (the closures of \<open>capture_to_file\<close>, driven by GLib), and the
  WebDAV upload. GStreamer and \<open>urllib\<close> are the environment: what they report are events and
  arguments.
\<close>

section \<open>File name and resolution\<close>

definition build_filename :: "string \<Rightarrow> string \<Rightarrow> int \<Rightarrow> time \<Rightarrow> string" where
  "build_filename device_id which offset now =
    (let t = \<lfloor>now\<rfloor> + offset; (y, mo, d) = civil_from_days (t div 86400); s = t mod 86400
     in device_id @ ''_'' @ dec_int y @ pad2 mo @ pad2 d @ ''_'' @ pad2 (s div 3600) @ pad2 (s mod 3600 div 60)
        @ pad2 (s mod 60) @ ''_'' @ which @ ''.jpg'')"

text \<open>
  A field of a caps structure: \<open>get_int\<close> succeeds, or \<open>get_value\<close> gives a sequence whose members
  \<open>int()\<close> may refuse, or an object with some of the attributes \<open>stop\<close>, \<open>high\<close>, \<open>end\<close>, or reading it raises.
\<close>

datatype caps_field =
    IntField int
  | Sequence "int option list"
  | Bounds "int option" "int option" "int option"
  | Unreadable

definition first_some :: "'a option list \<Rightarrow> 'a option" where
  "first_some xs = Option.bind (find (\<lambda>x. x \<noteq> None) xs) id"

definition max_dim :: "caps_field \<Rightarrow> int option" where
  "max_dim f = (case f of
       IntField v \<Rightarrow> Some v
     | Sequence xs \<Rightarrow> if xs = [] \<or> None \<in> set xs then None else Some (Max (set (map the xs)))
     | Bounds a b c \<Rightarrow> first_some [a, b, c]
     | Unreadable \<Rightarrow> None)"

type_synonym caps_structure = "string \<times> caps_field \<times> caps_field"

definition consider_caps :: "caps_structure \<Rightarrow> (string \<times> int \<times> int) option \<Rightarrow> (string \<times> int \<times> int) option" where
  "consider_caps s best =
    (case s of (name, wi, he) \<Rightarrow>
      (case (max_dim wi, max_dim he) of
         (Some w, Some h) \<Rightarrow>
           if w \<noteq> 0 \<and> h \<noteq> 0 \<and> (case best of None \<Rightarrow> True | Some (_, bw, bh) \<Rightarrow> bw * bh < w * h)
           then Some (name, w, h) else best
       | _ \<Rightarrow> best))"

definition pick_capture_caps :: "caps_structure list option \<Rightarrow> int \<Rightarrow> int \<Rightarrow> (string \<times> int \<times> int) option" where
  "pick_capture_caps supported want_w want_h =
    (if want_w \<noteq> 0 \<and> want_h \<noteq> 0 then Some (''image/jpeg'', want_w, want_h)
     else case supported of None \<Rightarrow> None
       | Some ss \<Rightarrow> if ss = [] then None else fold consider_caps ss None)"

section \<open>One capture\<close>

record capture =
  triggered :: bool
  captured :: nat
  cap_error :: "string option"
  ready_seen :: bool
  vf :: nat
  ready_at :: time
  shots :: nat                \<comment> \<open>\<open>start-capture\<close> signals emitted\<close>
  polling :: nat              \<comment> \<open>\<open>maybe_capture\<close> timers\<close>
  flushing :: nat             \<comment> \<open>\<open>loop.quit\<close> timers\<close>
  left :: bool                \<comment> \<open>\<open>loop.quit()\<close> was called\<close>

definition new_capture :: capture where
  "new_capture = \<lparr>triggered = False, captured = 0, cap_error = None, ready_seen = False, vf = 0, ready_at = 0,
     shots = 0, polling = 0, flushing = 0, left = False\<rparr>"

definition MIN_PREVIEW_FRAMES :: nat where "MIN_PREVIEW_FRAMES = 15"
definition WARMUP_EXTRA :: rat where "WARMUP_EXTRA = 1"
definition MAX_WARMUP :: rat where "MAX_WARMUP = 6"

datatype capture_event =
    PreviewBuffer
  | ReadyChanged bool time
  | PollTimer time bool         \<comment> \<open>whether \<open>emit("start-capture")\<close> is accepted\<close>
  | ImageBuffer
  | FlushTimer
  | BusError string
  | BusEos
  | CaptureTimeout

definition do_capture :: "bool \<Rightarrow> capture \<Rightarrow> capture" where
  "do_capture emit_ok c =
    (if triggered c then c
     else let c1 = c\<lparr>triggered := True\<rparr>
          in if emit_ok then c1\<lparr>shots := Suc (shots c1)\<rparr>
             else c1\<lparr>cap_error := Some ''start-capture signal unavailable'', left := True\<rparr>)"

text \<open>\<open>maybe_capture\<close>; returning False removes the timer.\<close>

definition maybe_capture :: "time \<Rightarrow> bool \<Rightarrow> capture \<Rightarrow> capture" where
  "maybe_capture now emit_ok c =
    (if triggered c then c\<lparr>polling := polling c - 1\<rparr>
     else if (MIN_PREVIEW_FRAMES \<le> vf c \<and> WARMUP_EXTRA \<le> now - ready_at c) \<or> MAX_WARMUP \<le> now - ready_at c
     then (do_capture emit_ok c)\<lparr>polling := polling c - 1\<rparr>
     else c)"

definition on_ready :: "bool \<Rightarrow> time \<Rightarrow> capture \<Rightarrow> capture" where
  "on_ready is_ready now c =
    (if \<not> (is_ready \<and> \<not> ready_seen c) then c
     else c\<lparr>ready_seen := True, ready_at := now, polling := Suc (polling c)\<rparr>)"

definition on_timeout :: "capture \<Rightarrow> capture" where
  "on_timeout c =
    (if captured c = 0
     then c\<lparr>cap_error := (case cap_error c of
               None \<Rightarrow> Some (''timeout (vf_frames='' @ dec_nat (vf c) @ '')'')
             | Some e \<Rightarrow> if e = [] then Some (''timeout (vf_frames='' @ dec_nat (vf c) @ '')'') else Some e),
            left := True\<rparr>
     else c)"

text \<open>Once the loop is left no handler runs any more, except the buffer probes of the streaming threads.\<close>

fun capture_step :: "capture \<Rightarrow> capture_event \<Rightarrow> capture" where
  "capture_step c PreviewBuffer = c\<lparr>vf := Suc (vf c)\<rparr>"
| "capture_step c (ReadyChanged r now) = (if left c then c else on_ready r now c)"
| "capture_step c (PollTimer now ok) = (if left c \<or> polling c = 0 then c else maybe_capture now ok c)"
| "capture_step c ImageBuffer = c\<lparr>captured := Suc (captured c), flushing := Suc (flushing c)\<rparr>"
| "capture_step c FlushTimer = (if left c \<or> flushing c = 0 then c else c\<lparr>flushing := flushing c - 1, left := True\<rparr>)"
| "capture_step c (BusError e) = (if left c then c else c\<lparr>cap_error := Some e, left := True\<rparr>)"
| "capture_step c BusEos = (if left c then c else c\<lparr>left := True\<rparr>)"
| "capture_step c CaptureTimeout = (if left c then c else on_timeout c)"

definition capture_success :: "capture \<Rightarrow> nat \<Rightarrow> bool" where
  "capture_success c bytes \<longleftrightarrow> cap_error c = None \<and> 0 < captured c \<and> 0 < bytes"

text \<open>\<open>_start_pipeline\<close>: the state changes asked for, until one fails, then the bus messages.\<close>

fun start_targets :: "(string \<times> bool) list \<Rightarrow> (bool \<times> string) list \<Rightarrow> string option" where
  "start_targets [] msgs =
    (let errs = map snd (filter fst msgs)
     in if errs = [] then None else Some (''error while starting: '' @ join ''; '' errs))"
| "start_targets ((target, ok) # ts) msgs =
    (if ok then start_targets ts msgs
     else Some (''could not set '' @ upper target @ '': ''
        @ (let d = join ''; '' (map snd msgs) in if d = [] then ''no bus message'' else d)))"

definition start_pipeline_error :: "bool \<Rightarrow> bool \<Rightarrow> bool \<Rightarrow> (bool \<times> string) list \<Rightarrow> string option" where
  "start_pipeline_error ready paused playing msgs =
     start_targets [(''ready'', ready), (''paused'', paused), (''playing'', playing)] msgs"

section \<open>Upload\<close>

text \<open>
  The local file cannot be read, the URL is refused by \<open>Request\<close>, the server answers with a status,
  or \<open>urlopen\<close> raises (an HTTP error, no connection, or anything else).
\<close>

datatype upload_outcome = NoFile | BadUrl | Status int | UrlopenRaises

definition upload_webdav :: "upload_outcome \<Rightarrow> exn + bool" where
  "upload_webdav oc = (case oc of
       NoFile \<Rightarrow> Inl OSError
     | BadUrl \<Rightarrow> Inl ValueError
     | Status s \<Rightarrow> Inr (200 \<le> s \<and> s < 300)
     | UrlopenRaises \<Rightarrow> Inr False)"

section \<open>Lemmas\<close>

lemma max_dim_sequence: "max_dim (Sequence (map Some (x # xs))) = Some (Max (set (x # xs)))"
  by (simp add: max_dim_def image_image)

text \<open>The resolution chosen has the largest area of the usable ones, and is one of them.\<close>

definition usable_caps :: "caps_structure list \<Rightarrow> (string \<times> int \<times> int) set" where
  "usable_caps ss = {(n, w, h). \<exists>wi he. (n, wi, he) \<in> set ss \<and> max_dim wi = Some w \<and> max_dim he = Some h \<and> w \<noteq> 0 \<and> h \<noteq> 0}"

lemma consider_caps_max:
  assumes "best \<noteq> None \<Longrightarrow> the best \<in> usable_caps seen"
    and "\<And>n w h. (n, w, h) \<in> usable_caps seen \<Longrightarrow> \<exists>n' w' h'. best = Some (n', w', h') \<and> w * h \<le> w' * h'"
  shows "(consider_caps s best \<noteq> None \<longrightarrow> the (consider_caps s best) \<in> usable_caps (s # seen))
    \<and> (\<forall>n w h. (n, w, h) \<in> usable_caps (s # seen) \<longrightarrow>
          (\<exists>n' w' h'. consider_caps s best = Some (n', w', h') \<and> w * h \<le> w' * h'))"
proof -
  obtain name wi he where s: "s = (name, wi, he)" by (cases s)
  have mono: "usable_caps seen \<subseteq> usable_caps (s # seen)" by (auto simp: usable_caps_def)
  have split: "usable_caps (s # seen) = usable_caps seen \<union> usable_caps [s]" by (auto simp: usable_caps_def)
  show ?thesis
  proof (cases "usable_caps [s] = {}")
    case True
    then have "consider_caps s best = best"
      by (auto simp: s consider_caps_def usable_caps_def split: option.splits)
    with True split assms show ?thesis by auto
  next
    case False
    then obtain w h where u: "max_dim wi = Some w" "max_dim he = Some h" "w \<noteq> 0" "h \<noteq> 0"
      by (auto simp: s usable_caps_def)
    then have us: "usable_caps [s] = {(name, w, h)}" by (auto simp: s usable_caps_def)
    show ?thesis
    proof (cases best)
      case None
      have "usable_caps seen = {}"
      proof (rule ccontr)
        assume "usable_caps seen \<noteq> {}"
        then obtain n w h where "(n, w, h) \<in> usable_caps seen" by (metis ex_in_conv prod_cases3)
        from assms(2) [OF this] None show False by simp
      qed
      with None u split us show ?thesis by (simp add: s consider_caps_def)
    next
      case (Some b)
      obtain bn bw bh where b: "b = (bn, bw, bh)" by (cases b)
      have le: "w' * h' \<le> bw * bh" if "(n, w', h') \<in> usable_caps seen" for n w' h'
        using assms(2) [OF that] Some b by auto
      have bu: "(bn, bw, bh) \<in> usable_caps seen" using assms(1) Some b by simp
      show ?thesis
        using le bu u split us Some b
        by (auto simp: s consider_caps_def) (force dest: le)+
    qed
  qed
qed


lemma fold_consider_caps_max:
  assumes "best \<noteq> None \<Longrightarrow> the best \<in> usable_caps seen"
    and "\<And>n w h. (n, w, h) \<in> usable_caps seen \<Longrightarrow> \<exists>n' w' h'. best = Some (n', w', h') \<and> w * h \<le> w' * h'"
  shows "(fold consider_caps ss best \<noteq> None \<longrightarrow> the (fold consider_caps ss best) \<in> usable_caps (rev ss @ seen))
    \<and> (\<forall>n w h. (n, w, h) \<in> usable_caps (rev ss @ seen) \<longrightarrow>
          (\<exists>n' w' h'. fold consider_caps ss best = Some (n', w', h') \<and> w * h \<le> w' * h'))"
  using assms
proof (induction ss arbitrary: best seen)
  case Nil
  then show ?case by auto
next
  case (Cons s ss)
  note st = consider_caps_max [OF Cons.prems, where s = s]
  show ?case using Cons.IH [of "consider_caps s best" "s # seen"] st by simp
qed

lemma pick_capture_caps_largest:
  assumes "pick_capture_caps (Some ss) 0 0 = Some (n, w, h)"
  shows "(n, w, h) \<in> usable_caps ss \<and> (\<forall>n' w' h'. (n', w', h') \<in> usable_caps ss \<longrightarrow> w' * h' \<le> w * h)"
proof -
  have f: "fold consider_caps ss None = Some (n, w, h)" using assms by (simp add: pick_capture_caps_def split: if_splits)
  have e: "usable_caps (rev ss) = usable_caps ss" "usable_caps [] = {}" by (auto simp: usable_caps_def)
  from fold_consider_caps_max [of None "[]" ss] show ?thesis by (simp add: f e)
qed

text \<open>
  What every capture keeps: at most one shot, and only after the camera was ready; an image leaves
  the loop or has its flush timer.
\<close>

definition capture_inv :: "capture \<Rightarrow> bool" where
  "capture_inv c \<longleftrightarrow> shots c \<le> 1 \<and> (triggered c \<or> shots c = 0) \<and> (triggered c \<longrightarrow> ready_seen c)
     \<and> (0 < polling c \<longrightarrow> ready_seen c) \<and> (0 < captured c \<longrightarrow> left c \<or> 0 < flushing c)"

lemma capture_inv_new: "capture_inv new_capture"
  by (simp add: capture_inv_def new_capture_def)

lemma on_ready_inv: "capture_inv c \<Longrightarrow> capture_inv (on_ready r now c)"
  by (simp add: capture_inv_def on_ready_def)

lemma do_capture_inv: "capture_inv c \<Longrightarrow> ready_seen c \<Longrightarrow> capture_inv (do_capture ok c)"
  by (auto simp: capture_inv_def do_capture_def Let_def)

lemma polling_less_inv: "capture_inv c \<Longrightarrow> capture_inv (c\<lparr>polling := polling c' - 1\<rparr>) \<or> 0 < polling c' - 1 \<and> \<not> ready_seen c"
  by (auto simp: capture_inv_def)

lemma maybe_capture_inv:
  assumes inv: "capture_inv c" and p: "0 < polling c"
  shows "capture_inv (maybe_capture now ok c)"
proof -
  have r: "ready_seen c" "ready_seen (do_capture ok c)" using assms by (simp_all add: capture_inv_def do_capture_def Let_def)
  show ?thesis
    using inv polling_less_inv [OF inv, of c] polling_less_inv [OF do_capture_inv [OF inv r(1)], of c ok] r
    by (auto simp: maybe_capture_def)
qed

lemma on_timeout_inv: "capture_inv c \<Longrightarrow> capture_inv (on_timeout c)"
  by (simp add: capture_inv_def on_timeout_def)

lemma capture_step_inv: "capture_inv c \<Longrightarrow> capture_inv (capture_step c e)"
proof (cases e)
  case (PollTimer now ok)
  then show "capture_inv c \<Longrightarrow> ?thesis" by (simp add: maybe_capture_inv)
qed (simp_all add: on_ready_inv on_timeout_inv, simp_all add: capture_inv_def)

interpretation capture_sys: event_system "\<lambda>c. c = new_capture" capture_step capture_inv
  by unfold_locales (simp_all add: capture_inv_new capture_step_inv)

text \<open>The image probe alone raises \<open>captured\<close>.\<close>

lemma captured_count: "captured (run_events capture_step c es) = captured c + count_list es ImageBuffer"
proof (induction es arbitrary: c)
  case (Cons e es)
  have "captured (capture_step c e) = captured c + (if e = ImageBuffer then 1 else 0)"
    by (cases e) (auto simp: on_ready_def maybe_capture_def do_capture_def on_timeout_def Let_def)
  with Cons show ?case by simp
qed simp

section \<open>Properties\<close>



end
