(* ===== verification/CmdExec.thy ===== *)
theory CmdExec
  imports GpsDaemon RingControl LockControl Camera SmsSender
begin

text \<open>
  \<open>daemon-rpm/src/daemon_cmd.py\<close>, first part: the command executor and its worker. A command works on
  the executor's state (the database, the ring, the photo directories, its own fields) and returns the
  result or the exception, the new state, and what it did to the outside as a list of effects. What
  the outside answers during one job is the record \<open>cmd_env\<close>. The file names in \<open>photos/\<close> and
  \<open>photos/pending/\<close> are sets.
\<close>

definition FEATURE_KEY :: "(string \<times> string) list" where
  "FEATURE_KEY = [(''RING'', RING_ENABLED), (''STOP_RING'', RING_ENABLED), (''LOCK'', LOCK_ENABLED),
     (''DELETE'', DELETE_ENABLED), (''CAMERA'', CAMERA_ENABLED), (''GPS'', SMS_GPS_ENABLED)]"

definition UPLOAD_RETRY_SECONDS :: rat where "UPLOAD_RETRY_SECONDS = 300"

datatype cmd_effect =
    Notified string
  | LockCalls "lock_call list"
  | LocationOn
  | SentLocation GpsDaemon.payload
  | SmsReply string pyval pyval pyval pyval
  | Captured string
  | Uploaded string
  | Wiped string
  | RebootQueued
  | AckSent string string bool
  | OneShot GpsDaemon.payload bool

record executor =
  ex_db :: database
  ex_ringer :: ringer
  ex_mqtt :: bool
  ex_own :: string
  ex_reason :: "string option"
  upload_retry_at :: time
  upload_job_queued :: bool
  pending_dir :: "string set"
  photos_dir :: "string set"

record cmd_env =
  c_now :: time
  c_offset :: int
  c_draws :: "string list"
  c_stamp :: string
  c_ring :: ring_env
  c_lock :: lock_env
  c_connman :: "exn + connman_service list"
  c_needs :: "string option"
  c_import :: bool                    \<comment> \<open>\<open>import gps_reader\<close> works\<close>
  c_fix :: "exn + fix_result"
  c_battery :: "int option"
  c_note :: "string option"           \<comment> \<open>\<open>md.note\<close> of the mobile data session\<close>
  c_published :: bool
  c_sms :: bool
  c_capture :: "bool \<times> string option"
  c_upload :: "string \<Rightarrow> upload_outcome"
  c_online :: bool
  c_net_state :: string
  c_park :: bool                      \<comment> \<open>the rename into \<open>pending/\<close> works\<close>
  c_move :: "string \<Rightarrow> bool"          \<comment> \<open>the rename out of \<open>pending/\<close> works\<close>
  c_remove :: "string \<Rightarrow> bool"
  c_home :: string
  c_wipes :: bool                     \<comment> \<open>\<open>find -delete\<close> removed everything\<close>
  c_reboot :: bool
  c_paho :: bool

type_synonym 'a cmd = "executor \<Rightarrow> (exn + 'a) \<times> executor \<times> cmd_effect list"

section \<open>Helpers\<close>

definition fmt_accuracy :: "rat option \<Rightarrow> string" where
  "fmt_accuracy acc = (case acc of None \<Rightarrow> ''accuracy unknown''
     | Some a \<Rightarrow> ''+/-'' @ dec_int (round_half_even a) @ '' m'')"

definition shorten :: "string option \<Rightarrow> string" where
  "shorten text =
    (let t = (case text of None \<Rightarrow> ''unknown error'' | Some s \<Rightarrow> if s = [] then ''unknown error'' else s)
     in if length t \<le> 80 then t else take 77 t @ ''...'')"

definition newline :: string where "newline = [char_of (10::nat)]"

definition own_pin :: "executor \<Rightarrow> string option" where
  "own_pin ex = Option.bind (get_own (ex_db ex)) pin"

definition feature_enabled :: "executor \<Rightarrow> string \<Rightarrow> bool" where
  "feature_enabled ex cmd = (case map_of FEATURE_KEY cmd of None \<Rightarrow> False | Some k \<Rightarrow> get_bool (ex_db ex) k)"

definition with_source :: "GpsDaemon.payload \<Rightarrow> string \<Rightarrow> GpsDaemon.payload" where
  "with_source p s = p @ [(''source'', PStr s)]"

definition row_payload :: "string \<Rightarrow> gps_row \<Rightarrow> GpsDaemon.payload" where
  "row_payload own_id g = location_payload own_id (g_ts_utc g) (g_ts_local g) (g_lat g) (g_lon g) (g_alt g)
     (g_speed g) (g_accuracy g) (g_battery g)"

section \<open>RING, LOCK\<close>

definition do_ring :: "cmd_env \<Rightarrow> string cmd" where
  "do_ring env ex =
    (let (ok, r) = ring (c_ring env) (str_opt (settings_get (ex_db ex) RING_TONE None)) RING_SECONDS (ex_ringer ex)
     in (Inr (if ok then ''ok'' else ''error''), ex\<lparr>ex_ringer := r\<rparr>, [Notified ''RING activated remotely'']))"

definition do_stop_ring :: "string cmd" where
  "do_stop_ring ex = (Inr ''ok'', ex\<lparr>ex_ringer := stop_current (ex_ringer ex)\<rparr>, [Notified ''RING stopped remotely''])"

definition do_lock :: "cmd_env \<Rightarrow> string cmd" where
  "do_lock env ex =
    (let (res, calls) = lock True (c_lock env)
     in (Inr (if res \<noteq> [] then ''ok'' else ''error''), ex,
         [LockCalls calls, Notified (''Device locked remotely ('' @ (if res = [] then ''failed'' else res) @ '')'')]))"

section \<open>GPS\<close>

text \<open>Whether to ask for a fix, the note about location services, and switching location on.\<close>

definition gps_plan :: "cmd_env \<Rightarrow> database \<Rightarrow> bool \<Rightarrow> bool \<times> string option \<times> cmd_effect list" where
  "gps_plan env db fixed =
    (case (if fixed then None else c_needs env) of
       None \<Rightarrow> (\<not> fixed, None, [])
     | Some why \<Rightarrow>
        if get_bool db AUTO_ENABLE_LOCATION then
          (True, Some (if why = ''off'' then ''Location services were off, enabled automatically''
                       else ''GPS positioning was off, enabled automatically''), [LocationOn])
        else if why = ''off'' then
          (False, Some ''Location services are off (auto-enable not allowed in Settings)'', [])
        else (True, None, []))"

definition gps_read :: "cmd_env \<Rightarrow> bool \<Rightarrow> fix_result option \<times> int option" where
  "gps_read env try_fix =
    (if \<not> c_import env then (None, None)
     else if \<not> try_fix then (None, c_battery env)
     else case c_fix env of Inl _ \<Rightarrow> (None, None) | Inr f \<Rightarrow> (Some f, c_battery env))"

record gps_answer =
  an_lat :: pyval
  an_lon :: pyval
  an_fix_dt :: pyval
  an_payload :: "GpsDaemon.payload option"
  an_msg :: string

text \<open>The position: the fixed one, the fix, the last one stored, or none; the first two are stored.\<close>

definition gps_answer :: "cmd_env \<Rightarrow> (pyfloat \<times> pyfloat) option \<Rightarrow> fix_result option \<Rightarrow> int option \<Rightarrow> string
    \<Rightarrow> database \<Rightarrow> (exn + gps_answer) \<times> database" where
  "gps_answer env fixed fix' battery own_id db =
    (let bat = opt_py PInt battery; head = ''GPS location requested remotely'' @ newline in
     case fixed of
       Some (la, lo) \<Rightarrow>
        if \<not> c_import env then (Inl (OtherError ''ImportError''), db)
        else
         let tu = PStr (iso_utc (c_now env)); tloc = PStr (iso_local (c_offset env) (c_now env))
         in (case store_fix own_id tu tloc (fin_py la) (fin_py lo) PNone (float_py SPEED) (float_py ACCURACY_M) bat True db of
               (Inl e, db') \<Rightarrow> (Inl e, db')
             | (Inr _, db') \<Rightarrow>
                (Inr \<lparr>an_lat = fin_py la, an_lon = fin_py lo, an_fix_dt = tloc,
                      an_payload = Some (with_source (location_payload own_id tu tloc (fin_py la) (fin_py lo) PNone
                         (float_py SPEED) (float_py ACCURACY_M) bat) ''wifi''),
                      an_msg = head @ ''Connected to configured WiFi, sent fixed coordinates''\<rparr>, db'))
     | None \<Rightarrow>
        if (case fix' of None \<Rightarrow> False | Some f \<Rightarrow> fx_success f) then
         let f = the fix'; tu = opt_py PStr (fx_utc f); tloc = opt_py PStr (fx_local f);
             la = opt_py float_py (fx_lat f); lo = opt_py float_py (fx_lon f); al = opt_py float_py (fx_alt f);
             sp = opt_py float_py (fx_speed f); ac = opt_py float_py (fx_accuracy f)
         in (case store_fix own_id tu tloc la lo al sp ac bat True db of
               (Inl e, db') \<Rightarrow> (Inl e, db')
             | (Inr _, db') \<Rightarrow>
                (Inr \<lparr>an_lat = la, an_lon = lo, an_fix_dt = tloc,
                      an_payload = Some (with_source (location_payload own_id tu tloc la lo al sp ac bat) ''live''),
                      an_msg = head @ ''Current fix '' @ py_str tloc @ '' ('' @ fmt_accuracy (fx_accuracy f) @ '')''\<rparr>, db'))
        else
         (case get_latest db own_id of
            Some g \<Rightarrow>
              (Inr \<lparr>an_lat = g_lat g, an_lon = g_lon g, an_fix_dt = PNone,
                    an_payload = Some (with_source (row_payload own_id g) ''db''),
                    an_msg = head @ ''No current fix, last fix from DB ('' @ py_str (g_ts_local g) @ '')''\<rparr>, db)
          | None \<Rightarrow>
              (Inr \<lparr>an_lat = PNone, an_lon = PNone, an_fix_dt = PNone, an_payload = None,
                    an_msg = head @ ''No current fix and no stored position, nothing sent''\<rparr>, db)))"

definition add_note :: "string option \<Rightarrow> string \<Rightarrow> string" where
  "add_note n msg = (case n of None \<Rightarrow> msg | Some s \<Rightarrow> if s = [] then msg else msg @ newline @ s)"

text \<open>Publish the answer if MQTT is on, and reply by SMS to an SMS command.\<close>

definition gps_publish_answer :: "cmd_env \<Rightarrow> executor \<Rightarrow> gps_answer \<Rightarrow> string \<times> cmd_effect list" where
  "gps_publish_answer env ex a =
    (case an_payload a of
       Some p \<Rightarrow>
        if get_bool (ex_db ex) MQTT_ENABLED then
          (add_note (c_note env) (newline @ (if ex_mqtt ex \<and> c_published env then ''Sent via MQTT'' else ''MQTT publish failed'')),
           if ex_mqtt ex then [SentLocation p] else [])
        else ([], [])
     | None \<Rightarrow> ([], []))"

definition db_time :: "database \<Rightarrow> string \<Rightarrow> pyval" where
  "db_time db own_id = (case get_latest db own_id of None \<Rightarrow> PNone | Some g \<Rightarrow> g_ts_local g)"

definition gps_sms_reply :: "cmd_env \<Rightarrow> executor \<Rightarrow> string \<Rightarrow> string option \<Rightarrow> gps_answer \<Rightarrow> string \<times> cmd_effect list" where
  "gps_sms_reply env ex channel sender a =
    (case sender of
       Some s \<Rightarrow>
        if channel = ''sms'' \<and> s \<noteq> [] then
          (let coords = an_lat a \<noteq> PNone \<and> an_lon a \<noteq> PNone
           in (if coords \<and> c_sms env then newline @ ''Reply sent by SMS to '' @ s
               else newline @ ''SMS reply to '' @ s @ '' failed'',
               if coords then [SmsReply s (an_lat a) (an_lon a) (an_fix_dt a)
                  (if py_truthy (an_fix_dt a) then PNone else db_time (ex_db ex) (ex_own ex))] else []))
        else ([], [])
     | None \<Rightarrow> ([], []))"

definition do_gps :: "cmd_env \<Rightarrow> string \<Rightarrow> string option \<Rightarrow> string cmd" where
  "do_gps env channel sender ex =
    (let fixed = fst (fixed_get (ex_db ex) (c_connman env) None);
         (try_fix, note', es1) = gps_plan env (ex_db ex) (fixed \<noteq> None);
         (fix', battery) = gps_read env try_fix
     in case gps_answer env fixed fix' battery (ex_own ex) (ex_db ex) of
          (Inl e, db) \<Rightarrow> (Inl e, ex\<lparr>ex_db := db\<rparr>, es1)
        | (Inr a, db) \<Rightarrow>
           (let ex1 = ex\<lparr>ex_db := db\<rparr>;
                (m1, es2) = gps_publish_answer env ex1 a;
                (m2, es3) = gps_sms_reply env ex1 channel sender a
            in (Inr (if an_lat a \<noteq> PNone then ''ok'' else ''error''), ex1,
                es1 @ es2 @ es3 @ [Notified (add_note note' (an_msg a) @ m1 @ m2)])))"

section \<open>CAMERA and the pending uploads\<close>

definition park_for_retry :: "cmd_env \<Rightarrow> string \<Rightarrow> executor \<Rightarrow> bool \<times> executor" where
  "park_for_retry env f ex =
    (if \<not> c_park env then (False, ex)
     else (True, ex\<lparr>pending_dir := insert f (pending_dir ex), photos_dir := photos_dir ex - {f},
                    upload_retry_at := c_now env + UPLOAD_RETRY_SECONDS\<rparr>))"

definition webdav_configured :: "executor \<Rightarrow> bool" where
  "webdav_configured ex \<longleftrightarrow> setting_filled (ex_db ex) WEBDAV_URL \<and> setting_filled (ex_db ex) WEBDAV_USERNAME"

definition do_camera :: "cmd_env \<Rightarrow> string option \<Rightarrow> string cmd" where
  "do_camera env arg ex =
    (let which = (if arg = Some ''front'' \<or> arg = Some ''back'' then the arg else ''back'');
         head = ''Photo ('' @ which @ '' camera) '';
         data_note = (case c_note env of None \<Rightarrow> [] | Some n \<Rightarrow> if n = [] then [] else newline @ n)
     in if \<not> webdav_configured ex then
          (Inr ''error'', ex\<lparr>ex_reason := Some ''webdav credentials not set''\<rparr>,
           [Notified (head @ ''requested remotely'' @ newline @ ''Not taken: WebDAV upload is not configured'')])
        else
          let f = build_filename (ex_own ex) which (c_offset env) (c_now env); (ok, err) = c_capture env
          in if \<not> ok then
               (Inr ''error'', ex\<lparr>ex_reason := Some (''capture: '' @ py_str (opt_py PStr err))\<rparr>,
                [Notified (head @ ''requested remotely'' @ newline @ ''Capture failed: '' @ shorten err)])
             else
               let ex1 = ex\<lparr>photos_dir := insert f (photos_dir ex)\<rparr>
               in (case upload_webdav (c_upload env f) of
                     Inl e \<Rightarrow> (Inl e, ex1, [Captured f])
                   | Inr True \<Rightarrow>
                       (Inr ''ok'', ex1, [Captured f, Uploaded f,
                          Notified (head @ ''captured remotely'' @ newline @ ''Uploaded'' @ data_note)])
                   | Inr False \<Rightarrow>
                       (let ex2 = ex1\<lparr>ex_reason := Some (''upload failed (network: '' @ c_net_state env @ '')'')\<rparr>;
                            (parked, ex3) = park_for_retry env f ex2
                        in (Inr ''error'', ex3, [Captured f,
                             Notified (head @ ''captured remotely'' @ newline @ ''Upload failed (''
                               @ (if c_online env then ''server error'' else ''no network'') @ ''); stored on the device''
                               @ (if parked then '', will retry automatically'' else []) @ data_note)]))))"

definition pending_uploads :: "executor \<Rightarrow> string set" where
  "pending_uploads ex = {f \<in> pending_dir ex. ends_with f ''.jpg''}"

text \<open>\<open>_upload_pending\<close> over the sorted names.\<close>

fun upload_pending :: "cmd_env \<Rightarrow> string list \<Rightarrow> unit cmd" where
  "upload_pending env [] ex = (Inr (), ex, [])"
| "upload_pending env (f # fs) ex =
    (case upload_webdav (c_upload env f) of
       Inl e \<Rightarrow> (Inl e, ex, [])
     | Inr False \<Rightarrow> (Inr (), ex\<lparr>upload_retry_at := c_now env + UPLOAD_RETRY_SECONDS\<rparr>, [])
     | Inr True \<Rightarrow>
        (let ex1 = (if c_move env f then ex\<lparr>pending_dir := pending_dir ex - {f}, photos_dir := insert f (photos_dir ex)\<rparr>
                    else if c_remove env f then ex\<lparr>pending_dir := pending_dir ex - {f}\<rparr> else ex);
             (r, ex2, es) = upload_pending env fs ex1
         in (r, ex2, Uploaded f # Notified (''Photo '' @ f @ newline @ ''Uploaded (delayed)'') # es)))"

text \<open>
  \<open>retry_uploads\<close>: the flag is cleared whatever happens. The directory is listed once; \<open>listing\<close> is
  what \<open>sorted(os.listdir())\<close> gives.
\<close>

definition retry_uploads :: "cmd_env \<Rightarrow> string list \<Rightarrow> unit cmd" where
  "retry_uploads env listing ex =
    (let files = filter (\<lambda>f. ends_with f ''.jpg'') listing;
         (r, ex1, es) =
           (if files = [] then (Inr (), ex, [])
            else if \<not> webdav_configured ex then
              (Inr (), ex\<lparr>upload_retry_at := c_now env + UPLOAD_RETRY_SECONDS\<rparr>, [])
            else upload_pending env files ex)
     in (r, ex1\<lparr>upload_job_queued := False\<rparr>, es))"

section \<open>DELETE\<close>

text \<open>With the home directory the database file and the photos go too.\<close>

definition do_delete :: "cmd_env \<Rightarrow> string cmd" where
  "do_delete env ex =
    (if \<not> starts_with (c_home env) ''/home/'' then (Inr ''error'', ex, [Notified ''REMOTE WIPE started''])
     else (Inr ''ok'', (if c_wipes env then ex\<lparr>ex_db := empty_db, pending_dir := {}, photos_dir := {}\<rparr> else ex),
           [Notified ''REMOTE WIPE started'', Wiped (c_home env)] @ (if c_reboot env then [RebootQueued] else [])))"

section \<open>Dispatch, acknowledgement and worker\<close>

definition dispatch :: "cmd_env \<Rightarrow> string \<Rightarrow> string option \<Rightarrow> string \<Rightarrow> string option \<Rightarrow> string cmd" where
  "dispatch env cmd arg channel sender ex =
    (if cmd = ''RING'' then do_ring env ex
     else if cmd = ''STOP_RING'' then do_stop_ring ex
     else if cmd = ''LOCK'' then do_lock env ex
     else if cmd = ''GPS'' then do_gps env channel sender ex
     else if cmd = ''CAMERA'' then do_camera env arg ex
     else if cmd = ''DELETE'' then do_delete env ex
     else (Inr ''error'', ex, []))"

definition execute ::
    "cmd_env \<Rightarrow> string \<Rightarrow> string option \<Rightarrow> string \<Rightarrow> string option \<Rightarrow> executor \<Rightarrow> string \<times> executor \<times> cmd_effect list" where
  "execute env cmd0 arg channel sender ex0 =
    (let cmd = upper cmd0; ex = ex0\<lparr>ex_reason := None\<rparr>
     in if \<not> feature_enabled ex cmd then (''disabled'', ex, [])
        else case dispatch env cmd arg channel sender ex of
          (Inr r, ex1, es) \<Rightarrow> (r, ex1, es)
        | (Inl _, ex1, es) \<Rightarrow> (''error'', ex1, es))"

definition exec_publish_ack :: "cmd_env \<Rightarrow> string \<Rightarrow> string \<Rightarrow> executor \<Rightarrow> executor \<times> cmd_effect list" where
  "exec_publish_ack env cmd result ex =
    (ex\<lparr>ex_reason := None\<rparr>, if ex_mqtt ex then [AckSent cmd result (c_online env)] else [])"

text \<open>\<open>_publish_latest_own_fix\<close>: the UI's wish to publish the newest stored fix.\<close>

definition publish_latest_own_fix :: "cmd_env \<Rightarrow> unit cmd" where
  "publish_latest_own_fix env ex =
    (if \<not> get_bool (ex_db ex) MQTT_ENABLED \<or> \<not> setting_filled (ex_db ex) MQTT_SERVER \<or> \<not> c_paho env
        \<or> \<not> get_bool (ex_db ex) AUTO_ENABLE_MOBILE_DATA then (Inr (), ex, [])
     else case own_device_id (c_draws env) (c_stamp env) (ex_db ex) of
       (Inl e, db) \<Rightarrow> (Inl e, ex\<lparr>ex_db := db\<rparr>, [])
     | (Inr None, db) \<Rightarrow> (Inr (), ex\<lparr>ex_db := db\<rparr>, [])
     | (Inr (Some own_id), db) \<Rightarrow>
        (case get_latest db own_id of
           None \<Rightarrow> (Inr (), ex\<lparr>ex_db := db\<rparr>, [])
         | Some g \<Rightarrow> (Inr (), ex\<lparr>ex_db := db\<rparr>, [OneShot (row_payload own_id g) (c_published env)])))"

datatype job =
    Execute string "string option" string "string option"
  | Ack string string
  | Uploads "string list"
  | PublishFix

definition run_job :: "cmd_env \<Rightarrow> job \<Rightarrow> executor \<Rightarrow> executor \<times> cmd_effect list" where
  "run_job env j ex =
    (case j of
       Ack cmd result \<Rightarrow> exec_publish_ack env cmd result ex
     | Uploads listing \<Rightarrow> (case retry_uploads env listing ex of (_, ex1, es) \<Rightarrow> (ex1, es))
     | PublishFix \<Rightarrow> (case publish_latest_own_fix env ex of (_, ex1, es) \<Rightarrow> (ex1, es))
     | Execute cmd arg channel sender \<Rightarrow>
        (case execute env cmd arg channel sender ex of
           (result, ex1, es) \<Rightarrow> (case exec_publish_ack env cmd result ex1 of (ex2, es2) \<Rightarrow> (ex2, es @ es2))))"

text \<open>The worker's loop: the queue up to the shutdown mark.\<close>

fun run_worker :: "(cmd_env \<times> job) list \<Rightarrow> executor \<Rightarrow> executor \<times> cmd_effect list" where
  "run_worker [] ex = (ex, [])"
| "run_worker ((env, j) # js) ex =
    (let (ex1, es1) = run_job env j ex; (ex2, es2) = run_worker js ex1 in (ex2, es1 @ es2))"

section \<open>Lemmas\<close>

lemmas cmd_defs = dispatch_def do_ring_def do_stop_ring_def do_lock_def do_camera_def do_delete_def

lemma gps_answer_latest:
  assumes inv: "gps_inv db" and a: "gps_answer env fixed fix' bat own db = (Inr a, db')"
  shows "gps_inv db' \<and>
    (case get_latest db' own of
       None \<Rightarrow> an_payload a = None \<and> an_lat a = PNone
     | Some g \<Rightarrow> an_lat a = g_lat g \<and> an_lon a = g_lon g \<and> an_fix_dt a \<in> {PNone, g_ts_local g}
         \<and> (\<exists>src. an_payload a = Some (with_source (row_payload own g) src)))"
proof -
  have stored: ?thesis
    if "store_fix own tu tloc la lo al sp ac b True db = (Inr n, db')" "an_lat a = la" "an_lon a = lo" "an_fix_dt a = tloc"
      "an_payload a = Some (with_source (location_payload own tu tloc la lo al sp ac b) src)"
    for tu tloc la lo al sp ac b n src
    using get_latest_store_fix [OF inv that(1)] store_fix_gps_inv [OF inv, of own tu tloc la lo al sp ac b True] that
    by (auto simp: row_payload_def)
  show ?thesis
  proof (cases fixed)
    case (Some c)
    obtain la lo where "c = (la, lo)" by (cases c)
    with Some a obtain tu tloc n where
      "store_fix own tu tloc (fin_py la) (fin_py lo) PNone (float_py SPEED) (float_py ACCURACY_M) (opt_py PInt bat) True db = (Inr n, db')"
      "an_lat a = fin_py la" "an_lon a = fin_py lo" "an_fix_dt a = tloc"
      "an_payload a = Some (with_source (location_payload own tu tloc (fin_py la) (fin_py lo) PNone (float_py SPEED)
         (float_py ACCURACY_M) (opt_py PInt bat)) ''wifi'')"
      by (auto simp: gps_answer_def Let_def split: if_splits sum.splits prod.splits)
    then show ?thesis by (rule stored)
  next
    case None
    show ?thesis
    proof (cases "\<exists>f. fix' = Some f \<and> fx_success f")
      case True
      then obtain f where "fix' = Some f" "fx_success f" by blast
      with None a obtain tu tloc la lo al sp ac n where
        "store_fix own tu tloc la lo al sp ac (opt_py PInt bat) True db = (Inr n, db')"
        "an_lat a = la" "an_lon a = lo" "an_fix_dt a = tloc"
        "an_payload a = Some (with_source (location_payload own tu tloc la lo al sp ac (opt_py PInt bat)) ''live'')"
        by (auto simp: gps_answer_def Let_def split: if_splits sum.splits prod.splits)
      then show ?thesis by (rule stored)
    next
      case False
      with None a inv show ?thesis
        by (auto simp: gps_answer_def Let_def split: option.splits)
    qed
  qed
qed

text \<open>The effects of the six commands, by kind.\<close>

definition acks :: "cmd_effect list \<Rightarrow> (string \<times> string) list" where
  "acks es = List.map_filter (\<lambda>e. case e of AckSent c r _ \<Rightarrow> Some (c, r) | _ \<Rightarrow> None) es"

lemma acks_simps [simp]:
  "acks [] = []" "acks (xs @ ys) = acks xs @ acks ys"
  "acks (AckSent c r w # es) = (c, r) # acks es" "acks (Notified s # es) = acks es" "acks (LockCalls cs # es) = acks es"
  "acks (LocationOn # es) = acks es" "acks (SentLocation p # es) = acks es" "acks (SmsReply s a b c' d # es) = acks es"
  "acks (Captured f # es) = acks es" "acks (Uploaded f # es) = acks es" "acks (Wiped h # es) = acks es"
  "acks (RebootQueued # es) = acks es" "acks (OneShot p ok # es) = acks es"
  by (simp_all add: acks_def map_filter_simps List.map_filter_def)

text \<open>What a command may do, and what it leaves alone.\<close>

fun effect_of :: "string \<Rightarrow> cmd_effect \<Rightarrow> bool" where
  "effect_of cmd (Notified _) \<longleftrightarrow> True"
| "effect_of cmd (LockCalls _) \<longleftrightarrow> cmd = ''LOCK''"
| "effect_of cmd LocationOn \<longleftrightarrow> cmd = ''GPS''"
| "effect_of cmd (SentLocation _) \<longleftrightarrow> cmd = ''GPS''"
| "effect_of cmd (SmsReply _ _ _ _ _) \<longleftrightarrow> cmd = ''GPS''"
| "effect_of cmd (Captured _) \<longleftrightarrow> cmd = ''CAMERA''"
| "effect_of cmd (Uploaded _) \<longleftrightarrow> cmd = ''CAMERA''"
| "effect_of cmd (Wiped _) \<longleftrightarrow> cmd = ''DELETE''"
| "effect_of cmd RebootQueued \<longleftrightarrow> cmd = ''DELETE''"
| "effect_of cmd (AckSent _ _ _) \<longleftrightarrow> False"
| "effect_of cmd (OneShot _ _) \<longleftrightarrow> False"

lemma gps_plan_effects: "gps_plan env db fixed = (t, n, es) \<Longrightarrow> set es \<subseteq> {LocationOn} \<and> acks es = []
    \<and> (LocationOn \<in> set es \<longrightarrow> get_bool db AUTO_ENABLE_LOCATION)"
  by (auto simp: gps_plan_def split: option.splits if_splits)

lemma gps_publish_answer_effects:
  "gps_publish_answer env ex a = (m, es) \<Longrightarrow> es = [] \<or> (\<exists>p. an_payload a = Some p \<and> es = [SentLocation p] \<and> ex_mqtt ex)"
  by (auto simp: gps_publish_answer_def split: option.splits if_splits)

lemma gps_sms_reply_effects:
  "gps_sms_reply env ex channel sender a = (m, es) \<Longrightarrow>
     es = [] \<or> (\<exists>s. sender = Some s \<and> channel = ''sms'' \<and> an_lat a \<noteq> PNone \<and> es = [SmsReply s (an_lat a) (an_lon a) (an_fix_dt a)
        (if py_truthy (an_fix_dt a) then PNone else db_time (ex_db ex) (ex_own ex))])"
  by (auto simp: gps_sms_reply_def Let_def split: option.splits if_splits)

lemma do_gps_cases:
  assumes "do_gps env channel sender ex = (r, ex', es)"
  obtains (raised) e db es1 t n where "r = Inl e" "ex' = ex\<lparr>ex_db := db\<rparr>" "es = es1"
      "gps_plan env (ex_db ex) (fst (fixed_get (ex_db ex) (c_connman env) None) \<noteq> None) = (t, n, es1)"
    | (answered) a db es1 t n m1 es2 m2 es3 fix' bat body where
      "r = Inr (if an_lat a \<noteq> PNone then ''ok'' else ''error'')" "ex' = ex\<lparr>ex_db := db\<rparr>"
      "es = es1 @ es2 @ es3 @ [Notified body]"
      "gps_plan env (ex_db ex) (fst (fixed_get (ex_db ex) (c_connman env) None) \<noteq> None) = (t, n, es1)"
      "gps_answer env (fst (fixed_get (ex_db ex) (c_connman env) None)) fix' bat (ex_own ex) (ex_db ex) = (Inr a, db)"
      "gps_publish_answer env ex' a = (m1, es2)" "gps_sms_reply env ex' channel sender a = (m2, es3)"
proof -
  let ?fixed = "fst (fixed_get (ex_db ex) (c_connman env) None)"
  obtain t n es1 where pl: "gps_plan env (ex_db ex) (?fixed \<noteq> None) = (t, n, es1)" using prod_cases3 by blast
  obtain fix' bat where rd: "gps_read env t = (fix', bat)" by fastforce
  obtain ra db where an: "gps_answer env ?fixed fix' bat (ex_own ex) (ex_db ex) = (ra, db)" by fastforce
  show ?thesis
  proof (cases ra)
    case (Inl e)
    with assms pl rd an show ?thesis by (intro raised) (auto simp: do_gps_def Let_def)
  next
    case (Inr a)
    obtain m1 es2 where p: "gps_publish_answer env (ex\<lparr>ex_db := db\<rparr>) a = (m1, es2)" by fastforce
    obtain m2 es3 where s: "gps_sms_reply env (ex\<lparr>ex_db := db\<rparr>) channel sender a = (m2, es3)" by fastforce
    from assms pl rd an Inr p s have "r = Inr (if an_lat a \<noteq> PNone then ''ok'' else ''error'')" "ex' = ex\<lparr>ex_db := db\<rparr>"
      "es = es1 @ es2 @ es3 @ [Notified (add_note n (an_msg a) @ m1 @ m2)]"
      by (auto simp: do_gps_def Let_def)
    with pl an Inr p s show ?thesis by (intro answered) auto
  qed
qed

lemma do_gps_effects:
  assumes "do_gps env channel sender ex = (r, ex', es)"
  shows "(\<forall>e\<in>set es. effect_of ''GPS'' e) \<and> acks es = [] \<and> (\<exists>db. ex' = ex\<lparr>ex_db := db\<rparr>)
    \<and> (LocationOn \<in> set es \<longrightarrow> get_bool (ex_db ex) AUTO_ENABLE_LOCATION)
    \<and> (\<forall>to la lo dt t. SmsReply to la lo dt t \<in> set es \<longrightarrow> sender = Some to \<and> channel = ''sms'')"
  using assms
proof (cases rule: do_gps_cases)
  case (raised e db es1 t n)
  with gps_plan_effects [OF raised(4)] show ?thesis by auto
next
  case (answered a db es1 t n m1 es2 m2 es3 fix' bat body)
  with gps_plan_effects [OF answered(4)] gps_publish_answer_effects [OF answered(6)]
    gps_sms_reply_effects [OF answered(7)]
  show ?thesis by auto
qed

lemma dispatch_cases:
  assumes "dispatch env cmd arg channel sender ex = (r, ex', es)"
  obtains (ring) "cmd = ''RING''" "do_ring env ex = (r, ex', es)"
    | (stop_ring) "cmd = ''STOP_RING''" "do_stop_ring ex = (r, ex', es)"
    | (lock) "cmd = ''LOCK''" "do_lock env ex = (r, ex', es)"
    | (gps) "cmd = ''GPS''" "do_gps env channel sender ex = (r, ex', es)"
    | (camera) "cmd = ''CAMERA''" "do_camera env arg ex = (r, ex', es)"
    | (delete) "cmd = ''DELETE''" "do_delete env ex = (r, ex', es)"
    | (unknown) "r = Inr ''error''" "ex' = ex" "es = []"
  using assms by (auto simp: dispatch_def split: if_splits)

lemma do_camera_cases:
  assumes "do_camera env arg ex = (r, ex', es)"
  obtains (refused) "r = Inr ''error''" "\<exists>w. ex' = ex\<lparr>ex_reason := w\<rparr>" "\<exists>m. es = [Notified m]"
    | (raised) e f where "r = Inl e" "ex' = ex\<lparr>photos_dir := insert f (photos_dir ex)\<rparr>" "es = [Captured f]"
    | (uploaded) f where "r = Inr ''ok''" "ex' = ex\<lparr>photos_dir := insert f (photos_dir ex)\<rparr>"
        "\<exists>m. es = [Captured f, Uploaded f, Notified m]" "upload_webdav (c_upload env f) = Inr True"
    | (kept) f w where "r = Inr ''error''"
        "ex' = snd (park_for_retry env f (ex\<lparr>photos_dir := insert f (photos_dir ex), ex_reason := w\<rparr>))"
        "\<exists>m. es = [Captured f, Notified m]"
proof (cases "webdav_configured ex \<and> fst (c_capture env)")
  case False
  with assms show ?thesis by (intro refused) (auto simp: do_camera_def Let_def split: prod.splits if_splits)
next
  case True
  obtain err where c: "c_capture env = (True, err)" using True by (cases "c_capture env") auto
  let ?f = "build_filename (ex_own ex) (if arg = Some ''front'' \<or> arg = Some ''back'' then the arg else ''back'') (c_offset env) (c_now env)"
  show ?thesis
  proof (cases "upload_webdav (c_upload env ?f)")
    case (Inl e)
    with assms True c show ?thesis by (intro raised [of e ?f]) (simp_all add: do_camera_def Let_def)
  next
    case (Inr b)
    show ?thesis
    proof (cases b)
      case True
      with assms \<open>webdav_configured ex \<and> fst (c_capture env)\<close> c Inr show ?thesis
        by (intro uploaded [of ?f]) (auto simp: do_camera_def Let_def)
    next
      case False
      with assms True c Inr show ?thesis
        by (intro kept [of ?f]) (auto simp: do_camera_def Let_def split_beta)
    qed
  qed
qed

lemma park_frame:
  "park_for_retry env f ex = (b, ex') \<Longrightarrow> ex_db ex' = ex_db ex \<and> ex_mqtt ex' = ex_mqtt ex \<and> ex_own ex' = ex_own ex
     \<and> ex_ringer ex' = ex_ringer ex \<and> pending_dir ex \<subseteq> pending_dir ex' \<and> photos_dir ex' \<union> pending_dir ex' = photos_dir ex \<union> pending_dir ex \<union> (if b then {f} else {})"
  by (auto simp: park_for_retry_def split: if_splits)

text \<open>Every command: the effects are its own, no acknowledgement, and the connection stays the executor's.\<close>

lemma dispatch_effects:
  assumes "dispatch env cmd arg channel sender ex = (r, ex', es)"
  shows "(\<forall>e\<in>set es. effect_of cmd e) \<and> acks es = [] \<and> ex_mqtt ex' = ex_mqtt ex \<and> ex_own ex' = ex_own ex
    \<and> (r = Inr ''ok'' \<or> r = Inr ''error'' \<or> (\<exists>e. r = Inl e))
    \<and> (ex_ringer ex' = ex_ringer ex \<or> cmd = ''RING'' \<or> cmd = ''STOP_RING'')"
  using assms
proof (cases rule: dispatch_cases)
  case ring
  then show ?thesis by (auto simp: do_ring_def split: prod.splits if_splits)
next
  case lock
  then show ?thesis by (auto simp: do_lock_def split: prod.splits if_splits)
next
  case gps
  note eff = do_gps_effects [OF gps(2)]
  moreover have "ex_mqtt ex' = ex_mqtt ex" "ex_own ex' = ex_own ex" "ex_ringer ex' = ex_ringer ex" using eff by auto
  moreover have "r = Inr ''ok'' \<or> r = Inr ''error'' \<or> (\<exists>e. r = Inl e)"
    using gps(2) by (cases rule: do_gps_cases) auto
  ultimately show ?thesis using gps(1) by simp
next
  case camera
  from camera(2) show ?thesis
  proof (cases rule: do_camera_cases)
    case (kept f w)
    obtain b ex2 where pk: "park_for_retry env f (ex\<lparr>photos_dir := insert f (photos_dir ex), ex_reason := w\<rparr>) = (b, ex2)"
      by fastforce
    with kept park_frame [OF pk] camera(1) show ?thesis by auto
  qed (use camera(1) in auto)
next
  case delete
  then show ?thesis by (auto simp: do_delete_def split: if_splits)
qed (auto simp: do_stop_ring_def)

lemma feature_enabled_reason [simp]: "feature_enabled (ex\<lparr>ex_reason := w\<rparr>) c = feature_enabled ex c"
  by (simp add: feature_enabled_def split: option.split)

lemma execute_effects:
  assumes "execute env cmd arg channel sender ex = (res, ex', es)"
  shows "(\<forall>e\<in>set es. effect_of (upper cmd) e) \<and> acks es = [] \<and> ex_mqtt ex' = ex_mqtt ex \<and> ex_own ex' = ex_own ex
    \<and> res \<in> {''ok'', ''error'', ''disabled''}
    \<and> (ex_ringer ex' = ex_ringer ex \<or> upper cmd = ''RING'' \<or> upper cmd = ''STOP_RING'')
    \<and> (feature_enabled ex (upper cmd) \<or> res = ''disabled'' \<and> es = [] \<and> ex' = ex\<lparr>ex_reason := None\<rparr>)"
proof (cases "feature_enabled ex (upper cmd)")
  case False
  with assms show ?thesis by (auto simp: execute_def Let_def)
next
  case True
  obtain r ex1 es1 where d: "dispatch env (upper cmd) arg channel sender (ex\<lparr>ex_reason := None\<rparr>) = (r, ex1, es1)"
    using prod_cases3 by blast
  have "ex' = ex1" "es = es1" "res = (case r of Inr v \<Rightarrow> v | Inl _ \<Rightarrow> ''error'')"
    using assms True d by (auto simp: execute_def Let_def split: sum.splits)
  with dispatch_effects [OF d] True show ?thesis by auto
qed

lemma upload_pending_effects:
  "upload_pending env fs ex = (r, ex', es) \<Longrightarrow> acks es = [] \<and> ex_mqtt ex' = ex_mqtt ex \<and> ex_own ex' = ex_own ex
     \<and> ex_db ex' = ex_db ex \<and> ex_ringer ex' = ex_ringer ex \<and> (\<forall>e\<in>set es. (\<exists>f. e = Uploaded f) \<or> (\<exists>m. e = Notified m))
     \<and> photos_dir ex \<subseteq> photos_dir ex'
     \<and> (\<forall>f. f \<in> pending_dir ex \<longrightarrow> f \<in> pending_dir ex' \<or> Uploaded f \<in> set es)"
proof (induction env fs ex arbitrary: r ex' es rule: upload_pending.induct)
  case (1 env ex)
  then show ?case by simp
next
  case (2 env f fs ex)
  show ?case
  proof (cases "upload_webdav (c_upload env f) = Inr True")
    case False
    with 2 show ?thesis by (cases "upload_webdav (c_upload env f)") (auto split: bool.splits)
  next
    case True
    let ?ex1 = "if c_move env f then ex\<lparr>pending_dir := pending_dir ex - {f}, photos_dir := insert f (photos_dir ex)\<rparr>
                    else if c_remove env f then ex\<lparr>pending_dir := pending_dir ex - {f}\<rparr> else ex"
    obtain r2 ex2 es2 where u: "upload_pending env fs ?ex1 = (r2, ex2, es2)" using prod_cases3 by blast
    have e: "ex' = ex2" "es = Uploaded f # Notified (''Photo '' @ f @ newline @ ''Uploaded (delayed)'') # es2"
      using 2 True u by (auto simp: Let_def)
    from "2.IH" [OF True refl refl u] show ?thesis unfolding e by (auto split: if_splits)
  qed
qed

lemma retry_uploads_effects:
  assumes "retry_uploads env listing ex = (r, ex', es)"
  shows "acks es = [] \<and> ex_mqtt ex' = ex_mqtt ex \<and> ex_own ex' = ex_own ex \<and> ex_db ex' = ex_db ex
     \<and> ex_ringer ex' = ex_ringer ex \<and> \<not> upload_job_queued ex'
     \<and> (\<forall>e\<in>set es. (\<exists>f. e = Uploaded f) \<or> (\<exists>m. e = Notified m)) \<and> photos_dir ex \<subseteq> photos_dir ex'
     \<and> (\<forall>f. f \<in> pending_dir ex \<longrightarrow> f \<in> pending_dir ex' \<or> Uploaded f \<in> set es)"
proof -
  let ?fs = "filter (\<lambda>f. ends_with f ''.jpg'') listing"
  obtain r1 ex1 es1 where u: "upload_pending env ?fs ex = (r1, ex1, es1)" using prod_cases3 by blast
  with assms upload_pending_effects [OF u] show ?thesis
    by (auto simp: retry_uploads_def Let_def split: if_splits)
qed

lemma publish_latest_frame:
  assumes "publish_latest_own_fix env ex = (r, ex', es)"
  shows "(\<exists>db. ex' = ex\<lparr>ex_db := db\<rparr>) \<and> acks es = [] \<and> (\<forall>e\<in>set es. \<exists>p ok. e = OneShot p ok)"
  using assms
  by (auto simp: publish_latest_own_fix_def intro: exI [of _ "ex_db ex'"]
      split: if_splits prod.splits sum.splits option.splits)

text \<open>The acknowledgements a job owes.\<close>

fun job_cmd :: "job \<Rightarrow> string option" where
  "job_cmd (Execute c _ _ _) = Some c"
| "job_cmd (Ack c _) = Some c"
| "job_cmd _ = None"

lemma run_job_acks:
  assumes "run_job env j ex = (ex', es)" "ex_mqtt ex"
  shows "ex_mqtt ex' \<and> ex_own ex' = ex_own ex \<and> map fst (acks es) = List.map_filter job_cmd [j]
    \<and> (\<forall>(c, r)\<in>set (acks es). r \<in> {''ok'', ''error'', ''disabled''} \<or> j = Ack c r)"
proof (cases j)
  case (Execute c arg channel sender)
  obtain res ex1 es1 where e: "execute env c arg channel sender ex = (res, ex1, es1)" using prod_cases3 by blast
  from assms(1) Execute e execute_effects [OF e] assms(2) show ?thesis
    by (auto simp: run_job_def exec_publish_ack_def map_filter_simps)
next
  case (Ack c r)
  with assms show ?thesis by (auto simp: run_job_def exec_publish_ack_def map_filter_simps)
next
  case (Uploads listing)
  obtain r ex1 es1 where e: "retry_uploads env listing ex = (r, ex1, es1)" using prod_cases3 by blast
  from assms(1) Uploads e retry_uploads_effects [OF e] assms(2) show ?thesis
    by (auto simp: run_job_def map_filter_simps)
next
  case PublishFix
  obtain r ex1 es1 where e: "publish_latest_own_fix env ex = (r, ex1, es1)" using prod_cases3 by blast
  from assms(1) PublishFix e publish_latest_frame [OF e] assms(2) show ?thesis
    by (auto simp: run_job_def map_filter_simps)
qed

text \<open>Photos: what was stored stays stored until it has been uploaded or the phone is wiped.\<close>

definition photo_kept :: "executor \<Rightarrow> cmd_effect list \<Rightarrow> string \<Rightarrow> bool" where
  "photo_kept ex es f \<longleftrightarrow> f \<in> photos_dir ex \<union> pending_dir ex \<or> Uploaded f \<in> set es \<or> (\<exists>h. Wiped h \<in> set es)"

lemma dispatch_photos:
  assumes "dispatch env cmd arg channel sender ex = (r, ex', es)"
    and "f \<in> photos_dir ex \<union> pending_dir ex \<or> Captured f \<in> set es"
  shows "photo_kept ex' es f"
  using assms(1)
proof (cases rule: dispatch_cases)
  case gps
  with do_gps_effects [OF gps(2)] assms(2) show ?thesis by (auto simp: photo_kept_def)
next
  case camera
  from camera(2) show ?thesis
  proof (cases rule: do_camera_cases)
    case (kept g w)
    obtain b ex2 where pk: "park_for_retry env g (ex\<lparr>photos_dir := insert g (photos_dir ex), ex_reason := w\<rparr>) = (b, ex2)"
      by fastforce
    with kept park_frame [OF pk] assms(2) show ?thesis by (auto simp: photo_kept_def)
  qed (use assms(2) in \<open>auto simp: photo_kept_def\<close>)
next
  case delete
  with assms(2) show ?thesis by (auto simp: photo_kept_def do_delete_def split: if_splits)
qed (use assms(2) in \<open>auto simp: photo_kept_def do_ring_def do_stop_ring_def do_lock_def split: prod.splits if_splits\<close>)

lemma run_job_photos:
  assumes "run_job env j ex = (ex', es)" "f \<in> photos_dir ex \<union> pending_dir ex \<or> Captured f \<in> set es"
  shows "photo_kept ex' es f"
proof (cases j)
  case (Execute c arg channel sender)
  obtain res ex1 es1 where e: "execute env c arg channel sender ex = (res, ex1, es1)" using prod_cases3 by blast
  obtain ex2 es2 where a: "exec_publish_ack env c res ex1 = (ex2, es2)" by fastforce
  have fr: "ex' = ex2" "es = es1 @ es2" "photos_dir ex2 = photos_dir ex1" "pending_dir ex2 = pending_dir ex1"
    "\<forall>e\<in>set es2. \<exists>c r w. e = AckSent c r w"
    using assms(1) Execute e a by (auto simp: run_job_def exec_publish_ack_def split: if_splits)
  have "photo_kept ex1 es1 f"
  proof (cases "feature_enabled ex (upper c)")
    case False
    with execute_effects [OF e] assms(2) fr show ?thesis by (auto simp: photo_kept_def)
  next
    case True
    obtain r ex3 es3 where d: "dispatch env (upper c) arg channel sender (ex\<lparr>ex_reason := None\<rparr>) = (r, ex3, es3)"
      using prod_cases3 by blast
    have "ex1 = ex3" "es1 = es3" using e True d by (auto simp: execute_def Let_def split: sum.splits)
    with dispatch_photos [OF d, of f] assms(2) fr show ?thesis by auto
  qed
  with fr show ?thesis by (auto simp: photo_kept_def)
next
  case (Ack c r)
  with assms show ?thesis by (auto simp: run_job_def exec_publish_ack_def photo_kept_def split: if_splits)
next
  case (Uploads listing)
  obtain r ex1 es1 where e: "retry_uploads env listing ex = (r, ex1, es1)" using prod_cases3 by blast
  from assms Uploads e retry_uploads_effects [OF e] show ?thesis
    by (auto simp: run_job_def photo_kept_def)
next
  case PublishFix
  obtain r ex1 es1 where e: "publish_latest_own_fix env ex = (r, ex1, es1)" using prod_cases3 by blast
  from assms PublishFix e publish_latest_frame [OF e] show ?thesis
    by (auto simp: run_job_def photo_kept_def)
qed

section \<open>Properties\<close>

text \<open>A phone and its surroundings for the examples: location on, a fix, no network for uploads.\<close>

definition demo_env :: cmd_env where
  "demo_env = \<lparr>c_now = 0, c_offset = 0, c_draws = [], c_stamp = [], c_ring = ring_example_env,
     c_lock = \<lparr>set_state = True, read_lock = Inr 1, tklock = True, display_off = True\<rparr>,
     c_connman = Inl OSError, c_needs = None, c_import = True, c_fix = Inr (t_fix (walk_env True)), c_battery = Some 80,
     c_note = None, c_published = True, c_sms = True, c_capture = (True, None), c_upload = (\<lambda>_. UrlopenRaises),
     c_online = False, c_net_state = ''idle'', c_park = True, c_move = (\<lambda>_. True), c_remove = (\<lambda>_. True),
     c_home = ''/home/me'', c_wipes = True, c_reboot = True, c_paho = True\<rparr>"

definition demo_ex :: executor where
  "demo_ex = \<lparr>ex_db = settings_set_many [(LOCK_ENABLED, PBool True), (MQTT_ENABLED, PBool True), (WEBDAV_URL, PStr ''h''),
       (WEBDAV_USERNAME, PStr ''u'')] first_start_db,
     ex_ringer = silent, ex_mqtt = True, ex_own = ''aB3dE6gH9k'', ex_reason = None, upload_retry_at = 0,
     upload_job_queued = True, pending_dir = {''a.jpg''}, photos_dir = {}\<rparr>"



text \<open>What a queued command \<open>c\<close> may do, given the switches in the settings.\<close>

fun may_do :: "executor \<Rightarrow> string \<Rightarrow> string \<Rightarrow> string option \<Rightarrow> cmd_effect \<Rightarrow> bool" where
  "may_do ex c channel sender (LockCalls _) \<longleftrightarrow> c = ''LOCK'' \<and> get_bool (ex_db ex) LOCK_ENABLED"
| "may_do ex c channel sender (Captured _) \<longleftrightarrow> c = ''CAMERA'' \<and> get_bool (ex_db ex) CAMERA_ENABLED"
| "may_do ex c channel sender (Uploaded _) \<longleftrightarrow> c = ''CAMERA'' \<and> get_bool (ex_db ex) CAMERA_ENABLED"
| "may_do ex c channel sender (Wiped h) \<longleftrightarrow> c = ''DELETE'' \<and> get_bool (ex_db ex) DELETE_ENABLED \<and> starts_with h ''/home/''"
| "may_do ex c channel sender RebootQueued \<longleftrightarrow> c = ''DELETE'' \<and> get_bool (ex_db ex) DELETE_ENABLED"
| "may_do ex c channel sender (SentLocation _) \<longleftrightarrow> c = ''GPS'' \<and> get_bool (ex_db ex) SMS_GPS_ENABLED"
| "may_do ex c channel sender LocationOn \<longleftrightarrow>
     c = ''GPS'' \<and> get_bool (ex_db ex) SMS_GPS_ENABLED \<and> get_bool (ex_db ex) AUTO_ENABLE_LOCATION"
| "may_do ex c channel sender (SmsReply to _ _ _ _) \<longleftrightarrow>
     c = ''GPS'' \<and> get_bool (ex_db ex) SMS_GPS_ENABLED \<and> sender = Some to \<and> channel = ''sms''"
| "may_do ex c channel sender (AckSent c' r _) \<longleftrightarrow> upper c' = c \<and> (r = ''disabled'' \<or> feature_enabled ex c)"
| "may_do ex c channel sender (Notified _) \<longleftrightarrow> feature_enabled ex c"
| "may_do ex c channel sender (OneShot _ _) \<longleftrightarrow> False"

lemma dispatch_may_do:
  assumes d: "dispatch env c arg channel sender ex = (r, ex', es)" and en: "feature_enabled ex c" and x: "x \<in> set es"
  shows "may_do ex c channel sender x"
proof -
  have eff: "effect_of c x" and no_ack: "acks es = []" using dispatch_effects [OF d] x by blast+
  have gps: "LocationOn \<in> set es \<longrightarrow> get_bool (ex_db ex) AUTO_ENABLE_LOCATION"
    "SmsReply to la lo dt t \<in> set es \<longrightarrow> sender = Some to \<and> channel = ''sms''" if "c = ''GPS''" for to la lo dt t
  proof -
    have "do_gps env channel sender ex = (r, ex', es)" using d that by (simp add: dispatch_def)
    note do_gps_effects [OF this]
    then show "LocationOn \<in> set es \<longrightarrow> get_bool (ex_db ex) AUTO_ENABLE_LOCATION"
      "SmsReply to la lo dt t \<in> set es \<longrightarrow> sender = Some to \<and> channel = ''sms''" by blast+
  qed
  have del: "Wiped h \<in> set es \<longrightarrow> starts_with h ''/home/''" if "c = ''DELETE''" for h
    using d that by (auto simp: dispatch_def do_delete_def split: if_splits)
  show ?thesis
    using eff en x gps del by (cases x) (simp_all add: feature_enabled_def FEATURE_KEY_def)
qed


lemma demo_lock: "snd (run_job demo_env (Execute ''LOCK'' None ''mqtt'' None) demo_ex)
   = [LockCalls [SetState 1, ReadState], Notified ''Device locked remotely (secure)'', AckSent ''LOCK'' ''ok'' False]"
  by code_simp


text \<open>
  C19. \<open>gps_answer_is_latest_fix\<close>: what a GPS command sends, over MQTT or in the SMS reply, is the newest
  position stored for the own device after it, with the time stamp it was stored with, so an old fix
  is never passed off as fresh; and the command is \<open>ok\<close> exactly when there is such a position with a
  latitude.
\<close>
theorem gps_answer_is_latest_fix:
  assumes "gps_inv (ex_db ex)" "do_gps env channel sender ex = (Inr r, ex', es)"
  shows "(\<forall>p. SentLocation p \<in> set es \<longrightarrow>
            (\<exists>g src. get_latest (ex_db ex') (ex_own ex) = Some g \<and> p = with_source (row_payload (ex_own ex) g) src))
    \<and> (\<forall>to la lo dt t. SmsReply to la lo dt t \<in> set es \<longrightarrow>
            (\<exists>g. get_latest (ex_db ex') (ex_own ex) = Some g \<and> la = g_lat g \<and> lo = g_lon g
               \<and> (dt = g_ts_local g \<or> t = g_ts_local g)))
    \<and> (r = ''ok'' \<longleftrightarrow> (\<exists>g. get_latest (ex_db ex') (ex_own ex) = Some g \<and> g_lat g \<noteq> PNone))"
  using assms(2)
proof (cases rule: do_gps_cases)
  case (answered a db es1 t n m1 es2 m2 es3 fix' bat body)
  note l = gps_answer_latest [OF assms(1) answered(5)]
  note eff = gps_plan_effects [OF answered(4)] gps_publish_answer_effects [OF answered(6)] gps_sms_reply_effects [OF answered(7)]
  have r: "r = ''ok'' \<longleftrightarrow> an_lat a \<noteq> PNone" using answered(1) by auto
  have p: "an_payload a = Some p" if "SentLocation p \<in> set es" for p
    using that eff answered(3) by auto
  have s: "an_lat a \<noteq> PNone" "la = an_lat a" "lo = an_lon a" "dt = an_fix_dt a"
    "t = (if py_truthy (an_fix_dt a) then PNone else db_time db (ex_own ex))" if "SmsReply to la lo dt t \<in> set es" for to la lo dt t
    using that eff answered(2,3) by auto
  have db: "ex_db ex' = db" using answered(2) by simp
  show ?thesis
  proof (cases "get_latest db (ex_own ex)")
    case None
    with l have "an_payload a = None" "an_lat a = PNone" by auto
    with p s(1) r None db show ?thesis by auto
  next
    case (Some g)
    with l obtain src where g: "an_lat a = g_lat g" "an_lon a = g_lon g" "an_fix_dt a \<in> {PNone, g_ts_local g}"
      "an_payload a = Some (with_source (row_payload (ex_own ex) g) src)" by auto
    have "\<exists>g src. get_latest (ex_db ex') (ex_own ex) = Some g \<and> p = with_source (row_payload (ex_own ex) g) src"
      if "SentLocation p \<in> set es" for p using p [OF that] g(4) Some db by auto
    moreover have "\<exists>g. get_latest (ex_db ex') (ex_own ex) = Some g \<and> la = g_lat g \<and> lo = g_lon g
        \<and> (dt = g_ts_local g \<or> t = g_ts_local g)" if m: "SmsReply to la lo dt t \<in> set es" for to la lo dt t
      using s(2-5) [OF m] g(1-3) Some db by (intro exI [of _ g]) (auto simp: db_time_def)
    ultimately show ?thesis using r g(1) Some db by simp
  qed
qed simp

lemma demo_gps: "fst (do_gps demo_env ''sms'' (Some ''+49'') demo_ex) = Inr ''ok''"
  by code_simp

theorem gps_answer_is_latest_fix_witness:
  "\<exists>g. get_latest (ex_db (fst (snd (do_gps demo_env ''sms'' (Some ''+49'') demo_ex)))) ''aB3dE6gH9k'' = Some g \<and> g_lat g \<noteq> PNone"
proof -
  have inv: "gps_inv (ex_db demo_ex)"
    by (simp add: demo_ex_def gps_inv_def settings_set_many_def settings_set_def settings_upsert_def first_start_frame)
  have "do_gps demo_env ''sms'' (Some ''+49'') demo_ex = (Inr ''ok'', fst (snd (do_gps demo_env ''sms'' (Some ''+49'') demo_ex)),
      snd (snd (do_gps demo_env ''sms'' (Some ''+49'') demo_ex)))"
    using demo_gps by (simp add: prod_eq_iff)
  from gps_answer_is_latest_fix [OF inv this] show ?thesis by (simp add: demo_ex_def)
qed

text \<open>
  C17. \<open>photos_not_lost\<close>: through any sequence of jobs, a photo taken or stored before stays on the phone,
  in \<open>photos/\<close> or among the pending uploads, until its upload has succeeded, unless the phone is wiped.
\<close>
theorem photos_not_lost:
  assumes "run_worker js ex = (ex', es)" "f \<in> photos_dir ex \<union> pending_dir ex \<or> Captured f \<in> set es"
  shows "f \<in> photos_dir ex' \<union> pending_dir ex' \<or> Uploaded f \<in> set es \<or> (\<exists>h. Wiped h \<in> set es)"
  using assms
proof (induction js arbitrary: ex ex' es)
  case Nil
  then show ?case by simp
next
  case (Cons ej js)
  obtain env j where ej: "ej = (env, j)" by (cases ej)
  obtain ex1 es1 where r: "run_job env j ex = (ex1, es1)" by fastforce
  obtain ex2 es2 where w: "run_worker js ex1 = (ex2, es2)" by fastforce
  have e: "ex' = ex2" "es = es1 @ es2" using Cons.prems(1) ej r w by simp_all
  from Cons.prems(2) e consider "f \<in> photos_dir ex \<union> pending_dir ex \<or> Captured f \<in> set es1" | "Captured f \<in> set es2" by auto
  then show ?case
  proof cases
    case 1
    with run_job_photos [OF r] have "photo_kept ex1 es1 f" by blast
    with Cons.IH [OF w] e show ?thesis by (auto simp: photo_kept_def)
  next
    case 2
    with Cons.IH [OF w] e show ?thesis by auto
  qed
qed

lemma demo_uploads: "snd (run_worker [(demo_env, Uploads [''a.jpg''])] demo_ex) = []"
  by code_simp

theorem photos_not_lost_witness:
  "''a.jpg'' \<in> photos_dir (fst (run_worker [(demo_env, Uploads [''a.jpg''])] demo_ex))
      \<union> pending_dir (fst (run_worker [(demo_env, Uploads [''a.jpg''])] demo_ex))"
  using photos_not_lost [of "[(demo_env, Uploads [''a.jpg''])]" demo_ex, OF prod.collapse [symmetric], of "''a.jpg''"]
  unfolding demo_uploads by (simp add: demo_ex_def)

end
