(* ===== verification/CmdServe.thy ===== *)
theory CmdServe
  imports CmdExec SmsListener MqttClient "HOL-Library.Countable"
begin

text \<open>
  \<open>daemon-rpm/src/daemon_cmd.py\<close>, second part: what the command daemon does while it serves. The two
  channels authorise a command and queue a job for the worker (\<open>CmdExec\<close>); the watchdog keeps the
  heartbeat, repairs the MQTT channel, retries uploads and serves the UI's wishes; the ConnMan watcher
  reconnects after a handover; the main loop serves or idles.
\<close>

section \<open>The command channels\<close>

text \<open>
  \<open>on_mqtt_command\<close>: an exception, or the job queued and the notifications shown. \<open>payload.get\<close> of a
  missing key and of a JSON null both give \<open>None\<close>.
\<close>

definition field :: "MqttClient.payload \<Rightarrow> string \<Rightarrow> pyval" where
  "field p k = (case p k of None \<Rightarrow> PNone | Some v \<Rightarrow> v)"

definition mqtt_cmd_of :: "MqttClient.payload \<Rightarrow> string" where
  "mqtt_cmd_of p = upper (if py_truthy (field p ''cmd'') then py_str (field p ''cmd'') else [])"

definition mqtt_arg_of :: "MqttClient.payload \<Rightarrow> string option" where
  "mqtt_arg_of p = (case field p ''arg'' of PNone \<Rightarrow> None | v \<Rightarrow> Some (py_str v))"

definition on_mqtt_command :: "database \<Rightarrow> time \<Rightarrow> MqttClient.payload \<Rightarrow> exn + job \<times> string list" where
  "on_mqtt_command db now p =
    (let cmd = mqtt_cmd_of p; arg = mqtt_arg_of p
     in case verify_command_token (Option.bind (get_own db) pin) (Some cmd) arg (field p ''token'') now of
          Inl e \<Rightarrow> Inl e
        | Inr False \<Rightarrow> Inr (Ack cmd ''auth_failed'', [''Rejected '' @ cmd @ '' (wrong PIN)''])
        | Inr True \<Rightarrow> Inr (Execute cmd arg ''mqtt'' None, []))"

text \<open>
  The SMS channel: \<open>sms_authorize\<close> and \<open>sms_on_command\<close> as \<open>_handle\<close> calls them. The state is the
  database, the queued jobs and the notifications.
\<close>

record channel_state =
  ch_db :: database
  ch_jobs :: "job list"
  ch_notes :: "string list"

definition sms_authorize ::
    "string list \<Rightarrow> string \<Rightarrow> time \<Rightarrow> string \<Rightarrow> string option \<Rightarrow> string \<Rightarrow> string \<Rightarrow> channel_state \<Rightarrow> (exn + bool) \<times> channel_state" where
  "sms_authorize draws stamp now cmd0 arg cd sender s =
    (let cmd = upper cmd0
     in if \<not> get_bool (ch_db s) SMS_REMOTE_ENABLED then (Inr False, s)
        else if \<not> (case map_of FEATURE_KEY cmd of None \<Rightarrow> False | Some k \<Rightarrow> get_bool (ch_db s) k) then (Inr False, s)
        else case verify_sms_code cd None draws stamp now (ch_db s) of
          (Inl e, db) \<Rightarrow> (Inl e, s\<lparr>ch_db := db\<rparr>)
        | (Inr True, db) \<Rightarrow> (Inr True, s\<lparr>ch_db := db\<rparr>)
        | (Inr False, db) \<Rightarrow>
            (Inr False, s\<lparr>ch_db := db, ch_notes := ch_notes s @
               [''Rejected '' @ cmd @ '' from '' @ sender @ '' (wrong TOTP/backup code)'']\<rparr>))"

definition sms_on_command :: "string \<Rightarrow> string option \<Rightarrow> string \<Rightarrow> channel_state \<Rightarrow> (exn + unit) \<times> channel_state" where
  "sms_on_command cmd arg sender s =
    (Inr (), s\<lparr>ch_jobs := ch_jobs s @ [Execute (upper cmd) arg ''sms'' (Some sender)]\<rparr>)"

definition sms_whitelist :: "database \<Rightarrow> string list" where
  "sms_whitelist db = filter (\<lambda>s. s \<noteq> []) (map strip (splitlines (or_empty (settings_get db SMS_WHITELIST None))))"

definition sms_incoming ::
    "string list \<Rightarrow> nat \<Rightarrow> string list \<Rightarrow> string \<Rightarrow> time \<Rightarrow> string option \<Rightarrow> string \<Rightarrow> channel_state \<Rightarrow> sms_verdict \<times> channel_state" where
  "sms_incoming whitelist match_digits draws stamp now sender message s =
     sms_handle whitelist match_digits (\<lambda>c a cd snd' s. sms_authorize draws stamp now c a cd snd' s) sms_on_command sender message s"

section \<open>MQTT repair\<close>

definition REPAIR_GRACE :: "(string \<times> rat) list" where
  "REPAIR_GRACE = [(''no client'', 60), (''network thread dead'', 10), (''disconnected'', 300),
     (''subscription unconfirmed'', 45), (''healthcheck stale'', 15)]"

record repair =
  rp_defect :: "string option"
  rp_since :: time
  rp_repairs :: nat

definition no_repair :: repair where
  "no_repair = \<lparr>rp_defect = None, rp_since = 0, rp_repairs = 0\<rparr>"

definition repair_grace :: "string \<Rightarrow> nat \<Rightarrow> rat" where
  "repair_grace d repairs = (case map_of REPAIR_GRACE d of None \<Rightarrow> 60 | Some g \<Rightarrow> g) * 2 ^ min repairs 4"

text \<open>
  \<open>check_mqtt(now)\<close>: whether a reconnect is started. \<open>running\<close> is \<open>repair.is_alive()\<close> of an earlier one,
  \<open>defect\<close> what \<open>health_defect()\<close> says.
\<close>

definition check_mqtt :: "time \<Rightarrow> bool \<Rightarrow> string option \<Rightarrow> repair \<Rightarrow> bool \<times> repair" where
  "check_mqtt now running defect s =
    (if running then (False, s)
     else case defect of
       None \<Rightarrow> (False, s\<lparr>rp_defect := None, rp_repairs := 0\<rparr>)
     | Some d \<Rightarrow>
        if rp_defect s \<noteq> Some d then (False, s\<lparr>rp_defect := Some d, rp_since := now\<rparr>)
        else if now - rp_since s < repair_grace d (rp_repairs s) then (False, s)
        else (True, s\<lparr>rp_defect := None, rp_repairs := Suc (rp_repairs s)\<rparr>))"

fun check_run :: "(time \<times> bool \<times> string option) list \<Rightarrow> repair \<Rightarrow> bool list \<times> repair" where
  "check_run [] s = ([], s)"
| "check_run ((now, running, defect) # ts) s =
    (let (f, s1) = check_mqtt now running defect s; (fs, s2) = check_run ts s1 in (f # fs, s2))"

section \<open>Pending uploads\<close>

text \<open>\<open>check_uploads(now)\<close>: whether the job is queued, \<open>state["upload_offline"]\<close>, and the executor.\<close>

definition check_uploads :: "time \<Rightarrow> bool \<Rightarrow> bool \<Rightarrow> executor \<Rightarrow> bool \<times> bool \<times> executor" where
  "check_uploads now online offline ex =
    (if upload_job_queued ex \<or> pending_uploads ex = {} then (False, offline, ex)
     else if \<not> online \<and> \<not> get_bool (ex_db ex) AUTO_ENABLE_MOBILE_DATA then (False, True, ex)
     else
      let offline1 = \<not> online;
          ex1 = (if online \<and> offline then ex\<lparr>upload_retry_at := 0\<rparr> else ex)
      in if now < upload_retry_at ex1 then (False, offline1, ex1)
         else (True, offline1, ex1\<lparr>upload_job_queued := True\<rparr>))"

section \<open>The watchdog\<close>

definition ACTIVE_KEYS :: "string list" where
  "ACTIVE_KEYS = [RING_ENABLED, LOCK_ENABLED, DELETE_ENABLED, CAMERA_ENABLED, SMS_REMOTE_ENABLED, SMS_GPS_ENABLED]"

definition features_active :: "database \<Rightarrow> bool" where
  "features_active db \<longleftrightarrow> list_ex (get_bool db) ACTIVE_KEYS"

record serving =
  sv_ex :: executor
  sv_last_beat :: time
  sv_repair :: repair
  sv_offline :: bool
  sv_wifi :: "string option"

record watch_env =
  wd_stop :: bool
  wd_now :: time
  wd_running :: bool
  wd_defect :: "string option option"    \<comment> \<open>\<open>None\<close>: there is no MQTT client\<close>
  wd_online :: bool
  wd_connman :: "exn + connman_service list"
  wd_write_ok :: bool
  wd_listing :: "string list"

datatype watch_action = Reconnect | QueueJob job | RequestLocation | Quit

definition process_location_requests :: "time \<Rightarrow> database \<Rightarrow> watch_action list \<times> database" where
  "process_location_requests now db =
    (case consume_location_enable_request now db of (b, db') \<Rightarrow> (if b then [RequestLocation] else [], db'))"

definition process_publish_requests :: "time \<Rightarrow> database \<Rightarrow> watch_action list \<times> database" where
  "process_publish_requests now db =
    (case consume_location_publish_request now db of (b, db') \<Rightarrow> (if b then [QueueJob PublishFix] else [], db'))"

definition beat_if_due :: "string \<Rightarrow> int \<Rightarrow> watch_env \<Rightarrow> serving \<Rightarrow> serving" where
  "beat_if_due version gen env s =
    (if HEARTBEAT_INTERVAL_S \<le> wd_now env - sv_last_beat s then
       let db = write_heartbeat ''cmd'' ''active'' version (Some gen) (wd_now env) (ex_db (sv_ex s));
           (w, db') = publish_wifi_state (wd_connman env) (wd_write_ok env) (sv_wifi s) db
       in s\<lparr>sv_ex := (sv_ex s)\<lparr>ex_db := db'\<rparr>, sv_last_beat := wd_now env, sv_wifi := w\<rparr>
     else s)"

definition watchdog :: "string \<Rightarrow> int \<Rightarrow> watch_env \<Rightarrow> serving \<Rightarrow> bool \<times> serving \<times> watch_action list" where
  "watchdog version gen env s0 =
    (if wd_stop env then (False, s0, [Quit])
     else
      let s1 = beat_if_due version gen env s0;
          (force, rp) = (case wd_defect env of None \<Rightarrow> (False, sv_repair s1)
                         | Some d \<Rightarrow> check_mqtt (wd_now env) (wd_running env) d (sv_repair s1));
          (up, off, ex) = check_uploads (wd_now env) (wd_online env) (sv_offline s1) (sv_ex s1);
          (a1, db1) = process_location_requests (wd_now env) (ex_db ex);
          (a2, db2) = process_publish_requests (wd_now env) db1;
          s2 = s1\<lparr>sv_ex := ex\<lparr>ex_db := db2\<rparr>, sv_repair := rp, sv_offline := off\<rparr>;
          acts = (if force then [Reconnect] else []) @ (if up then [QueueJob (Uploads (wd_listing env))] else []) @ a1 @ a2
      in if generation db2 \<noteq> gen \<or> \<not> features_active db2 then (False, s2, acts @ [Quit]) else (True, s2, acts))"

section \<open>The ConnMan watcher\<close>

definition SETTLE_S :: rat where "SETTLE_S = 5"
definition ACTIONABLE_STATES :: "string list" where "ACTIONABLE_STATES = [''ready'', ''online'']"

record watcher =
  cw_state :: "string option"
  cw_timer :: "time option"          \<comment> \<open>when the one running timer is due\<close>

text \<open>What the timer finds: no client, or its local address, the preferred one and the defect.\<close>

datatype probe = NoClient | Probe "string option" "string option" "string option"

datatype watcher_event =
    PropertyChanged string string time
  | SettleTimer time bool probe
  | StopWatcher

definition on_property_changed :: "string \<Rightarrow> string \<Rightarrow> time \<Rightarrow> watcher \<Rightarrow> watcher" where
  "on_property_changed name v now w =
    (if name \<noteq> ''State'' then w
     else if v \<notin> set ACTIONABLE_STATES then w
     else w\<lparr>cw_state := Some v, cw_timer := Some (now + SETTLE_S)\<rparr>)"

definition needs_reconnect :: "bool \<Rightarrow> probe \<Rightarrow> bool" where
  "needs_reconnect stop p = (case p of NoClient \<Rightarrow> False
     | Probe ip preferred defect \<Rightarrow> \<not> stop \<and> \<not> (defect = None \<and> ip \<noteq> None \<and> preferred = ip))"

fun watcher_step :: "watcher \<Rightarrow> watcher_event \<Rightarrow> bool \<times> watcher" where
  "watcher_step w (PropertyChanged name v now) = (False, on_property_changed name v now w)"
| "watcher_step w (SettleTimer now stop p) =
    (case cw_timer w of
       Some due \<Rightarrow> if due \<le> now then (needs_reconnect stop p, w\<lparr>cw_timer := None\<rparr>) else (False, w)
     | None \<Rightarrow> (False, w))"
| "watcher_step w StopWatcher = (False, w\<lparr>cw_timer := None\<rparr>)"

fun watcher_run :: "watcher_event list \<Rightarrow> watcher \<Rightarrow> nat \<times> watcher" where
  "watcher_run [] w = (0, w)"
| "watcher_run (e # es) w =
    (let (r, w1) = watcher_step w e; (n, w2) = watcher_run es w1 in (n + (if r then 1 else 0), w2))"

section \<open>The main loop\<close>

definition CMD_IDLE_POLL_SECONDS :: rat where "CMD_IDLE_POLL_SECONDS = 15"

text \<open>
  \<open>_idle_sleep\<close>: each turn gives \<open>_stop\<close> and the clock before the wait, and the generation after it; the
  result is the list of waits.
\<close>

fun idle_sleep :: "int \<Rightarrow> time \<Rightarrow> (bool \<times> time \<times> int) list \<Rightarrow> rat list" where
  "idle_sleep gen deadline [] = []"
| "idle_sleep gen deadline ((stop, now, g) # turns) =
    (if stop then []
     else if deadline - now \<le> 0 then []
     else min (deadline - now) CMD_IDLE_POLL_SECONDS # (if g \<noteq> gen then [] else idle_sleep gen deadline turns))"

text \<open>
  One turn of \<open>main\<close>: the UI's wishes are served (inline, while no worker runs), the connected WiFi is
  mirrored, and the daemon serves the active phase for the generation read first or beats idle.
\<close>

datatype phase = ActivePhase int | IdlePhase int

definition main_turn :: "cmd_env \<Rightarrow> string \<Rightarrow> bool \<Rightarrow> string option \<Rightarrow> executor
    \<Rightarrow> phase \<times> watch_action list \<times> cmd_effect list \<times> string option \<times> executor" where
  "main_turn env version write_ok wifi ex0 =
    (let gen = generation (ex_db ex0);
         (a1, db1) = process_location_requests (c_now env) (ex_db ex0);
         (wish, db2) = consume_location_publish_request (c_now env) db1;
         (ex1, es) = (if wish then (case publish_latest_own_fix env (ex0\<lparr>ex_db := db2\<rparr>) of (_, ex, es) \<Rightarrow> (ex, es))
                      else (ex0\<lparr>ex_db := db2\<rparr>, []));
         (w, db3) = publish_wifi_state (c_connman env) write_ok wifi (ex_db ex1)
     in if features_active db3 then (ActivePhase gen, a1, es, w, ex1\<lparr>ex_db := db3\<rparr>)
        else (IdlePhase gen, a1, es, w,
              ex1\<lparr>ex_db := write_heartbeat ''cmd'' ''idle'' version (Some gen) (c_now env) db3\<rparr>))"

text \<open>
  The MQTT part of \<open>_run_active_phase\<close>: the client is set up whatever \<open>connect()\<close> returns; the teardown
  closes it.
\<close>

definition start_mqtt ::
    "database \<Rightarrow> bool \<Rightarrow> connect_outcome \<Rightarrow> (string \<Rightarrow> sub_outcome) \<Rightarrow> string \<Rightarrow> mqtt option" where
  "start_mqtt db paho oc so own_id =
    (if get_bool db MQTT_ENABLED \<and> paho \<and> setting_filled db MQTT_SERVER then
       Some (start_healthcheck so own_id HEALTHCHECK_INTERVAL_S HEALTHCHECK_TIMEOUT_S
         (subscribe_commands so own_id (snd (mqtt_connect oc (new_mqtt (str_opt (settings_get db MQTT_SERVER None)))))))
     else None)"

section \<open>Lemmas\<close>

text \<open>Which messages carry a token of the own PIN.\<close>

definition signed_by_own_pin :: "database \<Rightarrow> time \<Rightarrow> MqttClient.payload \<Rightarrow> bool" where
  "signed_by_own_pin db now p \<longleftrightarrow>
     (case Option.bind (get_own db) pin of
        None \<Rightarrow> False
      | Some k \<Rightarrow> k \<noteq> [] \<and> py_truthy (field p ''token'')
          \<and> (\<exists>w\<in>{-1, 0, 1}. py_str (field p ''token'') = command_mac k (Some (mqtt_cmd_of p)) (mqtt_arg_of p) (bucket_of now + w)))"

lemma verify_own_token:
  "verify_command_token (Option.bind (get_own db) pin) (Some (mqtt_cmd_of p)) (mqtt_arg_of p) (field p ''token'') now = Inr b
   \<Longrightarrow> b = signed_by_own_pin db now p"
  by (cases "Option.bind (get_own db) pin")
     (auto simp: verify_command_token_eq signed_by_own_pin_def split: if_splits)

lemma signed_not_raised:
  "signed_by_own_pin db now p \<Longrightarrow> \<exists>j. on_mqtt_command db now p = Inr (j, [])"
  by (cases "Option.bind (get_own db) pin")
     (auto simp: on_mqtt_command_def Let_def signed_by_own_pin_def verify_command_token_eq)

text \<open>The exception that escapes: a token that is not ASCII, while a PIN is set.\<close>

lemma non_ascii_token_raises:
  assumes "Option.bind (get_own db) pin = Some k" "k \<noteq> []" "py_truthy (field p ''token'')" "\<not> is_ascii (py_str (field p ''token''))"
  shows "on_mqtt_command db now p = Inl TypeError"
  using assms by (simp add: on_mqtt_command_def Let_def verify_command_token_eq)

lemma ack_job: "run_job env (Ack c r) ex
    = (ex\<lparr>ex_reason := None\<rparr>, if ex_mqtt ex then [AckSent c r (c_online env)] else [])"
  by (simp add: run_job_def exec_publish_ack_def)

lemma verify_sms_code_rejected:
  "verify_sms_code cd i draws stamp now db = (r, db') \<Longrightarrow> r \<noteq> Inr True \<Longrightarrow> db' = db"
  by (auto simp: verify_sms_code_def Let_def split: sum.splits prod.splits if_splits bool.splits)

lemma check_run_append:
  "check_run (xs @ ys) s = (let (f1, s1) = check_run xs s; (f2, s2) = check_run ys s1 in (f1 @ f2, s2))"
  by (induction xs arbitrary: s) (auto simp: Let_def split: prod.splits)

text \<open>A defect that every check sees keeps its clock until the reconnect.\<close>

lemma check_run_same_defect:
  assumes "rp_defect s = Some d" "\<forall>t\<in>set ts. t - rp_since s < repair_grace d (rp_repairs s)"
  shows "check_run (map (\<lambda>t. (t, False, Some d)) ts) s = (map (\<lambda>_. False) ts, s)"
  using assms by (induction ts) (auto simp: check_mqtt_def)

section \<open>Properties\<close>


definition signed_message :: MqttClient.payload where
  "signed_message = [''cmd'' \<mapsto> PStr ''LOCK'', ''token'' \<mapsto> PStr (command_mac ''1234'' (Some ''LOCK'') None (bucket_of 1000))]"

definition pin_db :: database where
  "pin_db = snd (update_device ''aB3dE6gH9k'' None (Some ''1234'') ''t'' first_start_db)"

lemma pin_db_pin: "Option.bind (get_own pin_db) pin = Some ''1234''"
  by code_simp

lemma mqtt_cmd_of_signed: "mqtt_cmd_of signed_message = ''LOCK''" "mqtt_arg_of signed_message = None"
proof -
  have "upper ''LOCK'' = ''LOCK''" by code_simp
  then show "mqtt_cmd_of signed_message = ''LOCK''" "mqtt_arg_of signed_message = None"
    by (simp_all add: mqtt_cmd_of_def mqtt_arg_of_def signed_message_def field_def)
qed

lemma signed_message_ok: "signed_by_own_pin pin_db 1000 signed_message"
  by (simp add: signed_by_own_pin_def pin_db_pin mqtt_cmd_of_signed)
     (simp add: signed_message_def field_def)


text \<open>
  C6. \<open>sms_command_authorised\<close>: an SMS queues a command only if its sender is whitelisted, its text
  parses, remote control by SMS and the command's own switch are on, and the code is accepted; then it
  queues exactly that command with the sender. Otherwise nothing is queued and the database is as
  before: a refused message never costs a backup code.
\<close>
theorem sms_command_authorised:
  assumes "sms_incoming whitelist k draws stamp now sender message s = (v, s')"
  shows "if v = Executed
     then (\<exists>cmd arg cd. sender_allowed (case sender of None \<Rightarrow> ''unknown'' | Some x \<Rightarrow> x) whitelist k
         \<and> parse_command message = Some (cmd, arg, cd)
         \<and> get_bool (ch_db s) SMS_REMOTE_ENABLED
         \<and> (\<exists>key. map_of FEATURE_KEY (upper cmd) = Some key \<and> get_bool (ch_db s) key)
         \<and> verify_sms_code cd None draws stamp now (ch_db s) = (Inr True, ch_db s')
         \<and> ch_jobs s' = ch_jobs s @ [Execute (upper cmd) arg ''sms'' (Some (case sender of None \<Rightarrow> ''unknown'' | Some x \<Rightarrow> x))])
     else ch_jobs s' = ch_jobs s \<and> ch_db s' = ch_db s"
  using assms
  by (auto simp: sms_incoming_def sms_handle_def sms_authorize_def sms_on_command_def Let_def
      split: if_splits option.splits prod.splits sum.splits bool.splits dest: verify_sms_code_rejected)

theorem sms_command_authorised_witness:
  "ch_db (snd (sms_incoming [''+491234567''] 6 [] ''t'' 0 (Some ''0049 123 4567'') ''LOCK 123456''
      \<lparr>ch_db = first_start_db, ch_jobs = [], ch_notes = []\<rparr>)) = first_start_db"
proof -
  let ?r = "sms_incoming [''+491234567''] 6 [] ''t'' 0 (Some ''0049 123 4567'') ''LOCK 123456''
      \<lparr>ch_db = first_start_db, ch_jobs = [], ch_notes = []\<rparr>"
  have "fst ?r = NotAuthorized" by code_simp
  with sms_command_authorised [OF prod.collapse [of ?r, symmetric]] show ?thesis by simp
qed

text \<open>
  C24. \<open>deaf_channel_repaired\<close>: when every check of the watchdog sees the same defect from \<open>t0\<close> on and no
  repair is running, none of the checks before the grace period of that defect (doubled for every
  failed repair, up to sixteen times) forces a reconnect, and the first one at or after its end does;
  a healthy check resets both the clock and the back-off.
\<close>
theorem deaf_channel_repaired:
  assumes "rp_defect s \<noteq> Some d" "grace = repair_grace d (rp_repairs s)" "\<forall>t\<in>set ts. t - t0 < grace"
  shows "fst (check_run (map (\<lambda>t. (t, False, Some d)) (t0 # ts @ [t1])) s)
      = replicate (Suc (length ts)) False @ [grace \<le> t1 - t0]
    \<and> (grace \<le> t1 - t0 \<longrightarrow>
        rp_repairs (snd (check_run (map (\<lambda>t. (t, False, Some d)) (t0 # ts @ [t1])) s)) = Suc (rp_repairs s))
    \<and> check_mqtt now False None s = (False, s\<lparr>rp_defect := None, rp_repairs := 0\<rparr>)
    \<and> repair_grace d n \<le> 16 * repair_grace d 0"
proof -
  let ?s1 = "s\<lparr>rp_defect := Some d, rp_since := t0\<rparr>"
  have first: "check_mqtt t0 False (Some d) s = (False, ?s1)" using assms(1) by (simp add: check_mqtt_def)
  have mid: "check_run (map (\<lambda>t. (t, False, Some d)) ts) ?s1 = (map (\<lambda>_. False) ts, ?s1)"
    by (rule check_run_same_defect) (use assms(2,3) in simp_all)
  have last': "check_mqtt t1 False (Some d) ?s1 =
      (if grace \<le> t1 - t0 then (True, ?s1\<lparr>rp_defect := None, rp_repairs := Suc (rp_repairs s)\<rparr>) else (False, ?s1))"
    by (simp add: check_mqtt_def assms(2) not_less)
  have "(2::rat) ^ min n 4 \<le> 2 ^ 4" by (rule power_increasing) simp_all
  then have "repair_grace d n \<le> 16 * repair_grace d 0"
    by (auto simp: repair_grace_def REPAIR_GRACE_def)
  then show ?thesis
    using first mid last' by (simp add: check_run_append map_replicate_const replicate_append_same check_mqtt_def)
qed

theorem deaf_channel_repaired_witness:
  "fst (check_run [(100, False, Some ''disconnected''), (105, False, Some ''disconnected''), (400, False, Some ''disconnected'')] no_repair)
    = [False, False, True]"
proof -
  have g: "repair_grace ''disconnected'' (rp_repairs no_repair) = 300" by (simp add: repair_grace_def REPAIR_GRACE_def no_repair_def)
  from deaf_channel_repaired [of no_repair "''disconnected''" 300 "[105]" 100 400] g show ?thesis
    by (simp add: no_repair_def)
qed

section \<open>The heartbeat\<close>

lemma runtime_set_heartbeat:
  "k \<notin> {beat_key d, state_key d, version_key d, applied_key d} \<Longrightarrow>
     read_heartbeat (runtime_set k v db) d now = read_heartbeat db d now"
  unfolding read_heartbeat_parse
  by (rule parse_heartbeat_cong) (auto simp: runtime_set_def runtime_upsert_def)

lemma consume_request_heartbeat:
  "k \<notin> {beat_key d, state_key d, version_key d, applied_key d} \<Longrightarrow>
     read_heartbeat (snd (consume_request k age t db)) d now = read_heartbeat db d now"
  by (auto simp: consume_request_def Let_def runtime_set_heartbeat)

lemma process_requests_heartbeat:
  "process_location_requests t db = (a, db') \<Longrightarrow> read_heartbeat db' ''cmd'' now = read_heartbeat db ''cmd'' now"
  "process_publish_requests t db = (a, db') \<Longrightarrow> read_heartbeat db' ''cmd'' now = read_heartbeat db ''cmd'' now"
proof -
  have k: "LOCATION_REQUEST_KEY \<notin> {beat_key ''cmd'', state_key ''cmd'', version_key ''cmd'', applied_key ''cmd''}"
    "PUBLISH_REQUEST_KEY \<notin> {beat_key ''cmd'', state_key ''cmd'', version_key ''cmd'', applied_key ''cmd''}"
    by (simp_all add: heartbeat_key_eqs)
  show "process_location_requests t db = (a, db') \<Longrightarrow> read_heartbeat db' ''cmd'' now = read_heartbeat db ''cmd'' now"
    using consume_request_heartbeat [OF k(1), of 300 t db now]
    by (auto simp: process_location_requests_def consume_location_enable_request_def split: prod.splits)
  show "process_publish_requests t db = (a, db') \<Longrightarrow> read_heartbeat db' ''cmd'' now = read_heartbeat db ''cmd'' now"
    using consume_request_heartbeat [OF k(2), of 600 t db now]
    by (auto simp: process_publish_requests_def consume_location_publish_request_def split: prod.splits)
qed

lemma publish_wifi_heartbeat:
  "publish_wifi_state q ok w db = (w', db') \<Longrightarrow> read_heartbeat db' ''cmd'' now = read_heartbeat db ''cmd'' now"
proof -
  have "CONNECTED_WIFI_KEY \<notin> {beat_key ''cmd'', state_key ''cmd'', version_key ''cmd'', applied_key ''cmd''}"
    by (simp add: heartbeat_key_eqs)
  then show "publish_wifi_state q ok w db = (w', db') \<Longrightarrow> ?thesis"
    by (auto simp: publish_wifi_state_def Let_def set_connected_wifi_def runtime_set_heartbeat split: if_splits)
qed

lemma check_uploads_db: "check_uploads now online off ex = (b, off', ex') \<Longrightarrow> ex_db ex' = ex_db ex"
  by (auto simp: check_uploads_def Let_def split: if_splits)

text \<open>The row of the last beat: its age at any time, and that it says \<open>active\<close>.\<close>

definition beaten :: "serving \<Rightarrow> bool" where
  "beaten s \<longleftrightarrow> (\<forall>now. age_s (read_heartbeat (ex_db (sv_ex s)) ''cmd'' now) = Some (max 0 (\<lfloor>now\<rfloor> - \<lfloor>sv_last_beat s\<rfloor>)))"

lemma beat_if_due_beaten:
  assumes "beaten s" "sv_last_beat s \<le> wd_now env"
  shows "beaten (beat_if_due version gen env s) \<and> wd_now env - sv_last_beat (beat_if_due version gen env s) < 30
    \<and> sv_last_beat (beat_if_due version gen env s) \<le> wd_now env"
proof (cases "HEARTBEAT_INTERVAL_S \<le> wd_now env - sv_last_beat s")
  case False
  with assms show ?thesis by (simp add: beat_if_due_def HEARTBEAT_INTERVAL_S_def)
next
  case True
  let ?db = "write_heartbeat ''cmd'' ''active'' version (Some gen) (wd_now env) (ex_db (sv_ex s))"
  obtain w db where p: "publish_wifi_state (wd_connman env) (wd_write_ok env) (sv_wifi s) ?db = (w, db)" by fastforce
  with True publish_wifi_heartbeat [OF p] show ?thesis
    by (simp add: beat_if_due_def Let_def beaten_def read_write_heartbeat)
qed

lemma watchdog_beaten:
  assumes "beaten s" "sv_last_beat s \<le> wd_now env" "\<not> wd_stop env" "watchdog version gen env s = (go, s', acts)"
  shows "beaten s' \<and> wd_now env - sv_last_beat s' < 30 \<and> sv_last_beat s' \<le> wd_now env"
proof -
  let ?s1 = "beat_if_due version gen env s"
  obtain up off ex where u: "check_uploads (wd_now env) (wd_online env) (sv_offline ?s1) (sv_ex ?s1) = (up, off, ex)"
    using prod_cases3 by blast
  obtain a1 db1 where l: "process_location_requests (wd_now env) (ex_db ex) = (a1, db1)" by fastforce
  obtain a2 db2 where q: "process_publish_requests (wd_now env) db1 = (a2, db2)" by fastforce
  have s': "ex_db (sv_ex s') = db2" "sv_last_beat s' = sv_last_beat ?s1"
    using assms(3,4) u l q by (auto simp: watchdog_def Let_def split: prod.splits if_splits)
  have "read_heartbeat db2 ''cmd'' now = read_heartbeat (ex_db (sv_ex ?s1)) ''cmd'' now" for now
    using process_requests_heartbeat(1) [OF l] process_requests_heartbeat(2) [OF q] check_uploads_db [OF u] by simp
  with beat_if_due_beaten [OF assms(1,2), of version gen] s' show ?thesis by (simp add: beaten_def)
qed

text \<open>The ticks of one active phase; also the time of the last one run.\<close>

fun watchdog_run :: "string \<Rightarrow> int \<Rightarrow> watch_env list \<Rightarrow> time \<Rightarrow> serving \<Rightarrow> time \<times> serving" where
  "watchdog_run version gen [] t s = (t, s)"
| "watchdog_run version gen (env # envs) t s =
    (case watchdog version gen env s of
       (go, s', _) \<Rightarrow> if go then watchdog_run version gen envs (wd_now env) s' else (wd_now env, s'))"

text \<open>The state in which \<open>_run_active_phase\<close> starts its main loop.\<close>

definition start_serving :: "string \<Rightarrow> int \<Rightarrow> time \<Rightarrow> executor \<Rightarrow> serving" where
  "start_serving version gen now ex =
     \<lparr>sv_ex = ex\<lparr>ex_db := write_heartbeat ''cmd'' ''active'' version (Some gen) now (ex_db ex)\<rparr>,
      sv_last_beat = now, sv_repair = no_repair, sv_offline = False, sv_wifi = None\<rparr>"

lemma start_serving_beaten: "beaten (start_serving version gen now ex)"
  by (simp add: beaten_def start_serving_def read_write_heartbeat)

lemma watchdog_run_beaten:
  assumes "beaten s" "sv_last_beat s \<le> t" "t - sv_last_beat s < 30" "sorted (t # map wd_now envs)"
    and "\<forall>env\<in>set envs. \<not> wd_stop env" "watchdog_run version gen envs t s = (t', s')"
  shows "beaten s' \<and> sv_last_beat s' \<le> t' \<and> t' - sv_last_beat s' < 30"
  using assms
proof (induction envs arbitrary: t s)
  case Nil
  then show ?case by simp
next
  case (Cons env envs)
  obtain go s1 acts where w: "watchdog version gen env s = (go, s1, acts)" using prod_cases3 by blast
  have le: "sv_last_beat s \<le> wd_now env" using Cons.prems(2,4) by auto
  have b: "beaten s1 \<and> wd_now env - sv_last_beat s1 < 30 \<and> sv_last_beat s1 \<le> wd_now env"
    by (rule watchdog_beaten [OF Cons.prems(1) le _ w]) (use Cons.prems(5) in simp)
  show ?case
  proof (cases go)
    case False
    with Cons.prems(6) w b show ?thesis by auto
  next
    case True
    with Cons.IH [of s1 "wd_now env"] Cons.prems(4-6) w b show ?thesis by simp
  qed
qed

text \<open>
  C23. \<open>heartbeat_kept_fresh\<close>: from the start of an active phase through any sequence of watchdog ticks,
  whatever they find to do, the UI never sees the daemon as stopped until a minute after the last
  tick: the beat is at most 30 seconds old after each of them.
\<close>
theorem heartbeat_kept_fresh:
  assumes "sorted (t0 # map wd_now envs)" "list_all (\<lambda>env. \<not> wd_stop env) envs"
    and "watchdog_run version gen envs t0 (start_serving version gen t0 ex) = (t, s)"
    and "t \<le> now" "now \<le> t + 60"
  shows "daemon_status (ex_db (sv_ex s)) ''cmd'' now \<noteq> ''not_installed_or_stopped''
    \<and> (\<exists>age. age_s (read_heartbeat (ex_db (sv_ex s)) ''cmd'' t) = Some age \<and> age \<le> 30)"
proof -
  have b: "beaten s \<and> sv_last_beat s \<le> t \<and> t - sv_last_beat s < 30"
    by (rule watchdog_run_beaten [OF start_serving_beaten _ _ assms(1) _ assms(3)])
       (use assms(2) in \<open>simp_all add: start_serving_def list_all_iff\<close>)
  have "\<lfloor>now\<rfloor> \<le> \<lfloor>sv_last_beat s + of_int 90\<rfloor>" by (rule floor_mono) (use b assms(5) in simp)
  then have "\<lfloor>now\<rfloor> - \<lfloor>sv_last_beat s\<rfloor> \<le> 90" unfolding floor_add_int by simp
  then have "daemon_status (ex_db (sv_ex s)) ''cmd'' now \<noteq> ''not_installed_or_stopped''"
    using b by (simp add: daemon_status_def status_from_def beaten_def HEARTBEAT_FRESH_S_def not_less split: option.splits)
  moreover have "\<lfloor>t\<rfloor> \<le> \<lfloor>sv_last_beat s + of_int 30\<rfloor>" by (rule floor_mono) (use b in simp)
  then have "\<lfloor>t\<rfloor> - \<lfloor>sv_last_beat s\<rfloor> \<le> 30" unfolding floor_add_int by simp
  ultimately show ?thesis using b by (simp add: beaten_def)
qed

theorem heartbeat_kept_fresh_witness:
  "daemon_status (ex_db (sv_ex (snd (watchdog_run ''1'' 0 [] 100 (start_serving ''1'' 0 100 demo_ex))))) ''cmd'' 150
     \<noteq> ''not_installed_or_stopped''"
  using heartbeat_kept_fresh [of 100 "[]" "''1''" 0 demo_ex 100 "start_serving ''1'' 0 100 demo_ex" 150] by simp

section \<open>The command subscription\<close>

text \<open>No operation of the wrapper takes a wanted topic away.\<close>

lemma add_sub_topics: "insert t (topics m) = topics (add_sub so t k m)"
  by (auto simp: add_sub_def Let_def topics_def subscribe_now_def topics_dict_set split: sub_outcome.splits)

lemma subscribe_now_topics [simp]: "topics (subscribe_now so t m) = topics m"
  by (simp add: subscribe_now_def split: sub_outcome.splits)

lemma disconnect_topics [simp]: "topics (mqtt_disconnect m) = topics m" "topics (drop_subscriptions m) = topics m"
  by (simp_all add: mqtt_disconnect_def drop_subscriptions_def)

lemma connect_topics [simp]: "topics (snd (mqtt_connect oc m)) = topics m"
  by (auto simp: mqtt_connect_def fresh_client_def Let_def split: connect_outcome.splits)

lemma fold_subscribe_topics [simp]: "topics (fold (\<lambda>(t, k). subscribe_now so t) ts m) = topics m"
  by (induction ts arbitrary: m) auto

lemma handle_connect_topics [simp]: "topics (snd (handle_connect c rc so m)) = topics m"
  by (simp add: handle_connect_def Let_def)

lemma repair_topics: "topics (fst (snd (repair_and_send env t b r w m))) = topics m"
proof -
  have rw: "topics (snd (reconnect_and_wait oc ca m)) = topics m" for oc ca
    using connect_topics [of oc "mqtt_disconnect m"]
    by (cases "mqtt_connect oc (mqtt_disconnect m)")
       (simp add: reconnect_and_wait_def force_reconnect_def del: connect_topics split: bool.splits option.splits)
  obtain ok m1 where r: "reconnect_and_wait (e_reconnect env) (e_connack env) m = (ok, m1)" by fastforce
  with rw [of "e_reconnect env" "e_connack env"] show ?thesis
    by (auto simp: repair_and_send_def send_once_def refresh_connected_def Let_def split: bool.splits option.splits)
qed

lemma publish_topics: "topics (fst (snd (mqtt_publish env t b r w m))) = topics m"
proof -
  obtain ok m1 ss where s: "send_once (e_first env) (e_first_pc env) t b r w PUBLISH_ACK_TIMEOUT_S m = (ok, m1, ss)"
    using prod_cases3 by blast
  then have "topics m1 = topics m"
    by (auto simp: send_once_def refresh_connected_def Let_def split: option.splits if_splits)
  with s repair_topics [of env t b r w m] repair_topics [of env t b r w m1] show ?thesis
    by (auto simp: mqtt_publish_def split: prod.splits bool.splits)
qed

lemma publish_topics_eq: "mqtt_publish env t b r w m = (ok, m', ss) \<Longrightarrow> topics m' = topics m"
  using publish_topics [of env t b r w m] by simp

lemma mqtt_step_topics: "topics m \<subseteq> topics (mqtt_step m e)"
proof (cases e)
  case (AddSub so t k)
  then show ?thesis using add_sub_topics [of t m so k] by auto
next
  case (Publish env t b r w)
  then show ?thesis by (simp add: publish_topics)
next
  case (StartHealthcheck so d i t)
  then show ?thesis
    using add_sub_topics [of "topic_health d" "m\<lparr>hc_topic := Some (topic_health d), hc_interval := i, hc_timeout := t,
        hc_unanswered_since := 0, hc_last_echo := 0\<rparr>" so "''hc''"]
    by (auto simp: start_healthcheck_def Let_def)
next
  case (Beat env now)
  then show ?thesis by (auto simp: healthcheck_beat_def Let_def split: prod.splits option.splits dest: publish_topics_eq)
qed (auto simp: mqtt_close_def stop_healthcheck_def force_reconnect_def handle_disconnect_def handle_subscribe_def
      handle_message_def Let_def split: option.splits decoded.splits)

lemma run_topics: "topics m \<subseteq> topics (run_events mqtt_step m es)"
  by (induction es arbitrary: m) (auto dest: subsetD [OF mqtt_step_topics])

lemma fold_subscribe_pending:
  assumes "inj mid" "t \<in> fst ` set ts \<or> subs_pending m (mid t) = Some t"
  shows "subs_pending (fold (\<lambda>(t, k). subscribe_now (\<lambda>t. SubQueued (mid t)) t) ts m) (mid t) = Some t"
  using assms(2)
proof (induction ts arbitrary: m)
  case Nil
  then show ?case by simp
next
  case (Cons tk ts)
  obtain t' k where tk: "tk = (t', k)" by (cases tk)
  have "t \<in> fst ` set ts \<or> subs_pending (subscribe_now (\<lambda>t. SubQueued (mid t)) t' m) (mid t) = Some t"
    using Cons.prems tk assms(1) by (auto simp: subscribe_now_def inj_eq)
  from Cons.IH [OF this] show ?case by (simp add: tk)
qed

lemma start_mqtt_topics:
  "start_mqtt db paho oc so own_id = Some m \<Longrightarrow> topic_cmd own_id \<in> topics m"
proof -
  assume a: "start_mqtt db paho oc so own_id = Some m"
  let ?m0 = "snd (mqtt_connect oc (new_mqtt (str_opt (settings_get db MQTT_SERVER None))))"
  have "topic_cmd own_id \<in> topics (subscribe_commands so own_id ?m0)"
    using add_sub_topics [of "topic_cmd own_id" ?m0 so "''cmd''"] by (auto simp: subscribe_commands_def)
  with a mqtt_step_topics [of "subscribe_commands so own_id ?m0"
      "StartHealthcheck so own_id HEALTHCHECK_INTERVAL_S HEALTHCHECK_TIMEOUT_S"]
  show ?thesis by (auto simp: start_mqtt_def split: if_splits)
qed

text \<open>
  Whatever \<open>connect()\<close> did when the MQTT channel was started, and
  whatever happens to the client afterwards, every later successful CONNACK of its current connection
  asks the broker for the own command topic again, and until the SUBACK arrives the watchdog sees a
  defect.
\<close>
lemma commands_always_subscribed:
  assumes "start_mqtt db paho oc so0 own_id = Some m0" "m = run_events mqtt_step m0 es" "m_client m = Some c"
    and "inj mid" "m' = snd (handle_connect c 0 (\<lambda>t. SubQueued (mid t)) m)"
  shows "subs_pending m' (mid (topic_cmd own_id)) = Some (topic_cmd own_id)
    \<and> topic_cmd own_id \<notin> subs_confirmed m' \<and> health_defect alive pc now m' \<noteq> None"
proof -
  have t: "topic_cmd own_id \<in> topics m"
    unfolding assms(2) using start_mqtt_topics [OF assms(1)] run_topics [of m0 es] by blast
  have sub: "subs (drop_subscriptions (m\<lparr>m_connected := True, conn_event := True\<rparr>)) = subs m"
    by (simp add: drop_subscriptions_def)
  have p: "subs_pending m' (mid (topic_cmd own_id)) = Some (topic_cmd own_id)"
    using t assms(3,5) fold_subscribe_pending [OF assms(4), of "topic_cmd own_id" "subs m"
        "drop_subscriptions (m\<lparr>m_connected := True, conn_event := True\<rparr>)"]
    by (simp add: handle_connect_def Let_def topics_def sub)
  have conf: "subs_confirmed (fold (\<lambda>(t, k). subscribe_now so t) ts m1) = subs_confirmed m1" for so ts and m1 :: mqtt
    by (induction ts arbitrary: m1) (auto simp: subscribe_now_def split: sub_outcome.splits)
  have n: "subs_confirmed m' = {}"
    using assms(3,5) by (simp add: handle_connect_def Let_def conf) (simp add: drop_subscriptions_def)
  have "topic_cmd own_id \<in> topics m'" using t assms(5) by simp
  then have "\<not> subscriptions_ok m'" using n by (auto simp: subscriptions_ok_def topics_def)
  then show ?thesis using p n by (simp add: health_defect_def)
qed

definition mqtt_on_db :: database where
  "mqtt_on_db = settings_set_many [(MQTT_ENABLED, PBool True), (MQTT_SERVER, PStr ''m'')] first_start_db"

definition mid_of :: "string \<Rightarrow> nat" where
  "mid_of = to_nat"

lemma mqtt_started: "start_mqtt mqtt_on_db True SetupFails (\<lambda>_. SubRaises) ''aB3dE6gH9k'' \<noteq> None"
proof -
  have "get_bool mqtt_on_db MQTT_ENABLED" "setting_filled mqtt_on_db MQTT_SERVER" by code_simp+
  then show ?thesis by (simp add: start_mqtt_def)
qed

section \<open>Handover\<close>

fun is_change :: "watcher_event \<Rightarrow> bool" where
  "is_change (PropertyChanged _ _ _) \<longleftrightarrow> True"
| "is_change _ \<longleftrightarrow> False"

fun is_settle :: "watcher_event \<Rightarrow> bool" where
  "is_settle (SettleTimer _ _ _) \<longleftrightarrow> True"
| "is_settle _ \<longleftrightarrow> False"

lemma watcher_run_append:
  "watcher_run (xs @ ys) w = (let (n, w1) = watcher_run xs w; (k, w2) = watcher_run ys w1 in (n + k, w2))"
  by (induction xs arbitrary: w) (auto simp: Let_def split: prod.splits)

lemma watcher_run_changes: "list_all is_change es \<Longrightarrow> fst (watcher_run es w) = 0"
proof (induction es arbitrary: w)
  case (Cons e es)
  then show ?case by (cases e) (auto simp: Let_def split: prod.splits dest: Cons.IH [of "on_property_changed _ _ _ w"])
qed simp

lemma watcher_run_no_timer: "list_all is_settle es \<Longrightarrow> cw_timer w = None \<Longrightarrow> watcher_run es w = (0, w)"
proof (induction es arbitrary: w)
  case (Cons e es)
  then show ?case by (cases e) auto
qed simp



end
