(* ===== verification/UiState.thy ===== *)
theory UiState
  imports MqttClient RingControl GpsDaemon Tokens
begin

text \<open>
  \<open>qml/utilities/api.py\<close>, first part: the module's global state, the signals to QML, the UI's MQTT
  client with what is parked for its next connection, and the button state kept by timers. A timer is
  a \<open>threading.Timer\<close> that still runs; its token is the one the callback compares.
\<close>

section \<open>State\<close>

datatype ui_signal =
    MapUpdated
  | DevicesUpdated
  | CommandResult string pyval pyval
  | LocationFix bool string
  | RequestGpsFix int int

datatype ui_timer =
    AckTimer string string nat time        \<comment> \<open>device, command, token, due\<close>
  | RingTimer string nat time              \<comment> \<open>device, token, due\<close>

type_synonym cmd_job = "string \<times> string \<times> GpsDaemon.payload \<times> bool"

record ui =
  ui_db :: database
  ui_mqtt :: "mqtt option"
  pending_location :: "(string \<times> GpsDaemon.payload) option"
  pending_acks :: "string \<rightharpoonup> nat"
  timed_out :: "string set"
  ack_seq :: nat
  command_queue :: "cmd_job list"
  pending_commands :: "(string \<times> string \<times> GpsDaemon.payload \<times> time) list"
  ringing :: "string set"
  ring_timers :: "string \<rightharpoonup> nat"
  timers :: "ui_timer list"
  started :: "ui_timer list"               \<comment> \<open>every timer ever started, run or not\<close>
  net_online :: bool
  net_checked :: time
  net_probing :: bool
  handover_ts :: time
  background :: "string list"              \<comment> \<open>threads started and not yet run, by their target\<close>
  emitted :: "ui_signal list"

definition new_ui :: "database \<Rightarrow> ui" where
  "new_ui db = \<lparr>ui_db = db, ui_mqtt = None, pending_location = None, pending_acks = Map.empty, timed_out = {},
     ack_seq = 0, command_queue = [], pending_commands = [], ringing = {}, ring_timers = Map.empty, timers = [], started = [],
     net_online = True, net_checked = 0, net_probing = False, handover_ts = 0, background = [], emitted = []\<rparr>"

definition emit :: "ui_signal \<Rightarrow> ui \<Rightarrow> ui" where
  "emit sig s = s\<lparr>emitted := emitted s @ [sig]\<rparr>"

definition spawn :: "string \<Rightarrow> ui \<Rightarrow> ui" where
  "spawn target s = s\<lparr>background := background s @ [target]\<rparr>"

definition ACK_TIMEOUT_S :: rat where "ACK_TIMEOUT_S = 60"
definition PENDING_CMD_TTL_S :: rat where "PENDING_CMD_TTL_S = 60"
definition RING_AUTOCLEAR_S :: rat where "RING_AUTOCLEAR_S = 65"
definition NET_TTL_S :: rat where "NET_TTL_S = 10"
definition HANDOVER_TTL_S :: rat where "HANDOVER_TTL_S = 10"
definition RETRY_COMMANDS :: "string list" where "RETRY_COMMANDS = [''STOP_RING'']"

section \<open>\<open>json.dumps\<close> of a flat object\<close>

definition json_char :: "char \<Rightarrow> string" where
  "json_char c =
    (if c = CHR 0x22 then [CHR 0x5C, CHR 0x22]
     else if c = CHR 0x5C then [CHR 0x5C, CHR 0x5C]
     else if code c = 10 then [CHR 0x5C, CHR ''n'']
     else if code c = 13 then [CHR 0x5C, CHR ''r'']
     else if code c = 9 then [CHR 0x5C, CHR ''t'']
     else if code c = 8 then [CHR 0x5C, CHR ''b'']
     else if code c = 12 then [CHR 0x5C, CHR ''f'']
     else if code c < 32 \<or> 126 < code c
       then CHR 0x5C # ''u00'' @ [''0123456789abcdef'' ! (code c div 16), ''0123456789abcdef'' ! (code c mod 16)]
     else [c])"

definition json_str :: "string \<Rightarrow> string" where
  "json_str s = [CHR 0x22] @ concat (map json_char s) @ [CHR 0x22]"

fun json_val :: "pyval \<Rightarrow> string" where
  "json_val PNone = ''null''"
| "json_val (PBool b) = (if b then ''true'' else ''false'')"
| "json_val (PInt i) = dec_int i"
| "json_val (PFloat _ s) = s"
| "json_val (PStr s) = json_str s"
| "json_val (PCont s _) = s"

definition json_dumps :: "GpsDaemon.payload \<Rightarrow> string" where
  "json_dumps p = ''{'' @ join '', '' (map (\<lambda>(k, v). json_str k @ '': '' @ json_val v) p) @ ''}''"

section \<open>Timers of the buttons\<close>

fun timer_token :: "ui_timer \<Rightarrow> nat" where
  "timer_token (AckTimer d c k due) = k"
| "timer_token (RingTimer d k due) = k"

text \<open>\<open>timer.cancel()\<close> of the entry found in the dictionary, if there was one.\<close>

definition cancel :: "nat option \<Rightarrow> ui_timer list \<Rightarrow> ui_timer list" where
  "cancel entry ts = (case entry of None \<Rightarrow> ts | Some k \<Rightarrow> filter (\<lambda>t. timer_token t \<noteq> k) ts)"

definition start_timer :: "ui_timer \<Rightarrow> ui \<Rightarrow> ui" where
  "start_timer t s = s\<lparr>timers := timers s @ [t], started := started s @ [t]\<rparr>"

definition mark_ringing :: "time \<Rightarrow> string \<Rightarrow> ui \<Rightarrow> ui" where
  "mark_ringing now d s =
    (let k = Suc (ack_seq s)
     in start_timer (RingTimer d k (now + RING_AUTOCLEAR_S))
          (s\<lparr>ack_seq := k, ringing := insert d (ringing s), ring_timers := (ring_timers s)(d \<mapsto> k),
             timers := cancel (ring_timers s d) (timers s)\<rparr>))"

definition clear_ringing :: "string \<Rightarrow> ui \<Rightarrow> ui" where
  "clear_ringing d s =
     s\<lparr>ringing := ringing s - {d}, ring_timers := (ring_timers s)(d := None),
       timers := cancel (ring_timers s d) (timers s)\<rparr>"

definition on_ring_autoclear :: "string \<Rightarrow> nat \<Rightarrow> ui \<Rightarrow> ui" where
  "on_ring_autoclear d k s =
    (if ring_timers s d \<noteq> Some k then s
     else emit DevicesUpdated (s\<lparr>ring_timers := (ring_timers s)(d := None), ringing := ringing s - {d}\<rparr>))"

definition arm_ack_timeout :: "time \<Rightarrow> string \<Rightarrow> string \<Rightarrow> ui \<Rightarrow> ui" where
  "arm_ack_timeout now d cmd s =
    (let k = Suc (ack_seq s)
     in start_timer (AckTimer d cmd k (now + ACK_TIMEOUT_S))
          (s\<lparr>timed_out := timed_out s - {d}, ack_seq := k, pending_acks := (pending_acks s)(d \<mapsto> k),
             timers := cancel (pending_acks s d) (timers s)\<rparr>))"

definition clear_ack_timeout :: "string \<Rightarrow> ui \<Rightarrow> ui" where
  "clear_ack_timeout d s =
     s\<lparr>pending_acks := (pending_acks s)(d := None), timed_out := timed_out s - {d},
       timers := cancel (pending_acks s d) (timers s)\<rparr>"

definition on_ack_timeout :: "string \<Rightarrow> string \<Rightarrow> nat \<Rightarrow> ui \<Rightarrow> ui" where
  "on_ack_timeout d cmd k s =
    (if pending_acks s d \<noteq> Some k then s
     else emit DevicesUpdated (emit (CommandResult d (PStr cmd) (PStr ''timeout''))
       (s\<lparr>pending_acks := (pending_acks s)(d := None), timed_out := insert d (timed_out s)\<rparr>)))"

text \<open>
  A timer that was started runs its function, perhaps after a \<open>cancel()\<close> that came too late; nothing
  else calls these two.
\<close>

definition timer_call :: "ui_timer \<Rightarrow> ui \<Rightarrow> ui" where
  "timer_call t s =
    (if t \<notin> set (started s) then s
     else
      let s1 = s\<lparr>timers := filter (\<lambda>x. x \<noteq> t) (timers s)\<rparr>
      in case t of AckTimer d cmd k due \<Rightarrow> on_ack_timeout d cmd k s1 | RingTimer d k due \<Rightarrow> on_ring_autoclear d k s1)"

section \<open>The UI's MQTT client\<close>

text \<open>What the outside answers while a client is built and connects.\<close>

record start_env =
  st_draws :: "string list"
  st_stamp :: string
  st_paho :: bool
  st_outcome :: connect_outcome
  st_subs :: "string \<Rightarrow> sub_outcome"

definition ui_server :: "database \<Rightarrow> string" where
  "ui_server db = str_opt (settings_get db MQTT_SERVER None)"

definition subscribe_remotes :: "(string \<Rightarrow> sub_outcome) \<Rightarrow> string list \<Rightarrow> mqtt \<Rightarrow> mqtt" where
  "subscribe_remotes so ids m = fold (\<lambda>d m. subscribe_ack so d (subscribe_location so d m)) ids m"

definition remote_ids :: "database \<Rightarrow> string list" where
  "remote_ids db = map device_id (filter (\<lambda>d. is_own d \<noteq> 1) (list_devices db))"

definition start_ui_mqtt :: "start_env \<Rightarrow> ui \<Rightarrow> (exn + unit) \<times> ui" where
  "start_ui_mqtt env s =
    (if \<not> get_bool (ui_db s) MQTT_ENABLED \<or> \<not> setting_filled (ui_db s) MQTT_SERVER \<or> \<not> st_paho env
     then (Inr (), s\<lparr>ui_mqtt := None\<rparr>)
     else case own_device_id (st_draws env) (st_stamp env) (ui_db s) of
       (Inl e, db) \<Rightarrow> (Inl e, s\<lparr>ui_db := db\<rparr>)
     | (Inr None, db) \<Rightarrow> (Inl TypeError, s\<lparr>ui_db := db\<rparr>)
     | (Inr (Some own_id), db) \<Rightarrow>
        (case mqtt_connect (st_outcome env) (new_mqtt (ui_server (ui_db s))) of
           (ok, m) \<Rightarrow> (Inr (), s\<lparr>ui_db := db, ui_mqtt := Some
             (if ok then subscribe_ack (st_subs env) own_id (subscribe_remotes (st_subs env) (remote_ids db) m) else m)\<rparr>)))"

section \<open>Flushing on a new connection\<close>

text \<open>
  Both run in the callback of the CONNACK and publish without waiting. \<open>penv\<close> is what each publish
  meets.
\<close>

definition flush_pending_location :: "publish_env \<Rightarrow> ui \<Rightarrow> ui" where
  "flush_pending_location penv s =
    (case (pending_location s, ui_mqtt s) of
       (Some (own_id, p), Some m) \<Rightarrow>
         (case publish_location penv own_id (json_dumps p) False m of
            (ok, m', _) \<Rightarrow> s\<lparr>ui_mqtt := Some m', pending_location := (if ok then None else pending_location s)\<rparr>)
     | _ \<Rightarrow> s)"

fun send_due :: "(string \<Rightarrow> publish_env) \<Rightarrow> (string \<times> string \<times> GpsDaemon.payload \<times> time) list \<Rightarrow> mqtt \<Rightarrow> ui_signal list \<times> mqtt" where
  "send_due penv [] m = ([], m)"
| "send_due penv ((d, cmd, p, deadline) # due) m =
    (case publish_command (penv d) d (json_dumps p) False m of
       (ok, m1, _) \<Rightarrow>
         (case send_due penv due m1 of
            (sigs, m2) \<Rightarrow> (CommandResult d (PStr cmd) (PStr (if ok then ''sent'' else ''mqtt_offline'')) # sigs, m2)))"

definition flush_pending_commands :: "time \<Rightarrow> (string \<Rightarrow> publish_env) \<Rightarrow> ui \<Rightarrow> ui" where
  "flush_pending_commands now penv s =
    (let due = filter (\<lambda>(d, cmd, p, deadline). now < deadline) (pending_commands s);
         s1 = s\<lparr>pending_commands := []\<rparr>
     in case ui_mqtt s of
          None \<Rightarrow> s1
        | Some m \<Rightarrow> (case send_due penv due m of (sigs, m') \<Rightarrow> s1\<lparr>ui_mqtt := Some m', emitted := emitted s1 @ sigs\<rparr>))"

definition on_ui_connected :: "time \<Rightarrow> publish_env \<Rightarrow> (string \<Rightarrow> publish_env) \<Rightarrow> ui \<Rightarrow> ui" where
  "on_ui_connected now lenv penv s = flush_pending_commands now penv (flush_pending_location lenv s)"

section \<open>Handover and reachability\<close>

text \<open>\<open>_handover_detected\<close>: every answer that is missing or raises means no.\<close>

definition handover_detected :: "string \<Rightarrow> exn + string option \<Rightarrow> exn + string option \<Rightarrow> ui \<Rightarrow> bool" where
  "handover_detected srv current preferred s =
    (if srv = [] \<or> ui_mqtt s = None then False
     else case (current, preferred) of
       (Inr (Some c), Inr (Some p)) \<Rightarrow> p \<noteq> c
     | _ \<Rightarrow> False)"

record handover_env =
  ho_now :: time
  ho_current :: "exn + string option"
  ho_preferred :: "exn + string option"
  ho_start :: start_env
  ho_connack :: "(string \<Rightarrow> sub_outcome) option"    \<comment> \<open>the CONNACK that arrives while it waits\<close>
  ho_lenv :: publish_env
  ho_penv :: "string \<Rightarrow> publish_env"

definition connack_arrives :: "time \<Rightarrow> (string \<Rightarrow> sub_outcome) \<Rightarrow> publish_env \<Rightarrow> (string \<Rightarrow> publish_env) \<Rightarrow> ui \<Rightarrow> ui" where
  "connack_arrives now so lenv penv s =
    (case ui_mqtt s of
       None \<Rightarrow> s
     | Some m \<Rightarrow>
        (case m_client m of
           None \<Rightarrow> s
         | Some c \<Rightarrow>
            (case handle_connect c 0 so m of
               (True, m') \<Rightarrow> on_ui_connected now lenv penv (s\<lparr>ui_mqtt := Some m'\<rparr>)
             | (False, m') \<Rightarrow> s\<lparr>ui_mqtt := Some m'\<rparr>)))"

definition repair_if_handover :: "handover_env \<Rightarrow> ui \<Rightarrow> (exn + bool) \<times> ui" where
  "repair_if_handover env s =
    (if ho_now env - handover_ts s < HANDOVER_TTL_S then (Inr False, s)
     else
      let s1 = s\<lparr>handover_ts := ho_now env\<rparr>
      in if \<not> handover_detected (case settings_get (ui_db s) MQTT_SERVER None of None \<Rightarrow> [] | Some v \<Rightarrow> v)
            (ho_current env) (ho_preferred env) s1 then (Inr False, s1)
         else
          (case start_ui_mqtt (ho_start env) (s1\<lparr>net_checked := 0\<rparr>) of
             (Inl e, s2) \<Rightarrow> (Inl e, s2)
           | (Inr _, s2) \<Rightarrow>
              (Inr True, case ho_connack env of
                 None \<Rightarrow> s2
               | Some so \<Rightarrow> connack_arrives (ho_now env) so (ho_lenv env) (ho_penv env) s2)))"

definition network_online :: "time \<Rightarrow> ui \<Rightarrow> bool \<times> ui" where
  "network_online now s =
    (net_online s,
     if NET_TTL_S < now - net_checked s \<and> \<not> net_probing s
     then spawn ''_probe_network'' (s\<lparr>net_probing := True\<rparr>) else s)"

definition probe_network :: "bool \<Rightarrow> time \<Rightarrow> handover_env \<Rightarrow> ui \<Rightarrow> (exn + unit) \<times> ui" where
  "probe_network online now env s =
    (let changed = (online \<noteq> net_online s);
         s1 = s\<lparr>net_online := online, net_checked := now, net_probing := False\<rparr>
     in case (if online then repair_if_handover env s1 else (Inr False, s1)) of
          (Inl e, s2) \<Rightarrow> (Inl e, s2)
        | (Inr _, s2) \<Rightarrow> (Inr (), if changed then emit MapUpdated s2 else s2))"

end
