(* ===== verification/UiCommands.thy ===== *)
theory UiCommands
  imports UiState CmdServe
begin

text \<open>
  \<open>qml/utilities/api.py\<close>, second part: remote commands and the devices page. A tap signs a command and
  queues it; the worker publishes, parks or gives up; acknowledgements, timers and edits of the device
  list move the state of the buttons that \<open>list_devices\<close> shows.
\<close>

section \<open>Sending\<close>

definition command_payload :: "string \<Rightarrow> string \<Rightarrow> string \<Rightarrow> time \<Rightarrow> GpsDaemon.payload" where
  "command_payload k cmd arg now =
     [(''cmd'', PStr cmd), (''token'', PStr (make_command_token k (Some cmd) (Some arg) now))]
       @ (if arg = [] then [] else [(''arg'', PStr arg)])"

text \<open>The ringing state follows the tap, not the delivery.\<close>

definition toggle_ringing :: "time \<Rightarrow> string \<Rightarrow> string \<Rightarrow> ui \<Rightarrow> ui" where
  "toggle_ringing now d cmd s =
    (if cmd = ''RING'' then emit DevicesUpdated (mark_ringing now d s)
     else if cmd = ''STOP_RING'' then emit DevicesUpdated (clear_ringing d s)
     else s)"

definition send_command :: "time \<Rightarrow> string \<Rightarrow> string \<Rightarrow> string \<Rightarrow> ui \<Rightarrow> (bool \<times> string option) \<times> ui" where
  "send_command now d cmd0 arg s =
    (let cmd = upper cmd0
     in case get_device (ui_db s) d of
       None \<Rightarrow> ((False, Some ''unknown device''), s)
     | Some dev \<Rightarrow>
        (case pin dev of
           None \<Rightarrow> ((False, Some ''no PIN set for this device''), s)
         | Some k \<Rightarrow>
            if k = [] then ((False, Some ''no PIN set for this device''), s)
            else
             let s1 = toggle_ringing now d cmd s
             in ((True, None), s1\<lparr>command_queue := command_queue s1
                   @ [(d, cmd, command_payload k cmd arg now, is_own dev = 1)]\<rparr>)))"

record dispatch_env =
  dp_now :: time
  dp_handover :: handover_env
  dp_publish :: publish_env

definition queue_pending_command :: "time \<Rightarrow> string \<Rightarrow> string \<Rightarrow> GpsDaemon.payload \<Rightarrow> ui \<Rightarrow> bool \<times> ui" where
  "queue_pending_command now d cmd p s =
    (if cmd \<notin> set RETRY_COMMANDS then (False, s)
     else (True, s\<lparr>pending_commands := dict_set d (cmd, p, now + PENDING_CMD_TTL_S) (pending_commands s)\<rparr>))"

text \<open>Whether the publish left the device, and the client after it.\<close>

definition publish_job :: "publish_env \<Rightarrow> string \<Rightarrow> GpsDaemon.payload \<Rightarrow> ui \<Rightarrow> bool \<times> ui" where
  "publish_job penv d p s =
    (case ui_mqtt s of
       None \<Rightarrow> (False, s)
     | Some m \<Rightarrow> (case publish_command penv d (json_dumps p) True m of (ok, m', _) \<Rightarrow> (ok, s\<lparr>ui_mqtt := Some m'\<rparr>)))"

definition dispatch_command :: "dispatch_env \<Rightarrow> cmd_job \<Rightarrow> ui \<Rightarrow> (exn + bool) \<times> ui" where
  "dispatch_command env job s =
    (case job of (d, cmd, p, own) \<Rightarrow>
     case repair_if_handover (dp_handover env) s of
       (Inl e, s1) \<Rightarrow> (Inl e, s1)
     | (Inr _, s1) \<Rightarrow>
        (case publish_job (dp_publish env) d p s1 of
           (True, s2) \<Rightarrow>
             (Inr True, emit (CommandResult d (PStr cmd) (PStr ''sent''))
               (if own then s2 else arm_ack_timeout (dp_now env) d cmd s2))
         | (False, s2) \<Rightarrow>
             (let s3 = (if cmd = ''RING'' then emit DevicesUpdated (clear_ringing d s2) else s2)
              in case queue_pending_command (dp_now env) d cmd p s3 of
                   (True, s4) \<Rightarrow> (Inr False, emit (CommandResult d (PStr cmd) (PStr ''pending'')) s4)
                 | (False, s4) \<Rightarrow> (Inr False, emit (CommandResult d (PStr cmd) (PStr ''mqtt_offline'')) s4))))"

text \<open>One turn of the command worker; an exception ends the job, not the worker.\<close>

definition command_worker_turn :: "dispatch_env \<Rightarrow> ui \<Rightarrow> ui" where
  "command_worker_turn env s =
    (case command_queue s of
       [] \<Rightarrow> s
     | job # jobs \<Rightarrow> snd (dispatch_command env job (s\<lparr>command_queue := jobs\<rparr>)))"

section \<open>Messages from other devices\<close>

text \<open>A write to the device table from the UI.\<close>

definition db_write :: "unit dbop \<Rightarrow> ui \<Rightarrow> (exn + unit) \<times> ui" where
  "db_write f s = (case f (ui_db s) of (r, db) \<Rightarrow> (r, s\<lparr>ui_db := db\<rparr>))"

definition ack_cmd :: "MqttClient.payload \<Rightarrow> pyval" where
  "ack_cmd p = (case p ''cmd'' of None \<Rightarrow> PStr ''?'' | Some v \<Rightarrow> v)"

text \<open>\<open>(cmd or "").upper()\<close>, which only a text has.\<close>

definition ack_upper :: "pyval \<Rightarrow> exn + string" where
  "ack_upper v = (if \<not> py_truthy v then Inr [] else case v of PStr c \<Rightarrow> Inr (upper c) | _ \<Rightarrow> Inl (OtherError ''AttributeError''))"

definition ack_results :: "string list" where "ack_results = [''ok'', ''auth_failed'', ''disabled'']"

text \<open>\<open>_on_remote_ack\<close>: the part after the database knows the own id, by the kind of sender.\<close>

definition remote_ack :: "string \<Rightarrow> string \<Rightarrow> MqttClient.payload \<Rightarrow> ui \<Rightarrow> (exn + unit) \<times> ui" where
  "remote_ack stamp d p s =
    (let s1 = clear_ack_timeout d s; result = field p ''result''
     in case (case result of
                PStr r \<Rightarrow> if r \<in> set ack_results then db_write (set_auth_result d (Some r) stamp) s1 else (Inr (), s1)
              | _ \<Rightarrow> (Inr (), s1)) of
          (Inl e, s2) \<Rightarrow> (Inl e, s2)
        | (Inr _, s2) \<Rightarrow>
           (case ack_upper (ack_cmd p) of
              Inl e \<Rightarrow> (Inl e, s2)
            | Inr cmd \<Rightarrow>
               (case (if cmd = ''DELETE'' \<and> result = PStr ''ok'' then db_write (set_deleted d True stamp) s2 else (Inr (), s2)) of
                  (Inl e, s3) \<Rightarrow> (Inl e, s3)
                | (Inr _, s3) \<Rightarrow>
                   (let s4 = (if cmd = ''RING'' \<and> result \<noteq> PStr ''ok'' then clear_ringing d s3 else s3)
                    in (Inr (), emit DevicesUpdated (emit (CommandResult d (ack_cmd p)
                         (if py_truthy result then result else PStr [])) s4))))))"

definition on_remote_ack :: "string list \<Rightarrow> string \<Rightarrow> string option \<Rightarrow> MqttClient.payload \<Rightarrow> ui \<Rightarrow> (exn + unit) \<times> ui" where
  "on_remote_ack draws stamp dev p s =
    (if dev = None \<or> dev = Some [] then (Inr (), s)
     else case own_device_id draws stamp (ui_db s) of
       (Inl e, db) \<Rightarrow> (Inl e, s\<lparr>ui_db := db\<rparr>)
     | (Inr own, db) \<Rightarrow>
        (let s1 = s\<lparr>ui_db := db\<rparr>
         in if own = dev then (Inr (), emit DevicesUpdated s1) else remote_ack stamp (the dev) p s1))"

text \<open>\<open>_on_remote_location\<close>: an exception while storing is caught, and nothing is shown.\<close>

definition on_remote_location :: "string \<Rightarrow> string option \<Rightarrow> MqttClient.payload \<Rightarrow> ui \<Rightarrow> ui" where
  "on_remote_location stamp dev p s =
    (if dev = None \<or> dev = Some [] then s
     else
      let tu = field p ''timestamp_utc'';
          v = field p
      in case store_fix (the dev) (if py_truthy tu then tu else PStr stamp) (v ''timestamp_local'') (v ''lat'') (v ''lon'')
            (v ''alt'') (v ''speed'') (v ''accuracy'') (v ''battery'') True (ui_db s) of
           (Inl _, db) \<Rightarrow> s\<lparr>ui_db := db\<rparr>
         | (Inr _, db) \<Rightarrow> emit DevicesUpdated (emit MapUpdated (s\<lparr>ui_db := db\<rparr>)))"

section \<open>The devices page\<close>

record device_entry =
  en_device_id :: string
  en_label :: string
  en_is_own :: int
  en_has_pin :: bool
  en_auth_failed :: bool
  en_no_response :: bool
  en_deleted :: bool
  en_ringing :: bool
  en_last_auth_result :: string
  en_actions_enabled :: bool
  en_camera_enabled :: bool
  en_ring_enabled :: bool
  en_last_fix :: "gps_row option"

text \<open>\<open>_own_ringing\<close>: the ring daemon's state file, if it can be read.\<close>

definition own_ringing :: "time \<Rightarrow> ring_file option \<Rightarrow> bool" where
  "own_ringing now f = (case f of None \<Rightarrow> False
     | Some c \<Rightarrow> (case ring_until c of None \<Rightarrow> False | Some u \<Rightarrow> before now u))"

definition device_entry_of :: "bool \<Rightarrow> ui \<Rightarrow> device \<Rightarrow> device_entry" where
  "device_entry_of own_rings s dev =
    (let webdav_ok = setting_filled (ui_db s) WEBDAV_URL \<and> setting_filled (ui_db s) WEBDAV_USERNAME;
         has_pin = (pin dev \<notin> {None, Some []});
         last_result = (case last_auth_result dev of None \<Rightarrow> [] | Some r \<Rightarrow> r);
         auth_failed = (last_result = ''auth_failed'');
         no_response = (device_id dev \<in> timed_out s);
         is_deleted = (deleted dev \<noteq> 0);
         actions = (is_own dev = 1 \<or> has_pin \<and> \<not> auth_failed \<and> \<not> no_response \<and> \<not> is_deleted)
     in \<lparr>en_device_id = device_id dev, en_label = display_label dev, en_is_own = is_own dev, en_has_pin = has_pin,
         en_auth_failed = auth_failed, en_no_response = no_response, en_deleted = is_deleted,
         en_ringing = (device_id dev \<in> ringing s \<or> is_own dev = 1 \<and> own_rings),
         en_last_auth_result = last_result, en_actions_enabled = actions,
         en_camera_enabled = (actions \<and> webdav_ok \<and> is_own dev = 0), en_ring_enabled = actions,
         en_last_fix = get_latest (ui_db s) (device_id dev)\<rparr>)"

definition ui_list_devices :: "time \<Rightarrow> ring_file option \<Rightarrow> ui \<Rightarrow> device_entry list" where
  "ui_list_devices now f s = map (device_entry_of (own_ringing now f) s) (list_devices (ui_db s))"

text \<open>The edits: \<open>{"ok": .., "error": ..}\<close>, and the restart of the client in a thread of its own.\<close>

type_synonym ui_outcome = "exn + bool \<times> string"

definition restart_ui_mqtt :: "ui \<Rightarrow> ui" where
  "restart_ui_mqtt = spawn ''_restart_ui_mqtt_sync''"

definition ui_add_device :: "string \<Rightarrow> string \<Rightarrow> string option \<Rightarrow> string option \<Rightarrow> ui \<Rightarrow> ui_outcome \<times> ui" where
  "ui_add_device now d label p s =
    (case add_remote d label p now (ui_db s) of
       (Inl e, db) \<Rightarrow> (Inl e, s\<lparr>ui_db := db\<rparr>)
     | (Inr (ok, err), db) \<Rightarrow>
        (Inr (ok, or_empty err),
         if ok then emit DevicesUpdated (restart_ui_mqtt (s\<lparr>ui_db := db\<rparr>)) else s\<lparr>ui_db := db\<rparr>))"

text \<open>The update proper, under the id the row has by now.\<close>

definition apply_edit :: "string \<Rightarrow> bool \<Rightarrow> string \<Rightarrow> string option \<Rightarrow> string option \<Rightarrow> ui \<Rightarrow> ui_outcome \<times> ui" where
  "apply_edit now renamed d label p s =
    (case update_device d label (if p = Some [] then None else p) now (ui_db s) of
       (Inl e, db) \<Rightarrow> (Inl e, s\<lparr>ui_db := db\<rparr>)
     | (Inr (False, err), db) \<Rightarrow> (Inr (False, or_empty err), s\<lparr>ui_db := db\<rparr>)
     | (Inr (True, err), db) \<Rightarrow>
        (case db_write (set_auth_result d None now) (clear_ack_timeout d (s\<lparr>ui_db := db\<rparr>)) of
           (Inl e, s1) \<Rightarrow> (Inl e, s1)
         | (Inr _, s1) \<Rightarrow>
            (case db_write (set_deleted d False now) s1 of
               (Inl e, s2) \<Rightarrow> (Inl e, s2)
             | (Inr _, s2) \<Rightarrow>
                (Inr (True, or_empty err),
                 emit MapUpdated (emit DevicesUpdated (if renamed then restart_ui_mqtt s2 else s2))))))"

definition ui_update_device ::
    "string \<Rightarrow> string \<Rightarrow> string option \<Rightarrow> string option \<Rightarrow> string option \<Rightarrow> ui \<Rightarrow> ui_outcome \<times> ui" where
  "ui_update_device now d label p new_device_id s =
    (let new_id = strip (or_empty new_device_id)
     in if new_id \<noteq> [] \<and> new_id \<noteq> d then
          (case rename_device d new_id now (ui_db s) of
             (Inl e, db) \<Rightarrow> (Inl e, s\<lparr>ui_db := db\<rparr>)
           | (Inr (False, err), db) \<Rightarrow> (Inr (False, or_empty err), s\<lparr>ui_db := db\<rparr>)
           | (Inr (True, err), db) \<Rightarrow> apply_edit now True new_id label p (clear_ack_timeout d (s\<lparr>ui_db := db\<rparr>)))
        else apply_edit now False d label p s)"

definition ui_remove_device :: "string \<Rightarrow> ui \<Rightarrow> ui_outcome \<times> ui" where
  "ui_remove_device d s =
    (case remove_device d (ui_db s) of
       (Inl e, db) \<Rightarrow> (Inl e, s\<lparr>ui_db := db\<rparr>)
     | (Inr (ok, err), db) \<Rightarrow>
        (Inr (ok, or_empty err),
         if ok then emit MapUpdated (emit DevicesUpdated
           (restart_ui_mqtt (clear_ringing d (clear_ack_timeout d (s\<lparr>ui_db := db\<rparr>))))) else s\<lparr>ui_db := db\<rparr>))"

definition set_own_label :: "string list \<Rightarrow> string \<Rightarrow> string option \<Rightarrow> ui \<Rightarrow> (exn + bool) \<times> ui" where
  "set_own_label draws now label0 s =
    (let label = strip (or_empty label0)
     in case own_device_id draws now (ui_db s) of
       (Inl e, db) \<Rightarrow> (Inl e, s\<lparr>ui_db := db\<rparr>)
     | (Inr None, db) \<Rightarrow> (Inl TypeError, s\<lparr>ui_db := db\<rparr>)
     | (Inr (Some own), db) \<Rightarrow>
        (case update_device own (Some label) None now db of
           (Inl e, db1) \<Rightarrow> (Inl e, s\<lparr>ui_db := db1\<rparr>)
         | (Inr _, db1) \<Rightarrow>
            (Inr True, emit MapUpdated (emit DevicesUpdated
              (s\<lparr>ui_db := settings_set DEVICE_LABEL (PStr label) db1\<rparr>)))))"

section \<open>Runs\<close>

datatype ui_event =
    Tap time string string string
  | WorkerTurn dispatch_env
  | TimerCall ui_timer
  | RemoteAck "string list" string "string option" MqttClient.payload
  | RemoteLocation string "string option" MqttClient.payload
  | Connected time publish_env "string \<Rightarrow> publish_env"
  | AddDevice string string "string option" "string option"
  | EditDevice string string "string option" "string option" "string option"
  | DropDevice string
  | OwnLabel "string list" string "string option"
  | StartMqtt start_env
  | Probe bool time handover_env

fun ui_step :: "ui \<Rightarrow> ui_event \<Rightarrow> ui" where
  "ui_step s (Tap now d cmd arg) = snd (send_command now d cmd arg s)"
| "ui_step s (WorkerTurn env) = command_worker_turn env s"
| "ui_step s (TimerCall t) = timer_call t s"
| "ui_step s (RemoteAck draws stamp d p) = snd (on_remote_ack draws stamp d p s)"
| "ui_step s (RemoteLocation stamp d p) = on_remote_location stamp d p s"
| "ui_step s (Connected now lenv penv) = on_ui_connected now lenv penv s"
| "ui_step s (AddDevice now d l p) = snd (ui_add_device now d l p s)"
| "ui_step s (EditDevice now d l p n) = snd (ui_update_device now d l p n s)"
| "ui_step s (DropDevice d) = snd (ui_remove_device d s)"
| "ui_step s (OwnLabel draws now l) = snd (set_own_label draws now l s)"
| "ui_step s (StartMqtt env) = snd (start_ui_mqtt env s)"
| "ui_step s (Probe online now env) = snd (probe_network online now env s)"

section \<open>Lemmas\<close>

text \<open>The part of the state that timers and buttons live in, and the operations that leave it alone.\<close>

definition buttons :: "ui \<Rightarrow> ui" where
  "buttons s = s\<lparr>ui_db := empty_db, ui_mqtt := None, pending_location := None, command_queue := [],
     pending_commands := [], net_online := True, net_checked := 0, net_probing := False, handover_ts := 0,
     background := [], emitted := []\<rparr>"

lemma buttons_simps [simp]:
  "buttons (emit x s) = buttons s" "buttons (spawn t s) = buttons s" "buttons (restart_ui_mqtt s) = buttons s"
  "buttons (s\<lparr>ui_db := db\<rparr>) = buttons s" "buttons (s\<lparr>ui_mqtt := m\<rparr>) = buttons s"
  "buttons (s\<lparr>pending_location := l\<rparr>) = buttons s" "buttons (s\<lparr>command_queue := q\<rparr>) = buttons s"
  "buttons (s\<lparr>pending_commands := pc\<rparr>) = buttons s" "buttons (s\<lparr>net_online := b\<rparr>) = buttons s"
  "buttons (s\<lparr>net_checked := t'\<rparr>) = buttons s" "buttons (s\<lparr>net_probing := b\<rparr>) = buttons s"
  "buttons (s\<lparr>handover_ts := t'\<rparr>) = buttons s" "buttons (s\<lparr>emitted := es\<rparr>) = buttons s"
  by (simp_all add: buttons_def emit_def spawn_def restart_ui_mqtt_def)

lemma buttons_eqD:
  assumes "buttons s = buttons s'"
  shows "pending_acks s = pending_acks s'" "timed_out s = timed_out s'" "ack_seq s = ack_seq s'"
    "ringing s = ringing s'" "ring_timers s = ring_timers s'" "timers s = timers s'" "started s = started s'"
  using assms by (cases s; cases s'; simp add: buttons_def)+

lemma buttons_start_ui_mqtt: "start_ui_mqtt env s = (r, s') \<Longrightarrow> buttons s' = buttons s"
  by (auto simp: start_ui_mqtt_def split: if_splits sum.splits option.splits prod.splits)

lemma buttons_flush_location [simp]: "buttons (flush_pending_location penv s) = buttons s"
  by (auto simp: flush_pending_location_def split: option.splits prod.splits)

lemma buttons_flush_commands [simp]: "buttons (flush_pending_commands now penv s) = buttons s"
  by (auto simp: flush_pending_commands_def Let_def split: option.splits prod.splits)

lemma buttons_connected [simp]: "buttons (on_ui_connected now lenv penv s) = buttons s"
  by (simp add: on_ui_connected_def)

lemma buttons_connack [simp]: "buttons (connack_arrives now so lenv penv s) = buttons s"
  by (auto simp: connack_arrives_def split: option.splits prod.splits bool.splits)

lemma buttons_repair: "repair_if_handover env s = (r, s') \<Longrightarrow> buttons s' = buttons s"
  by (auto simp: repair_if_handover_def Let_def split: if_splits sum.splits option.splits prod.splits
      dest!: buttons_start_ui_mqtt)

lemma buttons_probe: "buttons (snd (probe_network online now env s)) = buttons s"
  by (auto simp: probe_network_def Let_def split: if_splits sum.splits prod.splits dest!: buttons_repair)

lemma buttons_db_write: "db_write f s = (r, s') \<Longrightarrow> buttons s' = buttons s"
  by (auto simp: db_write_def split: prod.splits)

lemma buttons_publish_job: "publish_job penv d p s = (r, s') \<Longrightarrow> buttons s' = buttons s"
  by (auto simp: publish_job_def split: option.splits prod.splits)

lemma buttons_queue_pending: "queue_pending_command now d cmd p s = (r, s') \<Longrightarrow> buttons s' = buttons s"
  by (auto simp: queue_pending_command_def split: if_splits)

text \<open>What an event does to the buttons, in terms of the six operations on them.\<close>

datatype button_op =
    Mark time string
  | ClearRing string
  | Arm time string string
  | ClearAck string
  | Fire ui_timer

fun button_step :: "ui \<Rightarrow> button_op \<Rightarrow> ui" where
  "button_step s (Mark now d) = mark_ringing now d s"
| "button_step s (ClearRing d) = clear_ringing d s"
| "button_step s (Arm now d cmd) = arm_ack_timeout now d cmd s"
| "button_step s (ClearAck d) = clear_ack_timeout d s"
| "button_step s (Fire t) = timer_call t s"

definition edit_ops :: "string \<Rightarrow> string \<Rightarrow> string option \<Rightarrow> string option \<Rightarrow> database \<Rightarrow> button_op list" where
  "edit_ops now d label p db =
    (case fst (update_device d label (if p = Some [] then None else p) now db) of
       Inr (True, _) \<Rightarrow> [ClearAck d] | _ \<Rightarrow> [])"

fun button_ops :: "ui \<Rightarrow> ui_event \<Rightarrow> button_op list" where
  "button_ops s (Tap now d cmd arg) =
    (if \<not> fst (fst (send_command now d cmd arg s)) then []
     else if upper cmd = ''RING'' then [Mark now d]
     else if upper cmd = ''STOP_RING'' then [ClearRing d] else [])"
| "button_ops s (WorkerTurn env) =
    (case command_queue s of
       [] \<Rightarrow> []
     | (d, cmd, p, own) # jobs \<Rightarrow>
        (case fst (dispatch_command env (d, cmd, p, own) (s\<lparr>command_queue := jobs\<rparr>)) of
           Inl _ \<Rightarrow> []
         | Inr sent \<Rightarrow> if sent then (if own then [] else [Arm (dp_now env) d cmd])
                       else if cmd = ''RING'' then [ClearRing d] else []))"
| "button_ops s (TimerCall t) = [Fire t]"
| "button_ops s (RemoteAck draws stamp dev p) =
    (if dev = None \<or> dev = Some [] then []
     else case own_device_id draws stamp (ui_db s) of
       (Inl _, _) \<Rightarrow> []
     | (Inr own, db) \<Rightarrow>
        if own = dev then []
        else ClearAck (the dev) #
          (if fst (remote_ack stamp (the dev) p (s\<lparr>ui_db := db\<rparr>)) = Inr () \<and> ack_upper (ack_cmd p) = Inr ''RING''
              \<and> field p ''result'' \<noteq> PStr ''ok'' then [ClearRing (the dev)] else []))"
| "button_ops s (EditDevice now d label p n) =
    (let new_id = strip (or_empty n)
     in if new_id \<noteq> [] \<and> new_id \<noteq> d then
          (case rename_device d new_id now (ui_db s) of
             (Inr (True, _), db) \<Rightarrow> ClearAck d # edit_ops now new_id label p db
           | _ \<Rightarrow> [])
        else edit_ops now d label p (ui_db s))"
| "button_ops s (DropDevice d) =
    (case fst (remove_device d (ui_db s)) of Inr (True, _) \<Rightarrow> [ClearAck d, ClearRing d] | _ \<Rightarrow> [])"
| "button_ops s _ = []"

lemma buttons_cong:
  assumes "buttons s = buttons s'"
  shows "buttons (mark_ringing now d s) = buttons (mark_ringing now d s')"
    "buttons (clear_ringing d s) = buttons (clear_ringing d s')"
    "buttons (arm_ack_timeout now d cmd s) = buttons (arm_ack_timeout now d cmd s')"
    "buttons (clear_ack_timeout d s) = buttons (clear_ack_timeout d s')"
    "buttons (timer_call t s) = buttons (timer_call t s')"
  using buttons_eqD [OF assms]
  by (simp_all add: mark_ringing_def clear_ringing_def arm_ack_timeout_def clear_ack_timeout_def timer_call_def
      start_timer_def on_ack_timeout_def on_ring_autoclear_def buttons_def emit_def Let_def split: ui_timer.split)

lemma buttons_send:
  "buttons (ui_step s (Tap now d cmd arg)) = buttons (run_events button_step s (button_ops s (Tap now d cmd arg)))"
  by (auto simp: send_command_def toggle_ringing_def Let_def split: option.splits)

lemma buttons_worker:
  "buttons (ui_step s (WorkerTurn env)) = buttons (run_events button_step s (button_ops s (WorkerTurn env)))"
proof (cases "command_queue s")
  case (Cons job jobs)
  obtain d cmd p own where job: "job = (d, cmd, p, own)" by (cases job)
  let ?s = "s\<lparr>command_queue := jobs\<rparr>"
  obtain r s1 where r1: "repair_if_handover (dp_handover env) ?s = (r, s1)" by fastforce
  obtain ok s2 where p2: "publish_job (dp_publish env) d p s1 = (ok, s2)" by fastforce
  have b: "buttons s2 = buttons s" "buttons s1 = buttons s"
    using buttons_publish_job [OF p2] buttons_repair [OF r1] by simp_all
  show ?thesis
    using Cons job r1 p2 b buttons_cong(2,3) [OF b(1)]
    by (auto simp: command_worker_turn_def dispatch_command_def Let_def queue_pending_command_def RETRY_COMMANDS_def
        split: sum.splits prod.splits bool.splits if_splits)
qed (simp add: command_worker_turn_def)

lemma buttons_remote_ack:
  "buttons (snd (remote_ack stamp d p s)) = buttons (run_events button_step s (ClearAck d #
     (if fst (remote_ack stamp d p s) = Inr () \<and> ack_upper (ack_cmd p) = Inr ''RING''
        \<and> field p ''result'' \<noteq> PStr ''ok'' then [ClearRing d] else [])))"
proof -
  let ?s1 = "clear_ack_timeout d s"
  let ?w = "case field p ''result'' of
                PStr r \<Rightarrow> if r \<in> set ack_results then db_write (set_auth_result d (Some r) stamp) ?s1 else (Inr (), ?s1)
              | _ \<Rightarrow> (Inr (), ?s1)"
  obtain r s2 where w: "?w = (r, s2)" by fastforce
  have s2: "buttons s2 = buttons ?s1"
    using w by (auto split: pyval.splits if_splits dest!: buttons_db_write)
  show ?thesis
  proof (cases r)
    case (Inl e)
    then show ?thesis using w s2 by (simp add: remote_ack_def Let_def)
  next
    case (Inr u)
    show ?thesis
    proof (cases "ack_upper (ack_cmd p)")
      case (Inl e)
      then show ?thesis using w s2 \<open>r = Inr u\<close> by (simp add: remote_ack_def Let_def)
    next
      case (Inr cmd)
      let ?v = "if cmd = ''DELETE'' \<and> field p ''result'' = PStr ''ok'' then db_write (set_deleted d True stamp) s2 else (Inr (), s2)"
      obtain r3 s3 where v: "?v = (r3, s3)" by fastforce
      have s3: "buttons s3 = buttons ?s1" using v s2 by (auto split: if_splits dest!: buttons_db_write)
      then show ?thesis
        using w v \<open>r = Inr u\<close> Inr buttons_cong(2) [OF s3]
        by (cases r3) (auto simp: remote_ack_def Let_def)
    qed
  qed
qed

lemma buttons_ack:
  "buttons (ui_step s (RemoteAck draws stamp dev p)) = buttons (run_events button_step s (button_ops s (RemoteAck draws stamp dev p)))"
proof (cases "dev = None \<or> dev = Some []")
  case False
  obtain own db where o': "own_device_id draws stamp (ui_db s) = (own, db)" by fastforce
  have c: "buttons (s\<lparr>ui_db := db\<rparr>) = buttons s" by simp
  have c': "buttons (clear_ack_timeout d (s\<lparr>ui_db := db\<rparr>)) = buttons (clear_ack_timeout d s)" for d
    by (rule buttons_cong(4) [OF c])
  show ?thesis
    using False o' buttons_remote_ack [of stamp "the dev" p "s\<lparr>ui_db := db\<rparr>"] c' buttons_cong(2) [OF c']
    by (auto simp: on_remote_ack_def Let_def split: sum.splits)
qed (auto simp: on_remote_ack_def)

lemma buttons_apply_edit:
  assumes "buttons s = buttons t" "ui_db s = db"
  shows "buttons (snd (apply_edit now renamed d label p s)) = buttons (run_events button_step t (edit_ops now d label p db))"
proof -
  obtain r db' where u: "update_device d label (if p = Some [] then None else p) now db = (r, db')" by fastforce
  have c: "buttons (clear_ack_timeout d (s\<lparr>ui_db := db'\<rparr>)) = buttons (clear_ack_timeout d t)"
    by (rule buttons_cong(4)) (simp add: assms)
  show ?thesis
    using u assms c
    by (auto simp: apply_edit_def edit_ops_def Let_def split: sum.splits prod.splits bool.splits if_splits dest!: buttons_db_write)
qed

lemma buttons_edit:
  "buttons (ui_step s (EditDevice now d label p n)) = buttons (run_events button_step s (button_ops s (EditDevice now d label p n)))"
proof (cases "strip (or_empty n) \<noteq> [] \<and> strip (or_empty n) \<noteq> d")
  case True
  obtain r db where r: "rename_device d (strip (or_empty n)) now (ui_db s) = (r, db)" by fastforce
  have "buttons (clear_ack_timeout d (s\<lparr>ui_db := db\<rparr>)) = buttons (clear_ack_timeout d s)"
    by (rule buttons_cong(4)) simp
  from buttons_apply_edit [OF this, of db now True "strip (or_empty n)" label p] r True show ?thesis
    by (auto simp: ui_update_device_def Let_def clear_ack_timeout_def split: sum.splits bool.splits)
next
  case False
  then show ?thesis
    using buttons_apply_edit [of s s "ui_db s" now False d label p]
    by (auto simp: ui_update_device_def Let_def)
qed

lemma buttons_drop:
  "buttons (ui_step s (DropDevice d)) = buttons (run_events button_step s (button_ops s (DropDevice d)))"
proof -
  obtain r db where r: "remove_device d (ui_db s) = (r, db)" by fastforce
  have "buttons (clear_ringing d (clear_ack_timeout d (s\<lparr>ui_db := db\<rparr>))) = buttons (clear_ringing d (clear_ack_timeout d s))"
    by (intro buttons_cong) simp
  with r show ?thesis by (auto simp: ui_remove_device_def split: sum.splits prod.splits bool.splits)
qed

lemma buttons_others:
  "buttons (on_remote_location stamp dev p s) = buttons s"
  "buttons (snd (ui_add_device now d l pn s)) = buttons s"
  "buttons (snd (set_own_label draws now label s)) = buttons s"
  by (auto simp: on_remote_location_def ui_add_device_def set_own_label_def Let_def
      split: sum.splits option.splits prod.splits)

lemma ui_step_buttons: "buttons (ui_step s e) = buttons (run_events button_step s (button_ops s e))"
proof (cases e)
  case (Tap now d cmd arg)
  show ?thesis unfolding Tap by (rule buttons_send)
next
  case (WorkerTurn env)
  show ?thesis unfolding WorkerTurn by (rule buttons_worker)
next
  case (RemoteAck draws stamp dev p)
  show ?thesis unfolding RemoteAck by (rule buttons_ack)
next
  case (EditDevice now d l p n)
  show ?thesis unfolding EditDevice by (rule buttons_edit)
next
  case (DropDevice d)
  show ?thesis unfolding DropDevice by (rule buttons_drop)
qed (simp_all add: buttons_others buttons_probe buttons_start_ui_mqtt [OF prod.collapse [symmetric]])

end
