(* ===== verification/UiButtons.thy ===== *)
theory UiButtons
  imports UiCommands
begin

text \<open>
  The properties of the buttons on the devices page and of the commands sent from it.
\<close>

section \<open>The invariant of the buttons\<close>

text \<open>
  A device is shown as ringing, or waits for an answer, exactly as long as the one timer runs that will
  end it; tokens are never used twice.
\<close>

definition buttons_inv :: "ui \<Rightarrow> bool" where
  "buttons_inv s \<longleftrightarrow>
     ringing s = dom (ring_timers s) \<and> timed_out s \<inter> dom (pending_acks s) = {}
     \<and> (\<forall>d k. ring_timers s d = Some k \<longleftrightarrow> (\<exists>due. RingTimer d k due \<in> set (timers s)))
     \<and> (\<forall>d k. pending_acks s d = Some k \<longleftrightarrow> (\<exists>c due. AckTimer d c k due \<in> set (timers s)))
     \<and> set (timers s) \<subseteq> set (started s) \<and> inj_on timer_token (set (started s))
     \<and> (\<forall>t\<in>set (started s). timer_token t \<le> ack_seq s)"

lemma buttons_invD:
  assumes "buttons_inv s"
  shows "ringing s = dom (ring_timers s)" "timed_out s \<inter> dom (pending_acks s) = {}"
    "\<And>d k. ring_timers s d = Some k \<longleftrightarrow> (\<exists>due. RingTimer d k due \<in> set (timers s))"
    "\<And>d k. pending_acks s d = Some k \<longleftrightarrow> (\<exists>c due. AckTimer d c k due \<in> set (timers s))"
    "set (timers s) \<subseteq> set (started s)" "inj_on timer_token (set (started s))"
    "\<And>t. t \<in> set (started s) \<Longrightarrow> timer_token t \<le> ack_seq s"
  using assms by (auto simp: buttons_inv_def)

lemma buttons_inv_cong:
  assumes "buttons s = buttons s'"
  shows "buttons_inv s = buttons_inv s'"
  using buttons_eqD [OF assms] by (simp add: buttons_inv_def)

lemma buttons_inv_new: "buttons_inv (new_ui db)"
  by (simp add: buttons_inv_def new_ui_def)

lemma set_cancel: "t \<in> set (cancel e ts) \<longleftrightarrow> t \<in> set ts \<and> e \<noteq> Some (timer_token t)"
  by (auto simp: cancel_def split: option.splits)

text \<open>The timers that stay when the entry of a device is cancelled.\<close>

lemma token_unique:
  assumes "buttons_inv s" "t \<in> set (timers s)" "t' \<in> set (timers s)" "timer_token t = timer_token t'"
  shows "t = t'"
  using assms buttons_invD(5,6) [OF assms(1)] by (auto dest: inj_onD)

lemma cancel_ring:
  assumes inv: "buttons_inv s"
  shows "RingTimer d' k due \<in> set (cancel (ring_timers s d) (timers s)) \<longleftrightarrow> RingTimer d' k due \<in> set (timers s) \<and> d' \<noteq> d"
    "AckTimer d' c k due \<in> set (cancel (ring_timers s d) (timers s)) \<longleftrightarrow> AckTimer d' c k due \<in> set (timers s)"
proof -
  have u: "d' = d" if "RingTimer d' k due \<in> set (timers s)" "RingTimer d k due' \<in> set (timers s)" for due'
    using token_unique [OF inv that] by simp
  have w: False if "AckTimer d' c k due \<in> set (timers s)" "RingTimer d k due' \<in> set (timers s)" for due'
    using token_unique [OF inv that] by simp
  show "RingTimer d' k due \<in> set (cancel (ring_timers s d) (timers s)) \<longleftrightarrow> RingTimer d' k due \<in> set (timers s) \<and> d' \<noteq> d"
    using u by (auto simp: set_cancel buttons_invD(3) [OF inv])
  show "AckTimer d' c k due \<in> set (cancel (ring_timers s d) (timers s)) \<longleftrightarrow> AckTimer d' c k due \<in> set (timers s)"
    using w by (auto simp: set_cancel buttons_invD(3) [OF inv])
qed

lemma cancel_ack:
  assumes inv: "buttons_inv s"
  shows "AckTimer d' c k due \<in> set (cancel (pending_acks s d) (timers s)) \<longleftrightarrow> AckTimer d' c k due \<in> set (timers s) \<and> d' \<noteq> d"
    "RingTimer d' k due \<in> set (cancel (pending_acks s d) (timers s)) \<longleftrightarrow> RingTimer d' k due \<in> set (timers s)"
proof -
  have u: "d' = d" if "AckTimer d' c k due \<in> set (timers s)" "AckTimer d c' k due' \<in> set (timers s)" for c' due'
    using token_unique [OF inv that] by simp
  have w: False if "RingTimer d' k due \<in> set (timers s)" "AckTimer d c' k due' \<in> set (timers s)" for c' due'
    using token_unique [OF inv that] by simp
  show "AckTimer d' c k due \<in> set (cancel (pending_acks s d) (timers s)) \<longleftrightarrow> AckTimer d' c k due \<in> set (timers s) \<and> d' \<noteq> d"
    using u by (auto simp: set_cancel buttons_invD(4) [OF inv])
  show "RingTimer d' k due \<in> set (cancel (pending_acks s d) (timers s)) \<longleftrightarrow> RingTimer d' k due \<in> set (timers s)"
    using w by (auto simp: set_cancel buttons_invD(4) [OF inv])
qed

lemma fresh_token:
  assumes "buttons_inv s" "timer_token t = Suc (ack_seq s)"
  shows "inj_on timer_token (insert t (set (started s)))" "t \<notin> set (timers s)"
  using buttons_invD [OF assms(1)] assms(2) by (fastforce simp: inj_on_def)+

lemma clear_ringing_inv:
  assumes inv: "buttons_inv s"
  shows "buttons_inv (clear_ringing d s)"
  unfolding buttons_inv_def clear_ringing_def
  using buttons_invD [OF inv] cancel_ring [OF inv] by (simp add: set_cancel subset_iff inj_on_def)

lemma clear_ack_inv:
  assumes inv: "buttons_inv s"
  shows "buttons_inv (clear_ack_timeout d s)"
proof -
  have "(timed_out s - {d}) \<inter> (dom (pending_acks s) - {d}) = {}" using buttons_invD(2) [OF inv] by blast
  then show ?thesis
    unfolding buttons_inv_def clear_ack_timeout_def
    using buttons_invD [OF inv] cancel_ack [OF inv] by (simp add: set_cancel subset_iff inj_on_def)
qed

lemma mark_ringing_inv:
  assumes inv: "buttons_inv s"
  shows "buttons_inv (mark_ringing now d s)"
proof -
  have f: "RingTimer d' (Suc (ack_seq s)) due \<notin> set (timers s)" "AckTimer d' c (Suc (ack_seq s)) due \<notin> set (timers s)"
    for d' c due
    using fresh_token(2) [OF inv] by simp_all
  let ?t = "RingTimer d (Suc (ack_seq s)) (now + RING_AUTOCLEAR_S)"
  have i: "inj_on timer_token (insert ?t (set (started s)))" by (rule fresh_token(1) [OF inv]) simp
  have d: "dom ((ring_timers s)(d \<mapsto> Suc (ack_seq s))) = insert d (ringing s)" by (simp add: buttons_invD(1) [OF inv])
  show ?thesis
    unfolding buttons_inv_def mark_ringing_def start_timer_def Let_def
    using buttons_invD [OF inv] cancel_ring [OF inv] f i d
    by (auto simp: set_cancel subset_iff le_Suc_eq)
qed

lemma arm_ack_inv:
  assumes inv: "buttons_inv s"
  shows "buttons_inv (arm_ack_timeout now d cmd s)"
proof -
  have f: "RingTimer d' (Suc (ack_seq s)) due \<notin> set (timers s)" "AckTimer d' c (Suc (ack_seq s)) due \<notin> set (timers s)"
    for d' c due
    using fresh_token(2) [OF inv] by simp_all
  let ?t = "AckTimer d cmd (Suc (ack_seq s)) (now + ACK_TIMEOUT_S)"
  have i: "inj_on timer_token (insert ?t (set (started s)))" by (rule fresh_token(1) [OF inv]) simp
  show ?thesis
    unfolding buttons_inv_def arm_ack_timeout_def start_timer_def Let_def
    using buttons_invD [OF inv] cancel_ack [OF inv] f i
    by (auto simp: set_cancel subset_iff le_Suc_eq)
qed

text \<open>A call of a timer whose token is the current one is the call of the timer that runs.\<close>

lemma current_ring_timer:
  assumes "buttons_inv s" "RingTimer d k due \<in> set (started s)" "ring_timers s d = Some k"
  shows "RingTimer d k due \<in> set (timers s)"
proof -
  obtain due' where t: "RingTimer d k due' \<in> set (timers s)" using buttons_invD(3) [OF assms(1)] assms(3) by blast
  have "RingTimer d k due = RingTimer d k due'"
    by (rule inj_onD [OF buttons_invD(6) [OF assms(1)]]) (use t assms(2) buttons_invD(5) [OF assms(1)] in auto)
  with t show ?thesis by simp
qed

lemma current_ack_timer:
  assumes "buttons_inv s" "AckTimer d c k due \<in> set (started s)" "pending_acks s d = Some k"
  shows "AckTimer d c k due \<in> set (timers s)"
proof -
  obtain c' due' where t: "AckTimer d c' k due' \<in> set (timers s)" using buttons_invD(4) [OF assms(1)] assms(3) by blast
  have "AckTimer d c k due = AckTimer d c' k due'"
    by (rule inj_onD [OF buttons_invD(6) [OF assms(1)]]) (use t assms(2) buttons_invD(5) [OF assms(1)] in auto)
  with t show ?thesis by simp
qed

lemma late_timer_harmless:
  assumes inv: "buttons_inv s" and "t \<notin> set (timers s)"
  shows "timer_call t s = s"
proof (cases "t \<in> set (started s)")
  case True
  have f: "s\<lparr>timers := filter (\<lambda>x. x \<noteq> t) (timers s)\<rparr> = s"
  proof -
    have "filter (\<lambda>x. x \<noteq> t) (timers s) = timers s" using assms(2) by (auto intro: filter_True)
    then show ?thesis by simp
  qed
  show ?thesis
  proof (cases t)
    case (AckTimer d c k due)
    with current_ack_timer [OF inv] assms(2) True have "pending_acks s d \<noteq> Some k" by blast
    with f AckTimer show ?thesis by (simp add: timer_call_def on_ack_timeout_def)
  next
    case (RingTimer d k due)
    with current_ring_timer [OF inv] assms(2) True have "ring_timers s d \<noteq> Some k" by blast
    with f RingTimer show ?thesis by (simp add: timer_call_def on_ring_autoclear_def)
  qed
qed (simp add: timer_call_def)

lemma filter_token:
  assumes inv: "buttons_inv s" and t: "t \<in> set (timers s)"
  shows "filter (\<lambda>x. x \<noteq> t) (timers s) = filter (\<lambda>x. timer_token x \<noteq> timer_token t) (timers s)"
proof (rule filter_cong [OF refl])
  fix x
  assume "x \<in> set (timers s)"
  then show "(x \<noteq> t) = (timer_token x \<noteq> timer_token t)" using token_unique [OF inv _ t] by blast
qed

lemma ring_timer_call:
  assumes inv: "buttons_inv s" and t: "RingTimer d k due \<in> set (timers s)"
  shows "buttons (timer_call (RingTimer d k due) s) = buttons (clear_ringing d s)"
proof -
  have c: "ring_timers s d = Some k" using buttons_invD(3) [OF inv] t by blast
  have "RingTimer d k due \<in> set (started s)" using t buttons_invD(5) [OF inv] by blast
  with c filter_token [OF inv t] show ?thesis
    by (simp add: timer_call_def on_ring_autoclear_def clear_ringing_def cancel_def emit_def buttons_def)
qed

lemma ack_timer_call:
  assumes inv: "buttons_inv s" and t: "AckTimer d c k due \<in> set (timers s)"
  shows "buttons (timer_call (AckTimer d c k due) s)
    = buttons ((clear_ack_timeout d s)\<lparr>timed_out := insert d (timed_out s)\<rparr>)"
proof -
  have p: "pending_acks s d = Some k" using buttons_invD(4) [OF inv] t by blast
  have "AckTimer d c k due \<in> set (started s)" using t buttons_invD(5) [OF inv] by blast
  with p filter_token [OF inv t] show ?thesis
    by (simp add: timer_call_def on_ack_timeout_def clear_ack_timeout_def cancel_def emit_def buttons_def)
qed

lemma timer_call_inv:
  assumes inv: "buttons_inv s"
  shows "buttons_inv (timer_call t s)"
proof (cases "t \<in> set (timers s)")
  case False
  with inv late_timer_harmless [OF inv] show ?thesis by simp
next
  case True
  show ?thesis
  proof (cases t)
    case (RingTimer d k due)
    with buttons_inv_cong [OF ring_timer_call [OF inv, of d k due]] clear_ringing_inv [OF inv] True show ?thesis by simp
  next
    case (AckTimer d c k due)
    have "buttons_inv ((clear_ack_timeout d s)\<lparr>timed_out := insert d (timed_out s)\<rparr>)"
      using clear_ack_inv [OF inv, of d] buttons_invD(2) [OF inv]
      by (auto simp: buttons_inv_def clear_ack_timeout_def)
    with buttons_inv_cong [OF ack_timer_call [OF inv, of d c k due]] True AckTimer show ?thesis by simp
  qed
qed

lemma button_step_inv: "buttons_inv s \<Longrightarrow> buttons_inv (button_step s b)"
  by (cases b) (simp_all add: mark_ringing_inv clear_ringing_inv arm_ack_inv clear_ack_inv timer_call_inv)

interpretation button_sys: event_system "\<lambda>s. \<exists>db. s = new_ui db" button_step buttons_inv
  by unfold_locales (auto simp: buttons_inv_new button_step_inv)

lemma ui_step_inv: "buttons_inv s \<Longrightarrow> buttons_inv (ui_step s e)"
  using buttons_inv_cong [OF ui_step_buttons] button_sys.run_inv by blast

interpretation ui_sys: event_system "\<lambda>s. \<exists>db. s = new_ui db" ui_step buttons_inv
  by unfold_locales (auto simp: buttons_inv_new ui_step_inv)

section \<open>Where timers come from\<close>

lemma button_step_started:
  "started (button_step s b) = started s @ (case b of
       Mark now d \<Rightarrow> [RingTimer d (Suc (ack_seq s)) (now + RING_AUTOCLEAR_S)]
     | Arm now d cmd \<Rightarrow> [AckTimer d cmd (Suc (ack_seq s)) (now + ACK_TIMEOUT_S)]
     | _ \<Rightarrow> [])"
  by (cases b) (auto simp: mark_ringing_def clear_ringing_def arm_ack_timeout_def clear_ack_timeout_def timer_call_def
      start_timer_def on_ack_timeout_def on_ring_autoclear_def emit_def Let_def split: ui_timer.split)

lemma run_started:
  "RingTimer d k due \<in> set (started (run_events button_step s bs)) \<Longrightarrow>
     RingTimer d k due \<in> set (started s) \<or> Mark (due - RING_AUTOCLEAR_S) d \<in> set bs"
  by (induction bs arbitrary: s) (fastforce simp: button_step_started split: button_op.splits)+

lemma no_mark_edit: "Mark now d \<notin> set (edit_ops t d' l p db)"
  by (simp add: edit_ops_def split: sum.split prod.split bool.split)

lemma no_mark_worker: "Mark now d \<notin> set (button_ops s (WorkerTurn env))"
proof (cases "command_queue s")
  case (Cons job jobs)
  obtain d' cmd p own where "job = (d', cmd, p, own)" by (cases job)
  with Cons show ?thesis by (simp split: sum.split)
qed simp

lemma no_mark_ack: "Mark now d \<notin> set (button_ops s (RemoteAck draws stamp dev pl))"
  by (simp split: sum.split prod.split)

lemma no_mark_drop: "Mark now d \<notin> set (button_ops s (DropDevice d'))"
  by (simp split: sum.split prod.split bool.split)

definition rings :: "string \<Rightarrow> bool" where
  "rings cmd \<longleftrightarrow> upper cmd = ''RING''"

lemma mark_from_tap:
  assumes "Mark now d \<in> set (button_ops s e)"
  shows "\<exists>cmd arg. e = Tap now d cmd arg \<and> rings cmd"
proof (cases e)
  case (Tap now' d' cmd arg)
  have "button_ops s e = (if \<not> fst (fst (send_command now' d' cmd arg s)) then [] else if rings cmd then [Mark now' d']
      else if upper cmd = ''STOP_RING'' then [ClearRing d'] else [])"
    unfolding Tap button_ops.simps rings_def ..
  with assms have "now' = now" "d' = d" "rings cmd" by (auto split: if_splits)
  with Tap show ?thesis by blast
next
  case (EditDevice t d' l p n)
  with assms show ?thesis
    unfolding EditDevice button_ops.simps Let_def
    by (auto simp: no_mark_edit split: if_splits prod.splits sum.splits bool.splits)
qed (use assms no_mark_worker no_mark_ack no_mark_drop in \<open>simp_all del: button_ops.simps(2,4,6)\<close>)

lemma ring_timer_from_tap:
  "RingTimer d k due \<in> set (started (run_events ui_step s es)) \<Longrightarrow>
     RingTimer d k due \<in> set (started s)
     \<or> (\<exists>cmd arg. Tap (due - RING_AUTOCLEAR_S) d cmd arg \<in> set es \<and> rings cmd)"
proof (induction es arbitrary: s)
  case (Cons e es)
  have "RingTimer d k due \<in> set (started (run_events ui_step (ui_step s e) es))" using Cons.prems by simp
  from Cons.IH [OF this] consider
      "RingTimer d k due \<in> set (started (ui_step s e))"
    | "\<exists>cmd arg. Tap (due - RING_AUTOCLEAR_S) d cmd arg \<in> set es \<and> rings cmd" by blast
  then show ?case
  proof cases
    case 1
    then have "RingTimer d k due \<in> set (started (run_events button_step s (button_ops s e)))"
      using buttons_eqD(7) [OF ui_step_buttons [of s e]] by simp
    from run_started [OF this] show ?thesis using mark_from_tap by (metis list.set_intros(1))
  next
    case 2
    then show ?thesis by (meson list.set_intros(2))
  qed
qed simp

section \<open>The answer of a device as a protocol\<close>

text \<open>
  A step function refines another along an abstraction when each concrete step is matched by the
  abstract actions it stands for; then so does every run.
\<close>

fun trace :: "('s \<Rightarrow> 'e \<Rightarrow> 's) \<Rightarrow> ('s \<Rightarrow> 'e \<Rightarrow> 'b list) \<Rightarrow> 's \<Rightarrow> 'e list \<Rightarrow> 'b list" where
  "trace step acts s [] = []"
| "trace step acts s (e # es) = acts s e @ trace step acts (step s e) es"

locale event_refinement = event_system start step inv
  for start :: "'s \<Rightarrow> bool" and step :: "'s \<Rightarrow> 'e \<Rightarrow> 's" and inv :: "'s \<Rightarrow> bool" +
  fixes view :: "'s \<Rightarrow> 'a"
    and astep :: "'a \<Rightarrow> 'b \<Rightarrow> 'a"
    and acts :: "'s \<Rightarrow> 'e \<Rightarrow> 'b list"
  assumes sim: "inv s \<Longrightarrow> view (step s e) = run_events astep (view s) (acts s e)"
begin

lemma run_refines: "inv s \<Longrightarrow> view (run_events step s es) = run_events astep (view s) (trace step acts s es)"
proof (induction es arbitrary: s)
  case (Cons e es)
  then show ?case using step_inv [OF Cons.prems] by (simp add: sim)
qed simp

end

text \<open>
  What the page knows of one device: nothing outstanding, a command without an answer yet, or no answer
  in time; and the actions that move it.
\<close>

datatype answer = Quiet | Awaiting | Silent

datatype answer_action = Delivered | Settled | Expired

fun answer_step :: "answer \<Rightarrow> answer_action \<Rightarrow> answer" where
  "answer_step a Delivered = Awaiting"
| "answer_step a Settled = Quiet"
| "answer_step a Expired = (if a = Awaiting then Silent else a)"

definition answer_of :: "string \<Rightarrow> ui \<Rightarrow> answer" where
  "answer_of d s = (if pending_acks s d \<noteq> None then Awaiting else if d \<in> timed_out s then Silent else Quiet)"

text \<open>The operations on the buttons as actions for one device; a cancelled timer is no action.\<close>

fun answer_action_of :: "string \<Rightarrow> ui \<Rightarrow> button_op \<Rightarrow> answer_action list" where
  "answer_action_of d s (Arm now d' cmd) = (if d' = d then [Delivered] else [])"
| "answer_action_of d s (ClearAck d') = (if d' = d then [Settled] else [])"
| "answer_action_of d s (Fire t) =
    (case t of AckTimer d' c k due \<Rightarrow> if d' = d \<and> t \<in> set (timers s) then [Expired] else [] | _ \<Rightarrow> [])"
| "answer_action_of d s _ = []"

definition answer_actions :: "string \<Rightarrow> ui \<Rightarrow> ui_event \<Rightarrow> answer_action list" where
  "answer_actions d s e = trace button_step (answer_action_of d) s (button_ops s e)"

lemma answer_of_cong: "buttons s = buttons s' \<Longrightarrow> answer_of d s = answer_of d s'"
  using buttons_eqD(1,2) [of s s'] by (simp add: answer_of_def)

lemma answer_of_timer:
  assumes inv: "buttons_inv s"
  shows "answer_of d (timer_call t s) = run_events answer_step (answer_of d s) (answer_action_of d s (Fire t))"
proof (cases "t \<in> set (timers s)")
  case False
  then show ?thesis using late_timer_harmless [OF inv] by (cases t) simp_all
next
  case True
  show ?thesis
  proof (cases t)
    case (RingTimer d' k due)
    from ring_timer_call [OF inv] True RingTimer have "answer_of d (timer_call t s) = answer_of d (clear_ringing d' s)"
      using answer_of_cong by blast
    then show ?thesis using RingTimer by (simp add: answer_of_def clear_ringing_def)
  next
    case (AckTimer d' c k due)
    from ack_timer_call [OF inv] True AckTimer
    have "answer_of d (timer_call t s) = answer_of d ((clear_ack_timeout d' s)\<lparr>timed_out := insert d' (timed_out s)\<rparr>)"
      using answer_of_cong by blast
    moreover have "pending_acks s d' = Some k" using True AckTimer buttons_invD(4) [OF inv] by blast
    ultimately show ?thesis using True AckTimer by (auto simp: answer_of_def clear_ack_timeout_def)
  qed
qed

interpretation answer_ref: event_refinement "\<lambda>s. \<exists>db. s = new_ui db" button_step buttons_inv
    "answer_of d" answer_step "answer_action_of d" for d
proof
  fix s b
  assume "buttons_inv s"
  then show "answer_of d (button_step s b) = run_events answer_step (answer_of d s) (answer_action_of d s b)"
    using answer_of_timer
    by (cases b) (auto simp: answer_of_def mark_ringing_def clear_ringing_def arm_ack_timeout_def clear_ack_timeout_def
        start_timer_def Let_def)
qed

interpretation ui_ref: event_refinement "\<lambda>s. \<exists>db. s = new_ui db" ui_step buttons_inv
    "answer_of d" answer_step "answer_actions d" for d
proof
  fix s e
  assume inv: "buttons_inv s"
  have "answer_of d (ui_step s e) = answer_of d (run_events button_step s (button_ops s e))"
    by (rule answer_of_cong [OF ui_step_buttons])
  then show "answer_of d (ui_step s e) = run_events answer_step (answer_of d s) (answer_actions d s e)"
    by (simp add: answer_ref.run_refines [OF inv] answer_actions_def)
qed

section \<open>Parked commands\<close>

text \<open>Every command parked for the next connection, with the time its dispatch failed.\<close>

definition parked_from :: "ui_event list \<Rightarrow> ui \<Rightarrow> bool" where
  "parked_from es s \<longleftrightarrow> distinct (map fst (pending_commands s)) \<and>
     (\<forall>(d, cmd, p, deadline)\<in>set (pending_commands s). cmd \<in> set RETRY_COMMANDS
        \<and> (\<exists>env. WorkerTurn env \<in> set es \<and> deadline = dp_now env + PENDING_CMD_TTL_S))"

text \<open>What does not park leaves the parked commands, or flushes them all.\<close>

definition parked_kept :: "ui \<Rightarrow> ui \<Rightarrow> bool" where
  "parked_kept s s' \<longleftrightarrow> pending_commands s' = pending_commands s \<or> pending_commands s' = []"

lemma parked_kept_refl [simp]: "parked_kept s s"
  by (simp add: parked_kept_def)

lemma parked_kept_trans: "parked_kept s t \<Longrightarrow> parked_kept t u \<Longrightarrow> parked_kept s u"
  by (auto simp: parked_kept_def)

lemma parked_simps [simp]:
  "pending_commands (emit x s) = pending_commands s" "pending_commands (spawn tg s) = pending_commands s"
  "pending_commands (restart_ui_mqtt s) = pending_commands s"
  "pending_commands (mark_ringing now d s) = pending_commands s" "pending_commands (clear_ringing d s) = pending_commands s"
  "pending_commands (arm_ack_timeout now d cmd s) = pending_commands s"
  "pending_commands (clear_ack_timeout d s) = pending_commands s"
  "pending_commands (timer_call t s) = pending_commands s"
  "pending_commands (flush_pending_commands now penv s) = []"
  by (auto simp: emit_def spawn_def restart_ui_mqtt_def mark_ringing_def clear_ringing_def arm_ack_timeout_def
      clear_ack_timeout_def start_timer_def timer_call_def on_ack_timeout_def on_ring_autoclear_def
      flush_pending_commands_def Let_def split: ui_timer.splits option.splits prod.splits)

lemma parked_start: "start_ui_mqtt env s = (r, s') \<Longrightarrow> pending_commands s' = pending_commands s"
  by (auto simp: start_ui_mqtt_def split: if_splits sum.splits option.splits prod.splits)

lemma parked_connected [simp]: "pending_commands (on_ui_connected now lenv penv s) = []"
  by (simp add: on_ui_connected_def)

lemma parked_connack: "parked_kept s (connack_arrives now so lenv penv s)"
  by (auto simp: parked_kept_def connack_arrives_def split: option.splits prod.splits bool.splits)

lemma parked_repair: "repair_if_handover env s = (r, s') \<Longrightarrow> parked_kept s s'"
  using parked_connack
  by (auto simp: repair_if_handover_def Let_def parked_kept_def split: if_splits sum.splits option.splits prod.splits
      dest!: parked_start) (metis parked_kept_def)+

lemma parked_probe: "parked_kept s (snd (probe_network online now env s))"
proof -
  let ?s1 = "s\<lparr>net_online := online, net_checked := now, net_probing := False\<rparr>"
  obtain r s2 where r: "(if online then repair_if_handover env ?s1 else (Inr False, ?s1)) = (r, s2)" by fastforce
  have "parked_kept ?s1 s2" using r parked_repair by (auto split: if_splits)
  with r show ?thesis
    by (cases r) (auto simp: probe_network_def Let_def parked_kept_def)
qed

lemma parked_db_write: "db_write f s = (r, s') \<Longrightarrow> pending_commands s' = pending_commands s"
  by (auto simp: db_write_def split: prod.splits)

lemma dict_set_mem: "x \<in> set (dict_set k v d) \<Longrightarrow> x = (k, v) \<or> x \<in> set d"
  by (induction k v d rule: dict_set.induct) (auto split: if_splits)

lemma dict_set_distinct: "distinct (map fst d) \<Longrightarrow> distinct (map fst (dict_set k v d))"
proof (induction k v d rule: dict_set.induct)
  case (2 k v k' v' d)
  then show ?case using topics_dict_set [of k v d] by (metis (no_types, lifting) dict_set.simps(2) distinct.simps(2)
      fst_conv insert_iff list.set_map list.simps(9))
qed simp

lemma parked_from_kept: "parked_from es s \<Longrightarrow> parked_kept s s' \<Longrightarrow> parked_from (es @ [e]) s'"
  unfolding parked_from_def parked_kept_def by (elim disjE) (fastforce, simp)

lemma parked_remote_ack: "pending_commands (snd (remote_ack stamp d p s)) = pending_commands s"
proof -
  let ?s1 = "clear_ack_timeout d s"
  let ?w = "case field p ''result'' of
                PStr r \<Rightarrow> if r \<in> set ack_results then db_write (set_auth_result d (Some r) stamp) ?s1 else (Inr (), ?s1)
              | _ \<Rightarrow> (Inr (), ?s1)"
  obtain r s2 where w: "?w = (r, s2)" by fastforce
  have s2: "pending_commands s2 = pending_commands s"
    using w by (auto split: pyval.splits if_splits dest!: parked_db_write)
  show ?thesis
  proof (cases "ack_upper (ack_cmd p)")
    case (Inl e)
    then show ?thesis using w s2 by (cases r) (simp_all add: remote_ack_def Let_def)
  next
    case (Inr cmd)
    let ?v = "if cmd = ''DELETE'' \<and> field p ''result'' = PStr ''ok'' then db_write (set_deleted d True stamp) s2 else (Inr (), s2)"
    obtain r3 s3 where v: "?v = (r3, s3)" by fastforce
    have s3: "pending_commands s3 = pending_commands s" using v s2 by (auto split: if_splits dest!: parked_db_write)
    then show ?thesis using w v s2 Inr by (cases r; cases r3) (simp_all add: remote_ack_def Let_def)
  qed
qed

lemma parked_edit: "pending_commands (snd (apply_edit now renamed d l p s)) = pending_commands s"
  by (auto simp: apply_edit_def Let_def split: sum.splits prod.splits bool.splits dest!: parked_db_write)

lemma parked_others:
  "pending_commands (snd (send_command now d cmd arg s)) = pending_commands s"
  "pending_commands (snd (on_remote_ack draws stamp dev pl s)) = pending_commands s"
  "pending_commands (on_remote_location stamp dev pl s) = pending_commands s"
  "pending_commands (snd (ui_add_device stamp d l p s)) = pending_commands s"
  "pending_commands (snd (ui_update_device stamp d l p n s)) = pending_commands s"
  "pending_commands (snd (ui_remove_device d s)) = pending_commands s"
  "pending_commands (snd (set_own_label draws stamp l s)) = pending_commands s"
  "pending_commands (snd (start_ui_mqtt env s)) = pending_commands s"
proof -
  show "pending_commands (snd (send_command now d cmd arg s)) = pending_commands s"
    by (simp add: send_command_def toggle_ringing_def Let_def split: option.split)
  show "pending_commands (snd (on_remote_ack draws stamp dev pl s)) = pending_commands s"
    by (simp add: on_remote_ack_def Let_def parked_remote_ack split: sum.split prod.split)
  show "pending_commands (on_remote_location stamp dev pl s) = pending_commands s"
    by (simp add: on_remote_location_def Let_def split: sum.split prod.split)
  show "pending_commands (snd (ui_add_device stamp d l p s)) = pending_commands s"
    by (simp add: ui_add_device_def split: sum.split prod.split)
  show "pending_commands (snd (ui_update_device stamp d l p n s)) = pending_commands s"
    by (simp add: ui_update_device_def Let_def parked_edit split: sum.split prod.split bool.split)
  show "pending_commands (snd (ui_remove_device d s)) = pending_commands s"
    by (simp add: ui_remove_device_def split: sum.split prod.split)
  show "pending_commands (snd (set_own_label draws stamp l s)) = pending_commands s"
    by (simp add: set_own_label_def Let_def split: sum.split prod.split option.split)
  show "pending_commands (snd (start_ui_mqtt env s)) = pending_commands s"
    by (rule parked_start [OF prod.collapse [symmetric]])
qed

lemma parked_worker:
  assumes "parked_from es s"
  shows "parked_from (es @ [WorkerTurn env]) (command_worker_turn env s)"
proof (cases "command_queue s")
  case Nil
  with assms show ?thesis by (auto simp: command_worker_turn_def parked_from_def)
next
  case (Cons job jobs)
  obtain d cmd p own where job: "job = (d, cmd, p, own)" by (cases job)
  obtain r s1 where r1: "repair_if_handover (dp_handover env) (s\<lparr>command_queue := jobs\<rparr>) = (r, s1)" by fastforce
  obtain ok s2 where p2: "publish_job (dp_publish env) d p s1 = (ok, s2)" by fastforce
  have "pending_commands s2 = pending_commands s1"
    using p2 by (auto simp: publish_job_def split: option.splits prod.splits)
  with parked_repair [OF r1] have k: "parked_kept s s2" "parked_kept s s1" by (simp_all add: parked_kept_def)
  have kept: "parked_from (es @ [WorkerTurn env]) s'" if "pending_commands s' \<in> {pending_commands s1, pending_commands s2}" for s'
  proof -
    have "parked_kept s s'" using k that by (auto simp: parked_kept_def)
    then show ?thesis by (rule parked_from_kept [OF assms])
  qed
  have queued: "parked_from (es @ [WorkerTurn env]) s'"
    if "cmd \<in> set RETRY_COMMANDS"
      "pending_commands s' = dict_set d (cmd, p, dp_now env + PENDING_CMD_TTL_S) (pending_commands s2)" for s'
    using kept [of s2] that by (auto simp: parked_from_def dict_set_distinct dest!: dict_set_mem)
  show ?thesis
    using Cons job r1 p2 kept queued
    by (cases r; cases ok) (auto simp: command_worker_turn_def dispatch_command_def Let_def queue_pending_command_def)
qed

lemma parked_step: "parked_from es s \<Longrightarrow> parked_from (es @ [e]) (ui_step s e)"
proof (cases e)
  case (WorkerTurn env)
  assume "parked_from es s"
  then show ?thesis using parked_worker WorkerTurn by simp
next
  case (Probe online now env)
  assume "parked_from es s"
  then show ?thesis using parked_from_kept parked_probe Probe by simp
qed (auto intro: parked_from_kept simp: parked_kept_def parked_others)

lemma parked_run: "parked_from es0 s \<Longrightarrow> parked_from (es0 @ es) (run_events ui_step s es)"
proof (induction es arbitrary: s es0)
  case (Cons e es)
  from Cons.IH [OF parked_step [OF Cons.prems, of e]] show ?case by simp
qed simp

lemma send_due_signals:
  "send_due penv due m = (sigs, m') \<Longrightarrow>
     list_all2 (\<lambda>(d, cmd, p, deadline) sig. sig = CommandResult d (PStr cmd) (PStr ''sent'')
        \<or> sig = CommandResult d (PStr cmd) (PStr ''mqtt_offline'')) due sigs"
proof (induction penv due m arbitrary: sigs m' rule: send_due.induct)
  case (2 penv d cmd p deadline due m)
  obtain ok m1 ss where p: "publish_command (penv d) d (json_dumps p) False m = (ok, m1, ss)" using prod_cases3 by blast
  obtain sigs' m2 where r: "send_due penv due m1 = (sigs', m2)" by fastforce
  from "2.IH" [OF p [symmetric] refl r] "2.prems" p r show ?case by (cases ok) auto
qed simp

section \<open>Properties\<close>


text \<open>A phone with one paired device, for concrete instances.\<close>

definition paired_db :: database where
  "paired_db = snd (add_remote ''xY9zW8vU7t'' (Some ''car'') (Some ''1234'') ''t'' first_start_db)"

lemma paired_device: "\<exists>dev. get_device paired_db ''xY9zW8vU7t'' = Some dev \<and> pin dev = Some ''1234'' \<and> is_own dev = 0"
proof -
  have "map_option (\<lambda>dev. (pin dev, is_own dev)) (get_device paired_db ''xY9zW8vU7t'') = Some (Some ''1234'', 0)" by code_simp
  then show ?thesis by (auto simp: map_option_eq_Some)
qed

lemma upper_literals [simp]: "upper ''ring'' = ''RING''" "upper ''stop_ring'' = ''STOP_RING''"
  by code_simp+

text \<open>A tap on the page, without evaluating the token.\<close>

lemma tap_accepted:
  assumes "get_device (ui_db s) d = Some dev" "pin dev = Some k" "k \<noteq> []"
  shows "ui_step s (Tap now d cmd arg) = (toggle_ringing now d (upper cmd) s)\<lparr>command_queue :=
     command_queue (toggle_ringing now d (upper cmd) s) @ [(d, upper cmd, command_payload k (upper cmd) arg now, is_own dev = 1)]\<rparr>"
  using assms by (simp add: send_command_def Let_def)

lemma paired_tap:
  "\<exists>q. ui_step (new_ui paired_db) (Tap 0 ''xY9zW8vU7t'' ''ring'' [])
     = (emit DevicesUpdated (mark_ringing 0 ''xY9zW8vU7t'' (new_ui paired_db)))\<lparr>command_queue := q\<rparr>"
proof -
  obtain dev where "get_device paired_db ''xY9zW8vU7t'' = Some dev" "pin dev = Some ''1234''" using paired_device by blast
  from tap_accepted [of "new_ui paired_db" _ dev "''1234''" 0 "''ring''" "[]"] this show ?thesis
    by (auto simp: new_ui_def toggle_ringing_def simp del: list.map)
qed


text \<open>
  C20. \<open>answers_follow_protocol\<close>: what the page knows of a device's answer refines the protocol with the
  three states quiet, awaiting and silent: a command that left for the device makes it awaiting, an
  acknowledgement, an edit or a removal makes it quiet, and only the timer of the last command makes
  it silent. No order of events leads elsewhere.
\<close>
theorem answers_follow_protocol:
  "answer_of d (run_events ui_step (new_ui db) es)
     = run_events answer_step Quiet (trace ui_step (answer_actions d) (new_ui db) es)"
proof -
  have "answer_of d (new_ui db) = Quiet" by (simp add: answer_of_def new_ui_def)
  then show ?thesis using ui_ref.run_refines [OF buttons_inv_new, of d db es] by simp
qed


definition offline_env :: publish_env where
  "offline_env = \<lparr>e_pc = False, e_first = SendRaises, e_first_pc = False, e_reconnect = SetupFails, e_connack = None,
     e_second = SendRaises, e_second_pc = False\<rparr>"

definition plain_start :: start_env where
  "plain_start = \<lparr>st_draws = [], st_stamp = ''t'', st_paho = True, st_outcome = Dispatched, st_subs = \<lambda>_. SubRaises\<rparr>"

definition quiet_handover :: "time \<Rightarrow> handover_env" where
  "quiet_handover t = \<lparr>ho_now = t, ho_current = Inr None, ho_preferred = Inr None, ho_start = plain_start,
     ho_connack = None, ho_lenv = offline_env, ho_penv = \<lambda>_. offline_env\<rparr>"

definition parked_run_events :: "ui_event list" where
  "parked_run_events = [StartMqtt plain_start, Tap 100 ''xY9zW8vU7t'' ''stop_ring'' [],
     WorkerTurn \<lparr>dp_now = 100, dp_handover = quiet_handover 100, dp_publish = offline_env\<rparr>]"

definition paired_mqtt_db :: database where
  "paired_mqtt_db = settings_set MQTT_ENABLED (PStr ''1'') (settings_set MQTT_SERVER (PStr ''m'') paired_db)"

lemma parked_example:
  "ui_mqtt (run_events ui_step (new_ui paired_mqtt_db) parked_run_events) \<noteq> None"
  "map fst (pending_commands (run_events ui_step (new_ui paired_mqtt_db) parked_run_events)) = [''xY9zW8vU7t'']"
proof -
  let ?s1 = "ui_step (new_ui paired_mqtt_db) (StartMqtt plain_start)"
  have db: "get_bool paired_mqtt_db MQTT_ENABLED" "setting_filled paired_mqtt_db MQTT_SERVER" "ui_server paired_mqtt_db = ''m''"
    by code_simp+
  have own: "fst (own_device_id [] ''t'' paired_mqtt_db) = Inr (Some ''aB3dE6gH9k'')" by code_simp
  have own': "snd (own_device_id [] ''t'' paired_mqtt_db) = paired_mqtt_db"
  proof -
    have "own_id_of paired_mqtt_db = Some ''aB3dE6gH9k''" by code_simp
    then show ?thesis by (auto simp: own_device_id_def ensure_own_device_def own_id_of_def split: option.splits)
  qed
  have sub: "m_connected (add_sub so tp k n) = m_connected n" for so tp k n
    by (simp add: add_sub_def subscribe_now_def Let_def split: sub_outcome.split)
  have subs: "m_connected (subscribe_remotes so ids n) = m_connected n" for so ids n
    by (induction ids arbitrary: n) (simp_all add: subscribe_remotes_def subscribe_ack_def subscribe_location_def sub)
  obtain m where m: "?s1 = (new_ui paired_mqtt_db)\<lparr>ui_mqtt := Some m\<rparr>" "\<not> m_connected m"
    using own own' db
    by (cases "own_device_id [] ''t'' paired_mqtt_db")
      (auto simp: start_ui_mqtt_def new_ui_def plain_start_def mqtt_connect_def new_mqtt_def Let_def fresh_client_def
        sub subs subscribe_ack_def simp del: list.map)
  have s1: "ui_mqtt ?s1 = Some m" "pending_commands ?s1 = []" "command_queue ?s1 = []" "handover_ts ?s1 = 0"
    "ui_db ?s1 = paired_mqtt_db" unfolding m(1) by (simp_all add: new_ui_def)
  have "map_option (\<lambda>dev. (pin dev, is_own dev)) (get_device paired_mqtt_db ''xY9zW8vU7t'') = Some (Some ''1234'', 0)" by code_simp
  then obtain dev where dev: "get_device (ui_db ?s1) ''xY9zW8vU7t'' = Some dev" "pin dev = Some ''1234''" "is_own dev = 0"
    unfolding s1(5) by (auto simp: map_option_eq_Some)
  have t: "ui_step ?s1 (Tap 100 ''xY9zW8vU7t'' ''stop_ring'' []) = (emit DevicesUpdated (clear_ringing ''xY9zW8vU7t'' ?s1))
      \<lparr>command_queue := [(''xY9zW8vU7t'', ''STOP_RING'', command_payload ''1234'' ''STOP_RING'' [] 100, False)]\<rparr>"
    by (subst tap_accepted [OF dev(1,2)], simp)
      (simp only: upper_literals, simp add: toggle_ringing_def dev(3) s1(3) emit_def clear_ringing_def del: ui_step.simps)
  let ?env = "\<lparr>dp_now = 100, dp_handover = quiet_handover 100, dp_publish = offline_env\<rparr>"
  have w: "ui_mqtt (command_worker_turn ?env s) \<noteq> None \<and> map fst (pending_commands (command_worker_turn ?env s)) = [d]"
    if "command_queue s = [(d, ''STOP_RING'', p, False)]" "ui_mqtt s = Some m" "pending_commands s = []" "handover_ts s = 0" for s d p
    using that m(2)
    by (simp add: command_worker_turn_def dispatch_command_def repair_if_handover_def handover_detected_def quiet_handover_def
        HANDOVER_TTL_S_def publish_job_def publish_command_def mqtt_publish_def is_really_connected_def repair_and_send_def
        reconnect_and_wait_def force_reconnect_def mqtt_connect_def offline_env_def Let_def queue_pending_command_def
        RETRY_COMMANDS_def emit_def split: prod.split)
  have f: "ui_mqtt (emit x (clear_ringing d s)) = ui_mqtt s" "pending_commands (emit x (clear_ringing d s)) = pending_commands s"
    "handover_ts (emit x (clear_ringing d s)) = handover_ts s" for x d s
    by (simp_all add: emit_def clear_ringing_def)
  have "run_events ui_step (new_ui paired_mqtt_db) parked_run_events
      = command_worker_turn ?env (ui_step ?s1 (Tap 100 ''xY9zW8vU7t'' ''stop_ring'' []))"
    by (simp add: parked_run_events_def)
  moreover have "ui_mqtt (command_worker_turn ?env (ui_step ?s1 (Tap 100 ''xY9zW8vU7t'' ''stop_ring'' []))) \<noteq> None \<and>
      map fst (pending_commands (command_worker_turn ?env (ui_step ?s1 (Tap 100 ''xY9zW8vU7t'' ''stop_ring'' [])))) = [''xY9zW8vU7t'']"
    unfolding t by (rule w [where p = "command_payload ''1234'' ''STOP_RING'' [] 100"])
      (simp_all add: f s1(1,2,4) del: ui_step.simps)
  ultimately show "ui_mqtt (run_events ui_step (new_ui paired_mqtt_db) parked_run_events) \<noteq> None"
    "map fst (pending_commands (run_events ui_step (new_ui paired_mqtt_db) parked_run_events)) = [''xY9zW8vU7t'']"
    by (simp_all only: not_False_eq_True)
qed


section \<open>From the tap to the target\<close>

lemma command_payload_field:
  "field (map_of (command_payload k cmd arg now)) ''cmd'' = PStr cmd"
  "field (map_of (command_payload k cmd arg now)) ''token'' = PStr (make_command_token k (Some cmd) (Some arg) now)"
  "field (map_of (command_payload k cmd arg now)) ''arg'' = (if arg = [] then PNone else PStr arg)"
  by (simp_all add: command_payload_def field_def)

lemma payload_command:
  "mqtt_cmd_of (map_of (command_payload k (upper cmd) arg now)) = upper cmd"
  "mqtt_arg_of (map_of (command_payload k (upper cmd) arg now)) = (if arg = [] then None else Some arg)"
  by (simp_all add: mqtt_cmd_of_def mqtt_arg_of_def command_payload_field)

text \<open>
  C3. \<open>tapped_command_reaches_target\<close>: a command tapped on the page for a device with a stored PIN is
  queued, and its payload, delivered within 30 seconds either way to a command daemon whose own PIN is
  that PIN, becomes exactly that command with that argument for its worker.
\<close>
theorem tapped_command_reaches_target:
  assumes "send_command t d cmd arg s = ((True, None), s')"
    and "Option.bind (get_own target_db) pin = get_pin (ui_db s) d" and "\<bar>t' - t\<bar> \<le> 30"
  shows "\<exists>p own. command_queue s' = command_queue s @ [(d, upper cmd, p, own)]
    \<and> on_mqtt_command target_db t' (map_of p) = Inr (Execute (upper cmd) (if arg = [] then None else Some arg) ''mqtt'' None, [])"
proof -
  from assms(1) obtain dev k where dev: "get_device (ui_db s) d = Some dev" "pin dev = Some k" "k \<noteq> []"
    by (auto simp: send_command_def Let_def split: option.splits if_splits)
  let ?p = "command_payload k (upper cmd) arg t"
  have own: "Option.bind (get_own target_db) pin = Some k" using assms(2) dev(1,2) by (simp add: get_pin_def)
  obtain w where w: "w \<in> {-1, 0, 1}" "bucket_of t' + w = bucket_of t" using bucket_of_near [OF assms(3)] by blast
  let ?a = "if arg = [] then None else Some arg"
  have "command_mac k (Some (upper cmd)) ?a (bucket_of t' + w) = command_mac k (Some (upper cmd)) (Some arg) (bucket_of t)"
    unfolding w(2) by (rule command_mac_normal) simp_all
  then have "\<exists>w\<in>{-1, 0, 1}. command_mac k (Some (upper cmd)) ?a (bucket_of t' + w) = command_mac k (Some (upper cmd)) (Some arg) (bucket_of t)"
    using w(1) by blast
  then have v: "verify_command_token (Some k) (Some (upper cmd)) ?a
      (PStr (make_command_token k (Some (upper cmd)) (Some arg) t)) t' = Inr True"
    using dev(3) by (simp add: verify_command_token_eq make_command_token_def del: bex_simps)
  have m: "on_mqtt_command target_db t' (map_of ?p) = Inr (Execute (upper cmd) ?a ''mqtt'' None, [])"
    unfolding on_mqtt_command_def Let_def own payload_command command_payload_field v by simp
  have "command_queue (toggle_ringing t d (upper cmd) s) = command_queue s"
    by (simp add: toggle_ringing_def emit_def mark_ringing_def clear_ringing_def start_timer_def Let_def)
  with tap_accepted [OF dev, of t cmd arg] assms(1)
  have "command_queue s' = command_queue s @ [(d, upper cmd, ?p, is_own dev = 1)]" by simp
  with m show ?thesis by blast
qed

definition target_db :: database where
  "target_db = snd (update_device ''aB3dE6gH9k'' None (Some ''1234'') ''t'' first_start_db)"

theorem tapped_command_reaches_target_witness:
  "\<exists>p own. command_queue (snd (send_command 1000 ''xY9zW8vU7t'' ''lock'' [] (new_ui paired_db))) = [(''xY9zW8vU7t'', upper ''lock'', p, own)]
    \<and> on_mqtt_command target_db 1029 (map_of p) = Inr (Execute (upper ''lock'') None ''mqtt'' None, [])"
proof -
  obtain dev where dev: "get_device paired_db ''xY9zW8vU7t'' = Some dev" "pin dev = Some ''1234''" using paired_device by blast
  have s: "send_command 1000 ''xY9zW8vU7t'' ''lock'' [] (new_ui paired_db)
      = ((True, None), snd (send_command 1000 ''xY9zW8vU7t'' ''lock'' [] (new_ui paired_db)))"
    using dev by (simp add: send_command_def Let_def new_ui_def)
  have t: "Option.bind (get_own target_db) pin = get_pin (ui_db (new_ui paired_db)) ''xY9zW8vU7t''"
  proof -
    have "Option.bind (get_own target_db) pin = Some ''1234''" by code_simp
    with dev show ?thesis by (simp add: get_pin_def new_ui_def)
  qed
  have "command_queue (new_ui paired_db) = []" by (simp add: new_ui_def)
  then show ?thesis using tapped_command_reaches_target [OF s t, of 1029] by simp
qed

section \<open>What an acknowledgement does to the buttons\<close>

lemma find_update_rows:
  assumes "\<And>r. d_device_id (f r) = d_device_id r"
  shows "find (\<lambda>r. d_device_id r = d) (update_rows (\<lambda>r. d_device_id r = d) f now ds)
    = map_option (\<lambda>r. (f r)\<lparr>d_updated := Some now\<rparr>) (find (\<lambda>r. d_device_id r = d) ds)"
  using assms by (induction ds) (auto simp: update_rows_def)

lemma map_id_update_rows:
  "(\<And>r. d_device_id (f r) = d_device_id r) \<Longrightarrow> map d_device_id (update_rows p f now ds) = map d_device_id ds"
  by (induction ds) (auto simp: update_rows_def)

lemma devices_ok_update:
  assumes "devices_ok ds" "\<And>r. d_device_id (f r) = d_device_id r" "\<And>r. d_is_own (f r) = d_is_own r"
    "\<And>r. device_row_ok r \<Longrightarrow> device_row_ok (f r)"
  shows "devices_ok (update_rows p f now ds)"
proof -
  have "device_row_ok (r\<lparr>d_updated := u\<rparr>) = device_row_ok r" for r u by (simp add: device_row_ok_def)
  moreover have "length (filter d_is_own (update_rows p f now ds)) = length (filter d_is_own ds)"
    using assms(3) by (induction ds) (auto simp: update_rows_def)
  moreover have "list_all device_row_ok (update_rows p f now ds)"
    using assms(1,4) calculation(1) by (auto simp: devices_ok_def list_all_iff update_rows_def)
  ultimately show ?thesis using assms(1) by (simp add: devices_ok_def map_id_update_rows [OF assms(2)])
qed

text \<open>A write of the flags of one device, which keeps the constraints, goes through.\<close>

lemma flag_write:
  assumes inv: "devices_inv db" and f: "\<And>r. d_device_id (f r) = d_device_id r" "\<And>r. d_is_own (f r) = d_is_own r" "\<And>r. d_id (f r) = d_id r"
    "\<And>r. device_row_ok r \<Longrightarrow> device_row_ok (f r)"
  shows "\<exists>db'. commit_or_rollback db () (write_devices (update_rows (\<lambda>r. d_device_id r = d) f now (devices_t db)) db) = (Inr (), db')
    \<and> devices_inv db' \<and> device_row_of db' d = map_option (\<lambda>r. (f r)\<lparr>d_updated := Some now\<rparr>) (device_row_of db d)"
proof -
  let ?ds = "update_rows (\<lambda>r. d_device_id r = d) f now (devices_t db)"
  have "d_device_id ` set ?ds = d_device_id ` set (devices_t db)"
    using map_id_update_rows [OF f(1), of "\<lambda>r. d_device_id r = d" now "devices_t db"] by (metis list.set_map)
  then have "write_devices ?ds db = Inr (db\<lparr>devices_t := ?ds\<rparr>)"
    using inv devices_ok_update [OF _ f(1,2,4)] by (simp add: write_devices_cases devices_inv_def backups_ok_def)
  moreover have "device_row_of (db\<lparr>devices_t := ?ds\<rparr>) d = map_option (\<lambda>r. (f r)\<lparr>d_updated := Some now\<rparr>) (device_row_of db d)"
    using find_update_rows [OF f(1), of d now "devices_t db"] by (simp add: device_row_of_def)
  ultimately show ?thesis
    using write_update_inv [OF inv _ f(3)] by (simp add: commit_or_rollback_def)
qed

lemma set_auth_result_flag:
  assumes "devices_inv db" "r \<in> set ack_results"
  shows "\<exists>db'. set_auth_result d (Some r) now db = (Inr (), db') \<and> devices_inv db'
    \<and> device_row_of db' d = map_option (\<lambda>q. q\<lparr>d_last_auth := Some r, d_last_ack := Some now, d_updated := Some now\<rparr>) (device_row_of db d)"
  unfolding set_auth_result_def
  using flag_write [OF assms(1), of "\<lambda>q. q\<lparr>d_last_auth := Some r, d_last_ack := Some now\<rparr>" d now] assms(2)
  by (auto simp: device_row_ok_def ack_results_def)

lemma set_deleted_flag:
  assumes "devices_inv db"
  shows "\<exists>db'. set_deleted d True now db = (Inr (), db') \<and> devices_inv db'
    \<and> device_row_of db' d = map_option (\<lambda>q. q\<lparr>d_deleted := True, d_updated := Some now\<rparr>) (device_row_of db d)"
  unfolding set_deleted_def
  using flag_write [OF assms(1), of "\<lambda>q. q\<lparr>d_deleted := True\<rparr>" d now]
  by (simp add: device_row_ok_def)

lemma other_not_own:
  assumes inv: "devices_inv db" and "own_id_of db = Some own" "get_device db d = Some dev" "is_own dev = 0"
  shows "own_device_id draws stamp db = (Inr (Some own), db) \<and> own \<noteq> d"
proof -
  obtain r where r: "own_row db = Some r" "d_device_id r = own" using assms(2) by (auto simp: own_id_of_def)
  then have rm: "r \<in> set (devices_t db)" "d_is_own r" by (auto simp: own_row_def find_Some_iff)
  obtain q where q: "device_row_of db d = Some q" "\<not> d_is_own q"
    using assms(3,4) by (auto simp: get_device_def row_to_dict_def split: if_splits)
  have "own \<noteq> d"
  proof
    assume "own = d"
    with device_row_of_mem [OF q(1)] r rm inv have "q = r"
      by (auto simp: devices_inv_def devices_ok_def distinct_map dest: inj_onD)
    with q rm show False by simp
  qed
  with r show ?thesis by (simp add: own_device_id_def ensure_own_device_def row_to_dict_def)
qed

text \<open>The rest of \<open>remote_ack\<close> once the result is recorded.\<close>

definition ack_tail :: "string \<Rightarrow> string \<Rightarrow> string \<Rightarrow> pyval \<Rightarrow> ui \<Rightarrow> ui" where
  "ack_tail d c r v s = emit DevicesUpdated (emit (CommandResult d v (if r = [] then PStr [] else PStr r))
     (if upper c = ''RING'' \<and> r \<noteq> ''ok'' then clear_ringing d s else s))"

lemma remote_ack_text:
  assumes inv: "devices_inv (ui_db s)" and p: "p ''cmd'' = Some (PStr c)" "p ''result'' = Some (PStr r)"
    and row: "device_row_of (ui_db s) d = Some q"
  shows "\<exists>db q'. remote_ack stamp d p s = (Inr (), ack_tail d c r (PStr c) ((clear_ack_timeout d s)\<lparr>ui_db := db\<rparr>))
    \<and> device_row_of db d = Some q' \<and> d_device_id q' = d_device_id q \<and> d_is_own q' = d_is_own q \<and> d_pin q' = d_pin q
    \<and> d_last_auth q' = (if r \<in> set ack_results then Some r else d_last_auth q)
    \<and> d_deleted q' = (d_deleted q \<or> upper c = ''DELETE'' \<and> r = ''ok'')"
proof -
  let ?s1 = "clear_ack_timeout d s"
  have s1: "ui_db ?s1 = ui_db s" by (simp add: clear_ack_timeout_def)
  obtain db1 q1 where w1: "(if r \<in> set ack_results then db_write (set_auth_result d (Some r) stamp) ?s1 else (Inr (), ?s1))
      = (Inr (), ?s1\<lparr>ui_db := db1\<rparr>)" "devices_inv db1" "device_row_of db1 d = Some q1" "d_device_id q1 = d_device_id q"
      "d_is_own q1 = d_is_own q" "d_pin q1 = d_pin q" "d_deleted q1 = d_deleted q"
      "d_last_auth q1 = (if r \<in> set ack_results then Some r else d_last_auth q)"
  proof (cases "r \<in> set ack_results")
    case True
    from set_auth_result_flag [OF inv True, of d stamp] row that s1 show ?thesis by (auto simp: db_write_def True)
  next
    case False
    have "?s1 = ?s1\<lparr>ui_db := ui_db s\<rparr>" using s1 by (metis ui.surjective ui.update_convs(1))
    with that [of "ui_db s" q] inv row False show ?thesis by auto
  qed
  let ?del = "upper c = ''DELETE'' \<and> r = ''ok''"
  obtain db2 q2 where w2: "(if ?del then db_write (set_deleted d True stamp) (?s1\<lparr>ui_db := db1\<rparr>) else (Inr (), ?s1\<lparr>ui_db := db1\<rparr>))
      = (Inr (), ?s1\<lparr>ui_db := db2\<rparr>)" "device_row_of db2 d = Some q2" "d_device_id q2 = d_device_id q1"
      "d_is_own q2 = d_is_own q1" "d_pin q2 = d_pin q1" "d_last_auth q2 = d_last_auth q1" "d_deleted q2 = (d_deleted q1 \<or> ?del)"
  proof (cases ?del)
    case True
    from set_deleted_flag [OF w1(2), of d stamp] w1(3) that show ?thesis by (auto simp: db_write_def True simp del: list.map)
  next
    case False
    show ?thesis by (rule that [of db1 q1]) (use w1(3) False in \<open>auto simp del: list.map\<close>)
  qed
  have u: "ack_upper (ack_cmd p) = Inr (upper c)" using p(1) by (simp add: ack_upper_def ack_cmd_def)
  have "remote_ack stamp d p s = (Inr (), ack_tail d c r (PStr c) (?s1\<lparr>ui_db := db2\<rparr>))"
    using p w1(1) w2(1) u
    by (auto simp: remote_ack_def field_def ack_cmd_def Let_def ack_tail_def simp del: list.map)
  with w1 w2 show ?thesis by auto
qed

text \<open>
  An acknowledgement of a paired device takes it out of the list of devices
  that did not answer; its buttons are usable afterwards exactly if it has a PIN, its last recorded
  result is not \<open>auth_failed\<close>, and it neither was nor is now confirmed as wiped; a RING that was not
  accepted is no longer shown as ringing.
\<close>
lemma ack_updates_buttons:
  assumes "devices_inv (ui_db s)" "own_id_of (ui_db s) = Some own"
    and "get_device (ui_db s) d = Some dev" "is_own dev = 0" "d \<noteq> []"
    and "p ''cmd'' = Some (PStr c)" "p ''result'' = Some (PStr r)"
  shows "\<exists>s' dev'. on_remote_ack draws stamp (Some d) p s = (Inr (), s') \<and> get_device (ui_db s') d = Some dev'
    \<and> (let e = device_entry_of own_rings s' dev'; known = (r \<in> {''ok'', ''auth_failed'', ''disabled''});
           failed = (if known then r = ''auth_failed'' else last_auth_result dev = Some ''auth_failed'');
           wiped = (deleted dev \<noteq> 0 \<or> upper c = ''DELETE'' \<and> r = ''ok'')
       in \<not> en_no_response e \<and> en_deleted e = wiped
          \<and> en_actions_enabled e = (pin dev \<notin> {None, Some []} \<and> \<not> failed \<and> \<not> wiped)
          \<and> en_ringing e = (d \<in> ringing s \<and> \<not> (upper c = ''RING'' \<and> r \<noteq> ''ok'')))"
proof -
  from other_not_own [OF assms(1-4)] have own: "own_device_id draws stamp (ui_db s) = (Inr (Some own), ui_db s)" "own \<noteq> d"
    by blast+
  obtain q where q: "device_row_of (ui_db s) d = Some q" "dev = row_to_dict q" using assms(3) by (auto simp: get_device_def)
  then have "\<not> d_is_own q" "d_device_id q = d"
    using assms(4) device_row_of_mem [OF q(1)] by (simp_all add: row_to_dict_def split: if_splits)
  obtain db q' where
    a: "remote_ack stamp d p s = (Inr (), ack_tail d c r (PStr c) ((clear_ack_timeout d s)\<lparr>ui_db := db\<rparr>))"
      "device_row_of db d = Some q'" "d_device_id q' = d_device_id q" "d_is_own q' = d_is_own q" "d_pin q' = d_pin q"
      "d_last_auth q' = (if r \<in> set ack_results then Some r else d_last_auth q)"
      "d_deleted q' = (d_deleted q \<or> upper c = ''DELETE'' \<and> r = ''ok'')"
    using remote_ack_text [OF assms(1,6,7) q(1), of stamp] by (elim exE conjE) (rule that)
  let ?s' = "ack_tail d c r (PStr c) ((clear_ack_timeout d s)\<lparr>ui_db := db\<rparr>)"
  have s: "(s\<lparr>ui_db := ui_db s\<rparr>) = s" by (cases s) simp
  let ?e = "device_entry_of own_rings ?s' (row_to_dict q')"
  have ack: "on_remote_ack draws stamp (Some d) p s = (Inr (), ?s')"
    using own assms(5) a(1) by (simp add: on_remote_ack_def s)
  have f: "ui_db ?s' = db" "timed_out ?s' = timed_out s - {d}"
    "ringing ?s' = (if upper c = ''RING'' \<and> r \<noteq> ''ok'' then ringing s - {d} else ringing s)"
    by (simp_all add: ack_tail_def emit_def clear_ringing_def clear_ack_timeout_def del: list.map)
  have get: "get_device (ui_db ?s') d = Some (row_to_dict q')" unfolding f(1) using a(2) by (simp add: get_device_def)
  have row: "device_id (row_to_dict q') = d" "is_own (row_to_dict q') = 0" "pin (row_to_dict q') = pin dev"
    "last_auth_result (row_to_dict q') = (if r \<in> set ack_results then Some r else last_auth_result dev)"
    "deleted (row_to_dict q') \<noteq> 0 \<longleftrightarrow> deleted dev \<noteq> 0 \<or> upper c = ''DELETE'' \<and> r = ''ok''"
    using a(3-7) q(2) \<open>\<not> d_is_own q\<close> \<open>d_device_id q = d\<close> by (simp_all add: row_to_dict_def del: list.map)
  have failed: "en_auth_failed ?e \<longleftrightarrow>
      (if r \<in> set ack_results then r = ''auth_failed'' else last_auth_result dev = Some ''auth_failed'')"
    by (simp add: device_entry_of_def Let_def row(4) split: option.split)
  have "\<not> en_no_response ?e" by (simp add: device_entry_of_def Let_def row(1) f(2))
  moreover have del: "en_deleted ?e \<longleftrightarrow> deleted dev \<noteq> 0 \<or> upper c = ''DELETE'' \<and> r = ''ok''"
    unfolding row(5) [symmetric] by (simp add: device_entry_of_def Let_def)
  moreover have "en_actions_enabled ?e \<longleftrightarrow> en_has_pin ?e \<and> \<not> en_auth_failed ?e \<and> \<not> en_no_response ?e \<and> \<not> en_deleted ?e"
    by (simp add: device_entry_of_def Let_def row(2))
  moreover have "en_has_pin ?e \<longleftrightarrow> pin dev \<notin> {None, Some []}" by (simp add: device_entry_of_def Let_def row(3))
  moreover have "en_ringing ?e \<longleftrightarrow> d \<in> ringing s \<and> \<not> (upper c = ''RING'' \<and> r \<noteq> ''ok'')"
    using f(3) by (simp add: device_entry_of_def Let_def row(1,2) del: list.map)
  ultimately show ?thesis
    using ack get failed unfolding ack_results_def list.set Let_def by (intro exI conjI) (assumption+, simp_all only: simp_thms)
qed

definition ring_ok :: MqttClient.payload where
  "ring_ok = [''cmd'' \<mapsto> PStr ''lock'', ''result'' \<mapsto> PStr ''ok'']"

text \<open>The exception that escapes: a \<open>cmd\<close> that is no text, after the result was recorded.\<close>

lemma ack_non_text_raises:
  assumes "p ''cmd'' = Some (PInt 1)" "devices_inv (ui_db s)" "p ''result'' = Some (PStr ''ok'')"
  shows "\<exists>s'. remote_ack stamp d p s = (Inl (OtherError ''AttributeError''), s') \<and> emitted s' = emitted s"
proof -
  obtain db where db: "set_auth_result d (Some ''ok'') stamp (ui_db s) = (Inr (), db)"
    using set_auth_result_flag [OF assms(2), of "''ok''" d stamp] by (auto simp: ack_results_def)
  have "ui_db (clear_ack_timeout d s) = ui_db s" "emitted (clear_ack_timeout d s) = emitted s"
    by (simp_all add: clear_ack_timeout_def)
  with assms(1,3) db show ?thesis
    by (simp add: remote_ack_def field_def Let_def ack_results_def db_write_def ack_cmd_def ack_upper_def)
qed

end
