(* ===== verification/UiLocation.thy ===== *)
theory UiLocation
  imports UiButtons
begin

text \<open>
  \<open>qml/utilities/api.py\<close>, third part: the own device's position. The location switch as the sandboxed
  GUI reads it, one fix asked of the QML side, the fix that is stored and published, and the polling
  chain the app keeps while no background daemon does. What another process, the file system, the QML
  side or the broker answers during one fix is an argument of that fix.
\<close>

section \<open>The location switch\<close>

text \<open>
  \<open>^key\s*=\s*value\s*$\<close> for a literal value: whether a line start of the text matches. The first
  argument of \<open>search_first\<close> is the rest after the match.
\<close>

definition literal_match :: "string \<Rightarrow> string \<Rightarrow> string \<Rightarrow> string option" where
  "literal_match key v s =
    (case key_eq key s of
       None \<Rightarrow> None
     | Some r \<Rightarrow>
        let r' = dropWhile is_space r
        in if starts_with r' v then blanks_to_eol (drop (length v) r') else None)"

definition line_sets :: "string \<Rightarrow> string \<Rightarrow> string \<Rightarrow> bool" where
  "line_sets text key v \<longleftrightarrow> search_first True (literal_match key v) text \<noteq> None"

definition readable_text :: "(string \<Rightarrow> bool) \<Rightarrow> conf_fs \<Rightarrow> string \<Rightarrow> string option" where
  "readable_text readable fs path = (if readable path then map_option content (fs path) else None)"

fun location_loop :: "(string \<Rightarrow> string option) \<Rightarrow> string list \<Rightarrow> bool \<times> bool \<times> bool \<Rightarrow> bool \<times> bool \<times> bool" where
  "location_loop file [] acc = acc"
| "location_loop file (p # ps) (readable, enabled, gps) =
    (case file p of
       None \<Rightarrow> location_loop file ps (readable, enabled, gps)
     | Some text \<Rightarrow>
        (if line_sets text KEY_ENABLED ''true''
         then location_loop file ps (True, True, gps \<or> \<not> line_sets text KEY_GPS_ENABLED ''false'')
         else location_loop file ps (True, enabled, gps)))"

definition location_state :: "(string \<Rightarrow> string option) \<Rightarrow> string" where
  "location_state file =
    (case location_loop file DEFAULT_PATHS (False, False, False) of
       (readable, enabled, gps) \<Rightarrow>
         if \<not> readable then ''on'' else if \<not> enabled then ''off'' else if gps then ''on'' else ''no_gps'')"

definition location_enabled :: "(string \<Rightarrow> string option) \<Rightarrow> bool" where
  "location_enabled file \<longleftrightarrow> location_state file \<noteq> ''off''"

section \<open>One fix from the QML side\<close>

record QmlFix =
  qf_success :: bool
  qf_error :: "string option"
  qf_lat :: pyval
  qf_lon :: pyval
  qf_alt :: pyval
  qf_speed :: pyval
  qf_accuracy :: pyval
  qf_utc :: string
  qf_local :: string

definition stamp_local :: "int \<Rightarrow> time \<Rightarrow> string" where
  "stamp_local offset t = format_time (\<lfloor>t\<rfloor> + offset)"

definition failed_fix :: "int \<Rightarrow> time \<Rightarrow> string \<Rightarrow> QmlFix" where
  "failed_fix offset t e =
     \<lparr>qf_success = False, qf_error = Some e, qf_lat = PNone, qf_lon = PNone, qf_alt = PNone, qf_speed = PNone,
      qf_accuracy = PNone, qf_utc = iso_utc t, qf_local = stamp_local offset t\<rparr>"

text \<open>The \<open>data\<close> of a report: a dictionary, with the text Python prints for it, or any other value.\<close>

datatype qml_data = Dict string "string \<rightharpoonup> pyval" | Plain pyval

fun data_truthy :: "qml_data \<Rightarrow> bool" where
  "data_truthy (Dict repr m) = (m \<noteq> Map.empty)"
| "data_truthy (Plain v) = py_truthy v"

fun data_str :: "qml_data \<Rightarrow> string" where
  "data_str (Dict repr m) = repr"
| "data_str (Plain v) = py_str v"

text \<open>The application: the state of the other parts of the module, and what this part adds to it.\<close>

datatype tick_phase = Fired | Checked | Fixing | Fixed

record app =
  gui :: ui
  qml_seq :: int
  qml_result :: "(int \<times> QmlFix) option"
  qml_event :: bool
  fg_timer :: "nat option"                       \<comment> \<open>\<open>_fg_gps_timer\<close>, by the number of the timer\<close>
  fg_next :: nat                                 \<comment> \<open>the number the next timer gets\<close>
  fg_gen :: nat
  fg_armed :: "nat \<rightharpoonup> (nat \<times> rat)"               \<comment> \<open>timers that wait: their generation and delay\<close>
  fg_ticks :: "nat \<rightharpoonup> (nat \<times> tick_phase)"         \<comment> \<open>timers that fired and whose function still runs\<close>
  fg_in_failure :: bool

definition new_app :: "database \<Rightarrow> app" where
  "new_app db = \<lparr>gui = new_ui db, qml_seq = 0, qml_result = None, qml_event = False, fg_timer = None, fg_next = 0, fg_gen = 0,
     fg_armed = Map.empty, fg_ticks = Map.empty, fg_in_failure = False\<rparr>"

definition on_gui :: "(ui \<Rightarrow> ui) \<Rightarrow> app \<Rightarrow> app" where
  "on_gui f s = s\<lparr>gui := f (gui s)\<rparr>"

abbreviation app_db :: "app \<Rightarrow> database" where "app_db s \<equiv> ui_db (gui s)"

text \<open>A report of the QML side: its number, its verdict, its data, and when it comes.\<close>

type_synonym qml_report = "int \<times> bool \<times> qml_data \<times> time"

definition reported_fix :: "int \<Rightarrow> bool \<Rightarrow> qml_data \<Rightarrow> time \<Rightarrow> exn + QmlFix" where
  "reported_fix offset ok data now =
    (if \<not> ok then Inr (failed_fix offset now (if data_truthy data then data_str data else ''no fix''))
     else case (if data_truthy data then data else Dict [] Map.empty) of
       Plain _ \<Rightarrow> Inl (OtherError ''AttributeError'')
     | Dict _ d \<Rightarrow> Inr \<lparr>qf_success = True, qf_error = None, qf_lat = field d ''lat'', qf_lon = field d ''lon'',
         qf_alt = field d ''alt'', qf_speed = field d ''speed'', qf_accuracy = field d ''accuracy'',
         qf_utc = iso_utc now, qf_local = stamp_local offset now\<rparr>)"

definition qml_fix_result :: "int \<Rightarrow> qml_report \<Rightarrow> app \<Rightarrow> (exn + bool) \<times> app" where
  "qml_fix_result offset report s =
    (case report of (seq, ok, data, now) \<Rightarrow>
       (case reported_fix offset ok data now of
          Inl e \<Rightarrow> (Inl e, s)
        | Inr f \<Rightarrow> (Inr True, s\<lparr>qml_result := Some (seq, f), qml_event := True\<rparr>)))"

definition deliver :: "int \<Rightarrow> qml_report list \<Rightarrow> app \<Rightarrow> app" where
  "deliver offset reports s = fold (\<lambda>r. snd \<circ> qml_fix_result offset r) reports s"

text \<open>
  \<open>_qml_fix\<close>: \<open>reports\<close> are the calls of \<open>qml_fix_result\<close> between the request and the moment the
  waiting thread looks at the result.
\<close>

definition qml_fix :: "bool \<Rightarrow> int \<Rightarrow> int \<Rightarrow> time \<Rightarrow> qml_report list \<Rightarrow> app \<Rightarrow> QmlFix \<times> app" where
  "qml_fix have_qml timeout offset now reports s =
    (if \<not> have_qml then (failed_fix offset now ''no QML runtime (off-device)'', s)
     else
      let seq = qml_seq s + 1;
          s1 = on_gui (emit (RequestGpsFix seq (timeout * 1000))) (s\<lparr>qml_seq := seq, qml_result := None, qml_event := False\<rparr>);
          s2 = deliver offset reports s1
      in (if \<not> qml_event s2 then failed_fix offset now ''timeout waiting for QML fix''
          else case qml_result s2 of
            None \<Rightarrow> failed_fix offset now ''superseded fix request''
          | Some (n, f) \<Rightarrow> if n \<noteq> seq then failed_fix offset now ''superseded fix request'' else f, s2))"

fun contains :: "string \<Rightarrow> string \<Rightarrow> bool" where
  "contains [] p \<longleftrightarrow> p = []"
| "contains (c # s) p \<longleftrightarrow> starts_with (c # s) p \<or> contains s p"

definition fix_error_code :: "string option \<Rightarrow> string" where
  "fix_error_code err =
    (let e = lower (or_empty err)
     in if contains e ''geoclue'' \<or> contains e ''serviceunknown'' \<or> contains e ''hybris'' \<or> contains e ''provider''
        then ''gps_unavailable''
        else if contains e ''timeout'' \<or> contains e ''timed out'' \<or> contains e ''no fix'' then ''no_fix''
        else ''no_fix'')"

section \<open>Storing and publishing the own position\<close>

definition publish_own_location :: "publish_env \<Rightarrow> time \<Rightarrow> string \<Rightarrow> GpsDaemon.payload \<Rightarrow> ui \<Rightarrow> ui" where
  "publish_own_location penv now own_id p s =
    (if \<not> get_bool (ui_db s) MQTT_ENABLED \<or> \<not> setting_filled (ui_db s) MQTT_SERVER then s
     else
      let (ok, s1) = (case ui_mqtt s of
            None \<Rightarrow> (False, s)
          | Some m \<Rightarrow> (case publish_location penv own_id (json_dumps p) True m of (ok, m', _) \<Rightarrow> (ok, s\<lparr>ui_mqtt := Some m'\<rparr>)))
      in if ok then s1\<lparr>pending_location := None\<rparr>
         else
          let s2 = s1\<lparr>pending_location := Some (own_id, p)\<rparr>
          in if get_bool (ui_db s2) AUTO_ENABLE_MOBILE_DATA \<and> daemon_status (ui_db s2) ''cmd'' now \<noteq> ''not_installed_or_stopped''
             then s2\<lparr>ui_db := request_location_publish now (ui_db s2)\<rparr> else s2)"

record fix_env =
  fe_now :: time
  fe_offset :: int
  fe_draws :: "string list"
  fe_file :: "string \<Rightarrow> string option"          \<comment> \<open>the files of the location switch that can be read\<close>
  fe_have_qml :: bool
  fe_reports :: "qml_report list"
  fe_battery :: "string option list"
  fe_publish :: publish_env
  fe_repr :: "rat \<Rightarrow> string"                    \<comment> \<open>the text Python prints for a float\<close>

definition py_float_of :: "fix_env \<Rightarrow> pyfloat \<Rightarrow> pyval" where
  "py_float_of env x = (case x of Fin r \<Rightarrow> PFloat r (fe_repr env r) | _ \<Rightarrow> PNone)"

definition home_fix :: "fix_env \<Rightarrow> pyfloat \<times> pyfloat \<Rightarrow> QmlFix" where
  "home_fix env c =
     \<lparr>qf_success = True, qf_error = None, qf_lat = py_float_of env (fst c), qf_lon = py_float_of env (snd c), qf_alt = PNone,
      qf_speed = PFloat SPEED (fe_repr env SPEED), qf_accuracy = PFloat ACCURACY_M (fe_repr env ACCURACY_M),
      qf_utc = iso_utc (fe_now env), qf_local = stamp_local (fe_offset env) (fe_now env)\<rparr>"

definition fix_payload :: "string \<Rightarrow> QmlFix \<Rightarrow> pyval \<Rightarrow> GpsDaemon.payload" where
  "fix_payload own_id f battery = location_payload own_id (PStr (qf_utc f)) (PStr (qf_local f)) (qf_lat f) (qf_lon f)
     (qf_alt f) (qf_speed f) (qf_accuracy f) battery"

text \<open>The end of \<open>_do_refresh_location\<close>: what a fix leads to.\<close>

definition finish_fix :: "fix_env \<Rightarrow> bool \<Rightarrow> bool \<Rightarrow> string \<Rightarrow> QmlFix \<Rightarrow> app \<Rightarrow> (exn + bool \<times> string) \<times> app" where
  "finish_fix env notify notify_fail own_id f s =
    (let battery = opt_py PInt (read_battery_level (fe_battery env))
     in if \<not> qf_success f then
          (Inr (False, case qf_error f of None \<Rightarrow> ''no_fix'' | Some e \<Rightarrow> if e = [] then ''no_fix'' else e),
           on_gui (emit MapUpdated \<circ> (if notify_fail then emit (LocationFix False (fix_error_code (qf_error f))) else id)) s)
        else case store_fix own_id (PStr (qf_utc f)) (PStr (qf_local f)) (qf_lat f) (qf_lon f) (qf_alt f) (qf_speed f)
               (qf_accuracy f) battery True (app_db s) of
          (Inl e, db) \<Rightarrow> (Inl e, on_gui (\<lambda>u. u\<lparr>ui_db := db\<rparr>) s)
        | (Inr _, db) \<Rightarrow>
            (Inr (True, []),
             on_gui (emit DevicesUpdated \<circ> emit MapUpdated
               \<circ> (if notify then emit (LocationFix True ''fix stored'') else id)
               \<circ> publish_own_location (fe_publish env) (fe_now env) own_id (fix_payload own_id f battery)
               \<circ> (\<lambda>u. u\<lparr>ui_db := db\<rparr>)) s))"

definition do_refresh_location :: "fix_env \<Rightarrow> bool \<Rightarrow> bool option \<Rightarrow> app \<Rightarrow> (exn + bool \<times> string) \<times> app" where
  "do_refresh_location env notify notify_fail0 s =
    (let notify_fail = (case notify_fail0 of None \<Rightarrow> notify | Some b \<Rightarrow> b)
     in case own_device_id (fe_draws env) (iso_utc (fe_now env)) (app_db s) of
       (Inl e, db) \<Rightarrow> (Inl e, on_gui (\<lambda>u. u\<lparr>ui_db := db\<rparr>) s)
     | (Inr None, db) \<Rightarrow> (Inl TypeError, on_gui (\<lambda>u. u\<lparr>ui_db := db\<rparr>) s)
     | (Inr (Some own_id), db) \<Rightarrow>
        (let s1 = on_gui (\<lambda>u. u\<lparr>ui_db := db\<rparr>) s
         in case fst (match db (connected_wifi db (fe_now env))) of
              Some c \<Rightarrow> finish_fix env notify notify_fail own_id (home_fix env c) s1
            | None \<Rightarrow>
               (let loc = location_state (fe_file env);
                    auto = get_bool db AUTO_ENABLE_LOCATION
                in if loc = ''off'' \<and> \<not> auto then
                     (Inr (False, ''gps_disabled''),
                      on_gui (emit MapUpdated \<circ> (if notify_fail then emit (LocationFix False ''gps_disabled'') else id)) s1)
                   else
                     let s2 = (if loc \<noteq> ''on'' \<and> auto then on_gui (\<lambda>u. u\<lparr>ui_db := request_location_enable (fe_now env) db\<rparr>) s1 else s1)
                     in case qml_fix (fe_have_qml env) 90 (fe_offset env) (fe_now env) (fe_reports env) s2 of
                          (f, s3) \<Rightarrow> finish_fix env notify notify_fail own_id f s3)))"

text \<open>\<open>_refresh_location_worker\<close>, with the fix lock held: a manual update always answers the page.\<close>

definition refresh_location_worker :: "fix_env \<Rightarrow> app \<Rightarrow> app" where
  "refresh_location_worker env s =
    (case do_refresh_location env True None s of
       (Inl _, s1) \<Rightarrow> on_gui (emit (LocationFix False ''error'')) s1
     | (Inr _, s1) \<Rightarrow> s1)"

section \<open>The polling chain of the app\<close>

definition background_daemon_owns_gps :: "time \<Rightarrow> database \<Rightarrow> bool" where
  "background_daemon_owns_gps now db \<longleftrightarrow>
     get_bool db BACKGROUND_ENABLED \<and> daemon_status db ''gps'' now \<noteq> ''not_installed_or_stopped''"

definition schedule_foreground_tick :: "rat option \<Rightarrow> app \<Rightarrow> app" where
  "schedule_foreground_tick delay s =
    (let d = (case delay of Some d \<Rightarrow> d
              | None \<Rightarrow> let minutes = get_int (app_db s) GPS_INTERVAL_MIN 5
                         in of_int (if minutes < 1 then 1 else minutes) * 60)
     in s\<lparr>fg_timer := Some (fg_next s), fg_next := Suc (fg_next s),
          fg_armed := (fg_armed s)(fg_next s \<mapsto> (fg_gen s, d))\<rparr>)"

definition start_foreground_gps :: "app \<Rightarrow> app" where
  "start_foreground_gps s =
    (if fg_timer s \<noteq> None then s
     else schedule_foreground_tick (Some 15) (s\<lparr>fg_gen := Suc (fg_gen s)\<rparr>))"

definition stop_foreground_gps :: "app \<Rightarrow> app" where
  "stop_foreground_gps s =
    (case fg_timer s of
       None \<Rightarrow> s
     | Some k \<Rightarrow>
        (let s1 = s\<lparr>fg_armed := (fg_armed s)(k := None), fg_timer := None, fg_gen := Suc (fg_gen s)\<rparr>
         in if fg_in_failure s1 then on_gui (emit (LocationFix True [])) (s1\<lparr>fg_in_failure := False\<rparr>) else s1))"

definition apply_foreground_gps :: "time \<Rightarrow> app \<Rightarrow> app" where
  "apply_foreground_gps now s =
    (if background_daemon_owns_gps now (app_db s) then stop_foreground_gps s else start_foreground_gps s)"

text \<open>
  \<open>_foreground_tick\<close> in the order of its steps; between two of them other threads may run. Each step
  is that of the tick that timer \<open>k\<close> started.
\<close>

definition fire_timer :: "nat \<Rightarrow> app \<Rightarrow> app" where
  "fire_timer k s =
    (case fg_armed s k of
       None \<Rightarrow> s
     | Some (gen, d) \<Rightarrow> s\<lparr>fg_armed := (fg_armed s)(k := None), fg_ticks := (fg_ticks s)(k \<mapsto> (gen, Fired))\<rparr>)"

definition end_tick :: "nat \<Rightarrow> app \<Rightarrow> app" where
  "end_tick k s = s\<lparr>fg_ticks := (fg_ticks s)(k := None)\<rparr>"

definition tick_fix :: "fix_env \<Rightarrow> app \<Rightarrow> app" where
  "tick_fix env s =
    (case do_refresh_location env False (Some (\<not> fg_in_failure s)) s of
       (Inl _, s1) \<Rightarrow> s1
     | (Inr (ok, _), s1) \<Rightarrow>
        (let s2 = (if ok \<and> fg_in_failure s1 then on_gui (emit (LocationFix True [])) s1 else s1)
         in s2\<lparr>fg_in_failure := \<not> ok\<rparr>))"

fun foreground_tick :: "nat \<Rightarrow> time \<Rightarrow> fix_env \<Rightarrow> app \<Rightarrow> app" where
  "foreground_tick k now env s =
    (case fg_ticks s k of
       None \<Rightarrow> s
     | Some (gen, Fired) \<Rightarrow>
         (if gen \<noteq> fg_gen s then end_tick k s else s\<lparr>fg_ticks := (fg_ticks s)(k \<mapsto> (gen, Checked))\<rparr>)
     | Some (gen, Checked) \<Rightarrow>
         (if background_daemon_owns_gps now (app_db s) then end_tick k (stop_foreground_gps s)
          else s\<lparr>fg_ticks := (fg_ticks s)(k \<mapsto> (gen, Fixing))\<rparr>)
     | Some (gen, Fixing) \<Rightarrow> (tick_fix env s)\<lparr>fg_ticks := (fg_ticks s)(k \<mapsto> (gen, Fixed))\<rparr>
     | Some (gen, Fixed) \<Rightarrow>
         (if fg_timer s \<noteq> None \<and> gen = fg_gen s then schedule_foreground_tick None (end_tick k s) else end_tick k s))"

text \<open>What can happen in the application, in any order.\<close>

datatype app_event =
    UiDoes ui_event
  | ApplyGps time
  | TimerFires nat
  | TickStep nat time fix_env
  | Refresh fix_env
  | QmlReport int qml_report

fun app_step :: "app \<Rightarrow> app_event \<Rightarrow> app" where
  "app_step s (UiDoes e) = on_gui (\<lambda>u. ui_step u e) s"
| "app_step s (ApplyGps now) = apply_foreground_gps now s"
| "app_step s (TimerFires k) = fire_timer k s"
| "app_step s (TickStep k now env) = foreground_tick k now env s"
| "app_step s (Refresh env) = refresh_location_worker env s"
| "app_step s (QmlReport offset r) = snd (qml_fix_result offset r s)"

section \<open>The switch of the GUI and the switch of the daemons\<close>

text \<open>Every value that some line gives a key, in the order of the lines.\<close>

fun matches_of :: "bool \<Rightarrow> (string \<Rightarrow> string option) \<Rightarrow> string \<Rightarrow> string list" where
  "matches_of bol m [] = (if bol then (case m [] of None \<Rightarrow> [] | Some r \<Rightarrow> [r]) else [])"
| "matches_of bol m (c # cs) =
    (if bol then (case m (c # cs) of None \<Rightarrow> [] | Some r \<Rightarrow> [r]) else []) @ matches_of (c = nl) m cs"

definition key_values :: "string \<Rightarrow> string \<Rightarrow> string list" where
  "key_values text key = matches_of True (read_match key) text"

definition one_value :: "string \<Rightarrow> string \<Rightarrow> bool" where
  "one_value text key \<longleftrightarrow> list_all (\<lambda>v. read_key text key = Some v) (key_values text key)"

lemma search_matches: "search_first bol m s = (case matches_of bol m s of [] \<Rightarrow> None | r # rs \<Rightarrow> Some r)"
  by (induction bol m s rule: search_first.induct) (auto split: option.split list.split)

lemma read_key_values: "read_key text key = (case key_values text key of [] \<Rightarrow> None | r # rs \<Rightarrow> Some r)"
  by (simp add: read_key_def key_values_def search_matches)

lemma blanks_to_eol_space: "blanks_to_eol s \<noteq> None \<Longrightarrow> s = [] \<or> is_space (hd s)"
  by (cases s) (auto simp: blanks_to_eol_def Let_def split: if_splits)

lemma literal_read:
  assumes v: "v \<noteq> []" "\<forall>c\<in>set v. \<not> is_space c"
  shows "literal_match key v s \<noteq> None \<longleftrightarrow> read_match key s = Some v"
proof (cases "key_eq key s")
  case (Some r)
  let ?r = "dropWhile is_space r"
  have w: "takeWhile (\<lambda>c. \<not> is_space c) (v @ t) = v \<and> dropWhile (\<lambda>c. \<not> is_space c) (v @ t) = t"
    if "t = [] \<or> is_space (hd t)" for t
    using that v(2) by (cases t) (auto simp: takeWhile_append dropWhile_append)
  show ?thesis
  proof
    assume "literal_match key v s \<noteq> None"
    then obtain t where t: "?r = v @ t" "blanks_to_eol t \<noteq> None"
      using Some by (auto simp: literal_match_def Let_def starts_with_iff split: if_splits)
    with w [OF blanks_to_eol_space [OF t(2)]] Some v(1) show "read_match key s = Some v"
      by (auto simp: read_match_def Let_def)
  next
    assume "read_match key s = Some v"
    with Some have h: "takeWhile (\<lambda>c. \<not> is_space c) ?r = v" "blanks_to_eol (dropWhile (\<lambda>c. \<not> is_space c) ?r) \<noteq> None"
      by (auto simp: read_match_def Let_def split: if_splits)
    then have "?r = v @ dropWhile (\<lambda>c. \<not> is_space c) ?r" by (metis takeWhile_dropWhile_id)
    then obtain t where "?r = v @ t" "blanks_to_eol t \<noteq> None" using h(2) by metis
    with Some show "literal_match key v s \<noteq> None" by (simp add: literal_match_def Let_def)
  qed
qed (simp add: literal_match_def read_match_def)

lemma matches_literal:
  assumes eq: "\<And>s. m s \<noteq> None \<longleftrightarrow> m' s = Some v"
  shows "matches_of bol m s \<noteq> [] \<longleftrightarrow> v \<in> set (matches_of bol m' s)"
proof (induction s arbitrary: bol)
  case Nil
  show ?case using eq [of "[]"] by (cases bol) (auto split: option.split)
next
  case (Cons c cs)
  have "(case m (c # cs) of None \<Rightarrow> [] | Some r \<Rightarrow> [r]) \<noteq> [] \<longleftrightarrow> v \<in> set (case m' (c # cs) of None \<Rightarrow> [] | Some r \<Rightarrow> [r])"
    using eq [of "c # cs"] by (auto split: option.split)
  then show ?case using Cons.IH [of "c = nl"] by (cases bol) auto
qed

lemma line_sets_values:
  assumes "v \<noteq> []" "\<forall>c\<in>set v. \<not> is_space c"
  shows "line_sets text key v \<longleftrightarrow> v \<in> set (key_values text key)"
  using matches_literal [where m = "literal_match key v" and m' = "read_match key" and v = v and bol = True and s = "text",
      OF literal_read [OF assms]]
  by (cases "matches_of True (literal_match key v) text") (simp_all add: line_sets_def key_values_def search_matches)

lemma one_value_sets:
  assumes "one_value text key" "v \<noteq> []" "\<forall>c\<in>set v. \<not> is_space c"
  shows "line_sets text key v \<longleftrightarrow> read_key text key = Some v"
  unfolding line_sets_values [OF assms(2,3)]
  using assms(1) by (auto simp: one_value_def list_all_iff read_key_values split: list.splits)

lemma location_loop_facts:
  "location_loop file ps (r, e, g) =
    (r \<or> (\<exists>p\<in>set ps. file p \<noteq> None),
     e \<or> (\<exists>p\<in>set ps. \<exists>t. file p = Some t \<and> line_sets t KEY_ENABLED ''true''),
     g \<or> (\<exists>p\<in>set ps. \<exists>t. file p = Some t \<and> line_sets t KEY_ENABLED ''true'' \<and> \<not> line_sets t KEY_GPS_ENABLED ''false''))"
  by (induction ps arbitrary: r e g) (auto split: option.split)

lemma gps_mode_loop_facts:
  "gps_mode_loop rd fs found ps \<longleftrightarrow>
    (\<exists>p\<in>set ps. cs_enabled (read_state rd fs p) = Some ''true'' \<and> cs_gps (read_state rd fs p) \<noteq> Some ''false'')
    \<or> \<not> found \<and> \<not> (\<exists>p\<in>set ps. cs_enabled (read_state rd fs p) = Some ''true'')"
  by (induction rd fs found ps rule: gps_mode_loop.induct) (auto simp: Let_def)

lemma read_state_text:
  "cs_enabled (read_state rd fs p) = (case readable_text rd fs p of None \<Rightarrow> None | Some t \<Rightarrow> read_key t KEY_ENABLED)"
  "cs_gps (read_state rd fs p) = (case readable_text rd fs p of None \<Rightarrow> None | Some t \<Rightarrow> read_key t KEY_GPS_ENABLED)"
  by (auto simp: read_state_def readable_text_def split: option.split)

lemma switch_words: "\<forall>c\<in>set ''true''. \<not> is_space c" "\<forall>c\<in>set ''false''. \<not> is_space c"
  by (auto simp: is_space_def code_def)

text \<open>
  C30. \<open>location_state_agrees\<close>: as long as some \<open>location.conf\<close> can be read and no file gives one of the two
  keys different values on different lines, the GUI's own reading of the location switch and the
  daemons' \<open>needs_enable\<close> give the same answer.
\<close>
theorem location_state_agrees:
  assumes some: "list_ex (\<lambda>p. readable_text rd fs p \<noteq> None) DEFAULT_PATHS"
    and one: "list_all (\<lambda>p. case readable_text rd fs p of None \<Rightarrow> True
                 | Some t \<Rightarrow> one_value t KEY_ENABLED \<and> one_value t KEY_GPS_ENABLED) DEFAULT_PATHS"
  shows "location_state (readable_text rd fs) = (case needs_enable rd fs of None \<Rightarrow> ''on'' | Some st \<Rightarrow> st)"
proof -
  have e: "line_sets t KEY_ENABLED ''true'' \<longleftrightarrow> read_key t KEY_ENABLED = Some ''true''"
    and g: "line_sets t KEY_GPS_ENABLED ''false'' \<longleftrightarrow> read_key t KEY_GPS_ENABLED = Some ''false''"
    if "p \<in> set DEFAULT_PATHS" "readable_text rd fs p = Some t" for p t
    using one that one_value_sets switch_words by (auto simp: list_all_iff)
  have en: "(\<exists>p\<in>set DEFAULT_PATHS. \<exists>t. readable_text rd fs p = Some t \<and> line_sets t KEY_ENABLED ''true'')
      \<longleftrightarrow> is_enabled rd fs DEFAULT_PATHS"
    using e by (auto simp: is_enabled_def list_ex_iff read_state_text split: option.splits) blast+
  have gp: "(\<exists>p\<in>set DEFAULT_PATHS. \<exists>t. readable_text rd fs p = Some t \<and> line_sets t KEY_ENABLED ''true''
        \<and> \<not> line_sets t KEY_GPS_ENABLED ''false'') \<longleftrightarrow> gps_mode_enabled rd fs DEFAULT_PATHS"
    if "is_enabled rd fs DEFAULT_PATHS"
  proof -
    have "gps_mode_enabled rd fs DEFAULT_PATHS \<longleftrightarrow> (\<exists>p\<in>set DEFAULT_PATHS.
        cs_enabled (read_state rd fs p) = Some ''true'' \<and> cs_gps (read_state rd fs p) \<noteq> Some ''false'')"
      using that unfolding gps_mode_enabled_def gps_mode_loop_facts is_enabled_def list_ex_iff by simp
    also have "\<dots> \<longleftrightarrow> (\<exists>p\<in>set DEFAULT_PATHS. \<exists>t. readable_text rd fs p = Some t \<and> line_sets t KEY_ENABLED ''true''
        \<and> \<not> line_sets t KEY_GPS_ENABLED ''false'')"
      using e g by (intro bex_cong refl) (auto simp: read_state_text split: option.split)
    finally show ?thesis by simp
  qed
  show ?thesis
    using some en gp unfolding location_state_def location_loop_facts needs_enable_def list_ex_iff by auto
qed

definition network_only_fs :: conf_fs where
  "network_only_fs = [''/etc/location/location.conf'' \<mapsto>
     \<lparr>content = ''[location]'' @ [nl] @ ''enabled=true'' @ [nl] @ KEY_GPS_ENABLED @ '' = false'' @ [nl], mode = 420, owner = (0, 0)\<rparr>]"

theorem location_state_agrees_witness: "location_state (readable_text (\<lambda>_. True) network_only_fs) = ''no_gps''"
proof -
  have "needs_enable (\<lambda>_. True) network_only_fs = Some ''no_gps''" by code_simp
  moreover have "list_ex (\<lambda>p. readable_text (\<lambda>_. True) network_only_fs p \<noteq> None) DEFAULT_PATHS" by code_simp
  moreover have "list_all (\<lambda>p. case readable_text (\<lambda>_. True) network_only_fs p of None \<Rightarrow> True
                 | Some t \<Rightarrow> one_value t KEY_ENABLED \<and> one_value t KEY_GPS_ENABLED) DEFAULT_PATHS" by code_simp
  ultimately show ?thesis using location_state_agrees [of "\<lambda>_. True" network_only_fs] by simp
qed

text \<open>Without the second condition the two differ: the daemons take the first line, the GUI any line.\<close>

lemma location_state_differs:
  "location_state (\<lambda>p. Some (''enabled=false'' @ [nl] @ ''enabled=true'')) = ''on''
    \<and> needs_enable (\<lambda>_. True) (\<lambda>p. Some \<lparr>content = ''enabled=false'' @ [nl] @ ''enabled=true'', mode = 420, owner = (0, 0)\<rparr>)
        = Some ''off''"
  by code_simp

end
