(* ===== verification/UiTracking.thy ===== *)
theory UiTracking
  imports UiLocation
begin

text \<open>
  The properties of the own device's position in the GUI: the polling chain is one chain, a report of
  the QML side answers only its own request, and a fix that was taken is not lost.
\<close>

section \<open>The chain\<close>

definition chain :: "app \<Rightarrow> nat option \<times> nat \<times> nat \<times> (nat \<rightharpoonup> nat \<times> rat) \<times> (nat \<rightharpoonup> nat \<times> tick_phase)" where
  "chain s = (fg_timer s, fg_next s, fg_gen s, fg_armed s, fg_ticks s)"

lemma chain_eqD:
  assumes "chain s = chain s'"
  shows "fg_timer s = fg_timer s'" "fg_next s = fg_next s'" "fg_gen s = fg_gen s'" "fg_armed s = fg_armed s'"
    "fg_ticks s = fg_ticks s'"
  using assms by (simp_all add: chain_def)

lemma chain_on_gui [simp]: "chain (on_gui f s) = chain s"
  by (simp add: chain_def on_gui_def)

lemma chain_in_failure [simp]: "chain (s\<lparr>fg_in_failure := b\<rparr>) = chain s"
  by (simp add: chain_def)

lemma chain_report [simp]: "chain (snd (qml_fix_result offset r s)) = chain s"
  by (auto simp: qml_fix_result_def chain_def split: prod.split sum.split)

lemma chain_deliver [simp]: "chain (deliver offset rs s) = chain s"
  unfolding deliver_def by (induction rs arbitrary: s) simp_all

lemma chain_request [simp]: "chain (s\<lparr>qml_seq := n, qml_result := r, qml_event := b\<rparr>) = chain s"
  by (simp add: chain_def)

lemma chain_qml_fix: "qml_fix have_qml t off now rs s = (f, s') \<Longrightarrow> chain s' = chain s"
  by (auto simp: qml_fix_def Let_def split: if_splits)

lemma chain_finish [simp]: "chain (snd (finish_fix env nt nf own f s)) = chain s"
  by (auto simp: finish_fix_def Let_def split: prod.split sum.split)

lemma chain_refresh: "do_refresh_location env nt nf s = (r, s') \<Longrightarrow> chain s' = chain s"
proof -
  have f: "finish_fix env a b own f t = (r, s') \<Longrightarrow> chain s' = chain t" for a b own f t
    using chain_finish [of env a b own f t] by simp
  show "do_refresh_location env nt nf s = (r, s') \<Longrightarrow> chain s' = chain s"
    by (auto simp: do_refresh_location_def Let_def split: prod.splits sum.splits option.splits if_splits
        dest!: f chain_qml_fix)
qed

lemma chain_worker [simp]: "chain (refresh_location_worker env s) = chain s"
  by (auto simp: refresh_location_worker_def split: prod.splits sum.splits dest: chain_refresh)

lemma chain_tick_fix [simp]: "chain (tick_fix env s) = chain s"
  by (auto simp: tick_fix_def Let_def split: prod.splits sum.splits dest: chain_refresh)

text \<open>
  The timers and running ticks that could still arm a successor, and the invariant: they are exactly the
  timer the module holds.
\<close>

definition current :: "app \<Rightarrow> nat \<Rightarrow> bool" where
  "current s k \<longleftrightarrow> (\<exists>d. fg_armed s k = Some (fg_gen s, d)) \<or> (\<exists>ph. fg_ticks s k = Some (fg_gen s, ph))"

definition chain_inv :: "app \<Rightarrow> bool" where
  "chain_inv s \<longleftrightarrow>
     (\<forall>k. current s k \<longleftrightarrow> fg_timer s = Some k)
     \<and> (\<forall>k gen d. fg_armed s k = Some (gen, d) \<longrightarrow> fg_timer s = Some k \<and> k < fg_next s \<and> (d = 15 \<or> 60 \<le> d) \<and> gen \<le> fg_gen s)
     \<and> (\<forall>k gen ph. fg_ticks s k = Some (gen, ph) \<longrightarrow> k < fg_next s \<and> gen \<le> fg_gen s \<and> fg_armed s k = None)"

lemma chain_invD:
  assumes "chain_inv s"
  shows "current s k \<longleftrightarrow> fg_timer s = Some k"
    "fg_armed s k = Some (gen, d) \<Longrightarrow> fg_timer s = Some k \<and> k < fg_next s \<and> (d = 15 \<or> 60 \<le> d) \<and> gen \<le> fg_gen s"
    "fg_ticks s k = Some (gen, ph) \<Longrightarrow> k < fg_next s \<and> gen \<le> fg_gen s \<and> fg_armed s k = None"
  using assms unfolding chain_inv_def by blast+

lemma chain_invI:
  assumes "\<And>k. current s k \<longleftrightarrow> fg_timer s = Some k"
    and "\<And>k gen d. fg_armed s k = Some (gen, d) \<Longrightarrow> fg_timer s = Some k \<and> k < fg_next s \<and> (d = 15 \<or> 60 \<le> d) \<and> gen \<le> fg_gen s"
    and "\<And>k gen ph. fg_ticks s k = Some (gen, ph) \<Longrightarrow> k < fg_next s \<and> gen \<le> fg_gen s \<and> fg_armed s k = None"
  shows "chain_inv s"
  unfolding chain_inv_def using assms by blast

lemma chain_inv_cong:
  assumes "chain s = chain s'"
  shows "chain_inv s = chain_inv s'"
  using chain_eqD [OF assms] by (simp add: chain_inv_def current_def)

lemma chain_inv_new: "chain_inv (new_app db)"
  by (simp add: chain_inv_def current_def new_app_def)

lemma end_tick_inv:
  assumes inv: "chain_inv s" and t: "fg_ticks s k = Some (gen, ph)" and "gen \<noteq> fg_gen s"
  shows "chain_inv (end_tick k s)"
proof -
  have "\<not> current s k" using chain_invD(3) [OF inv t] assms(2,3) by (simp add: current_def)
  then have "current (end_tick k s) j = current s j" for j by (auto simp: current_def end_tick_def)
  then show ?thesis
    using chain_invD [OF inv] by (intro chain_invI) (auto simp: end_tick_def split: if_splits)
qed

lemma move_tick_inv:
  assumes inv: "chain_inv s" and t: "fg_ticks s k = Some (gen, ph)"
  shows "chain_inv (s\<lparr>fg_ticks := (fg_ticks s)(k \<mapsto> (gen, ph'))\<rparr>)"
proof -
  have "current (s\<lparr>fg_ticks := (fg_ticks s)(k \<mapsto> (gen, ph'))\<rparr>) j = current s j" for j
    using t by (auto simp: current_def)
  then show ?thesis
    using chain_invD [OF inv] t by (intro chain_invI) (auto split: if_splits)
qed

lemma fire_inv:
  assumes inv: "chain_inv s"
  shows "chain_inv (fire_timer k s)"
proof (cases "fg_armed s k")
  case (Some gd)
  obtain gen d where a: "fg_armed s k = Some (gen, d)" using Some by (cases gd) auto
  then have "fg_ticks s k = None" using chain_invD(3) [OF inv, of k] by (cases "fg_ticks s k") auto
  with a have c: "current (fire_timer k s) j = current s j" for j by (auto simp: current_def fire_timer_def)
  show ?thesis
  proof (rule chain_invI)
    show "current (fire_timer k s) j \<longleftrightarrow> fg_timer (fire_timer k s) = Some j" for j
      using c chain_invD(1) [OF inv] a by (simp add: fire_timer_def)
  next
    fix j g e
    assume "fg_armed (fire_timer k s) j = Some (g, e)"
    then have "fg_armed s j = Some (g, e)" by (simp add: fire_timer_def a split: if_splits)
    from chain_invD(2) [OF inv this]
    show "fg_timer (fire_timer k s) = Some j \<and> j < fg_next (fire_timer k s) \<and> (e = 15 \<or> 60 \<le> e) \<and> g \<le> fg_gen (fire_timer k s)"
      by (simp add: fire_timer_def a)
  next
    fix j g ph
    assume "fg_ticks (fire_timer k s) j = Some (g, ph)"
    then show "j < fg_next (fire_timer k s) \<and> g \<le> fg_gen (fire_timer k s) \<and> fg_armed (fire_timer k s) j = None"
      using chain_invD(2) [OF inv a] chain_invD(3) [OF inv, of j] by (auto simp: fire_timer_def a split: if_splits)
  qed
qed (use inv in \<open>simp add: fire_timer_def\<close>)

lemma stop_inv:
  assumes inv: "chain_inv s"
  shows "chain_inv (stop_foreground_gps s)"
proof (cases "fg_timer s")
  case (Some k)
  let ?s = "s\<lparr>fg_armed := (fg_armed s)(k := None), fg_timer := None, fg_gen := Suc (fg_gen s)\<rparr>"
  have "fg_armed s k' = None" if "k' \<noteq> k" for k'
    using chain_invD(2) [OF inv, of k'] Some that by (cases "fg_armed s k'") auto
  moreover have "gen \<noteq> Suc (fg_gen s)" "gen \<le> Suc (fg_gen s)" if "fg_ticks s k' = Some (gen, ph)" for k' gen ph
    using chain_invD(3) [OF inv that] by auto
  ultimately have "chain_inv ?s"
    using chain_invD(3) [OF inv] unfolding chain_inv_def current_def by (auto split: if_splits)
  moreover have "chain (stop_foreground_gps s) = chain ?s"
    using Some by (simp add: stop_foreground_gps_def Let_def)
  ultimately show ?thesis using chain_inv_cong by blast
qed (use inv in \<open>simp add: stop_foreground_gps_def\<close>)

text \<open>A new timer keeps the invariant when nothing of the current generation is left.\<close>

lemma schedule_inv:
  assumes none: "\<And>k. \<not> current s k" "\<And>k. fg_armed s k = None" "delay = Some 15 \<or> delay = None"
    and ticks: "\<And>k gen ph. fg_ticks s k = Some (gen, ph) \<Longrightarrow> k < fg_next s \<and> gen \<le> fg_gen s"
  shows "chain_inv (schedule_foreground_tick delay s)"
proof -
  have n: "fg_ticks s (fg_next s) = None"
    using ticks [of "fg_next s"] by (cases "fg_ticks s (fg_next s)") auto
  define d where "d = (case delay of Some d \<Rightarrow> d
    | None \<Rightarrow> let minutes = get_int (app_db s) GPS_INTERVAL_MIN 5 in of_int (if minutes < 1 then 1 else minutes) * 60)"
  have e: "schedule_foreground_tick delay s =
      s\<lparr>fg_timer := Some (fg_next s), fg_next := Suc (fg_next s), fg_armed := (fg_armed s)(fg_next s \<mapsto> (fg_gen s, d))\<rparr>"
    unfolding schedule_foreground_tick_def d_def Let_def ..
  have "60 \<le> of_int (if m < 1 then 1 else m) * (60 :: rat)" for m :: int by simp
  with none(3) have d: "d = 15 \<or> 60 \<le> d" unfolding d_def Let_def by (elim disjE) simp_all
  have "\<And>k gen ph. fg_ticks s k = Some (gen, ph) \<Longrightarrow> k < Suc (fg_next s) \<and> k \<noteq> fg_next s \<and> gen \<le> fg_gen s"
    using ticks n by fastforce
  then show ?thesis
    using none(1,2) d unfolding e by (intro chain_invI) (auto simp: current_def split: if_splits)
qed

lemma start_inv:
  assumes inv: "chain_inv s"
  shows "chain_inv (start_foreground_gps s)"
proof (cases "fg_timer s")
  case None
  have a: "fg_armed s k = None" for k
    using chain_invD(2) [OF inv, of k] None by (cases "fg_armed s k") auto
  have t: "k < fg_next s \<and> gen < Suc (fg_gen s)" if "fg_ticks s k = Some (gen, ph)" for k gen ph
    using chain_invD(3) [OF inv that] by auto
  have "chain_inv (schedule_foreground_tick (Some 15) (s\<lparr>fg_gen := Suc (fg_gen s)\<rparr>))"
    by (rule schedule_inv) (use a t in \<open>force simp: current_def\<close>)+
  with None show ?thesis by (simp add: start_foreground_gps_def)
qed (use inv in \<open>simp add: start_foreground_gps_def\<close>)

lemma tick_step_inv:
  assumes inv: "chain_inv s"
  shows "chain_inv (foreground_tick k now env s)"
proof (cases "fg_ticks s k")
  case (Some gp)
  obtain gen ph where gp: "fg_ticks s k = Some (gen, ph)" using Some by (cases gp) auto
  note t = chain_invD(3) [OF inv gp]
  show ?thesis
  proof (cases ph)
    case Fired
    then show ?thesis using gp inv end_tick_inv [OF inv gp] move_tick_inv [OF inv gp, of Checked] by auto
  next
    case Checked
    have "chain_inv (end_tick k (stop_foreground_gps s))"
    proof (cases "fg_timer s")
      case None
      then have "gen \<noteq> fg_gen s" using gp chain_invD(1) [OF inv, of k] by (auto simp: current_def)
      with None show ?thesis using end_tick_inv [OF inv gp] by (simp add: stop_foreground_gps_def)
    next
      case (Some j)
      have c: "chain (stop_foreground_gps s) =
          chain (s\<lparr>fg_armed := (fg_armed s)(j := None), fg_timer := None, fg_gen := Suc (fg_gen s)\<rparr>)"
        using Some by (simp add: stop_foreground_gps_def Let_def)
      then have "fg_ticks (stop_foreground_gps s) k = Some (gen, ph)" "fg_gen (stop_foreground_gps s) = Suc (fg_gen s)"
        using gp chain_eqD(3,5) [OF c] by simp_all
      with t show ?thesis by (intro end_tick_inv [OF stop_inv [OF inv]]) auto
    qed
    then show ?thesis using Checked gp move_tick_inv [OF inv gp] by simp
  next
    case Fixing
    have c: "chain (tick_fix env s) = chain s" by simp
    then have "chain_inv (tick_fix env s)" using inv chain_inv_cong by blast
    from move_tick_inv [OF this, of k gen ph] gp chain_eqD(5) [OF c] Fixing show ?thesis by simp
  next
    case Fixed
    show ?thesis
    proof (cases "fg_timer s \<noteq> None \<and> gen = fg_gen s")
      case True
      then have k: "fg_timer s = Some k" using gp chain_invD(1) [OF inv, of k] by (auto simp: current_def)
      have a: "fg_armed s k' = None" for k'
        using chain_invD(2) [OF inv, of k'] k t by (cases "fg_armed s k'") auto
      have "\<not> current s k'" if "k' \<noteq> k" for k' using chain_invD(1) [OF inv, of k'] k that by simp
      then have "chain_inv (schedule_foreground_tick None (end_tick k s))"
        by (intro schedule_inv) (use a chain_invD(3) [OF inv] in \<open>auto simp: current_def end_tick_def split: if_splits\<close>)
      then show ?thesis using Fixed gp True by simp
    next
      case False
      then have "gen \<noteq> fg_gen s" using gp chain_invD(1) [OF inv, of k] by (auto simp: current_def)
      then show ?thesis using Fixed gp False end_tick_inv [OF inv gp] by simp
    qed
  qed
qed (use inv in simp)

lemma app_step_inv: "chain_inv s \<Longrightarrow> chain_inv (app_step s e)"
  by (cases e) (simp_all del: foreground_tick.simps add: apply_foreground_gps_def stop_inv start_inv fire_inv tick_step_inv
      chain_inv_cong [OF chain_on_gui] chain_inv_cong [OF chain_worker] chain_inv_cong [OF chain_report])

interpretation app_sys: event_system "\<lambda>s. \<exists>db. s = new_app db" app_step chain_inv
  by unfold_locales (auto simp: chain_inv_new app_step_inv)

text \<open>
  C5. \<open>one_foreground_chain\<close>: however starts, stops, timers, slow fixes and settings saves interleave, the
  timers that wait and the ticks still running of the current generation are exactly the one timer the
  module holds, none when polling is stopped; a retired tick can arm nothing; and every wait is the 15
  seconds after a start or at least a minute.
\<close>
theorem one_foreground_chain:
  fixes db :: database and es :: "app_event list"
  defines "s \<equiv> run_events app_step (new_app db) es"
  shows "{k. current s k} = set_option (fg_timer s) \<and> dom (fg_armed s) \<subseteq> set_option (fg_timer s)
    \<and> (\<exists>ds. ran (fg_armed s) = (\<lambda>d. (fg_gen s, d)) ` ds \<and> ds \<subseteq> {15} \<union> {60..})"
proof -
  have inv: "chain_inv s" unfolding s_def using app_sys.reachable_inv by blast
  have g: "gen = fg_gen s \<and> (d = 15 \<or> 60 \<le> d)" if "fg_armed s k = Some (gen, d)" for k gen d
  proof -
    have "current s k" using chain_invD(1,2) [OF inv] that by blast
    with that chain_invD(2,3) [OF inv] show ?thesis by (fastforce simp: current_def)
  qed
  have r: "ran (fg_armed s) = (\<lambda>d. (fg_gen s, d)) ` (snd ` ran (fg_armed s))"
    using g by (force simp: ran_def image_iff)
  have "snd ` ran (fg_armed s) \<subseteq> {15} \<union> {60..}" using g by (force simp: ran_def)
  with r have x: "\<exists>ds. ran (fg_armed s) = (\<lambda>d. (fg_gen s, d)) ` ds \<and> ds \<subseteq> {15} \<union> {60..}" by blast
  have a: "{k. current s k} = set_option (fg_timer s)" using chain_invD(1) [OF inv] by auto
  have b: "dom (fg_armed s) \<subseteq> set_option (fg_timer s)" using chain_invD(2) [OF inv] by fastforce
  from a b x show ?thesis by blast
qed

section \<open>One fix\<close>

lemma deliver_cases:
  "deliver off rs s = s' \<Longrightarrow> qml_event s' \<Longrightarrow>
     qml_event s \<and> qml_result s' = qml_result s
     \<or> (\<exists>n ok data t f. (n, ok, data, t) \<in> set rs \<and> reported_fix off ok data t = Inr f \<and> qml_result s' = Some (n, f))"
proof (induction rs arbitrary: s)
  case (Cons r rs)
  obtain n ok data t where r: "r = (n, ok, data, t)" by (cases r)
  let ?s = "snd (qml_fix_result off r s)"
  have "deliver off rs ?s = s'" using Cons.prems(1) by (simp add: deliver_def)
  from Cons.IH [OF this Cons.prems(2)] consider
      "qml_event ?s" "qml_result s' = qml_result ?s"
    | "\<exists>n ok data t f. (n, ok, data, t) \<in> set rs \<and> reported_fix off ok data t = Inr f \<and> qml_result s' = Some (n, f)"
    by blast
  then show ?case
  proof cases
    case 1
    then show ?thesis using r
      by (cases "reported_fix off ok data t") (auto simp: qml_fix_result_def)
  next
    case 2
    then show ?thesis by (meson list.set_intros(2))
  qed
qed (auto simp: deliver_def)

lemma deliver_other [simp]:
  "gui (deliver off rs s) = gui s" "qml_seq (deliver off rs s) = qml_seq s"
proof -
  have q: "gui (snd (qml_fix_result off r t)) = gui t" "qml_seq (snd (qml_fix_result off r t)) = qml_seq t" for r t
    by (auto simp: qml_fix_result_def split: prod.split sum.split)
  show "gui (deliver off rs s) = gui s" "qml_seq (deliver off rs s) = qml_seq s"
    unfolding deliver_def by (induction rs arbitrary: s) (simp_all add: q)
qed

lemma reported_ok: "reported_fix off ok data t = Inr f \<Longrightarrow> qf_success f \<longleftrightarrow> ok"
  by (auto simp: reported_fix_def failed_fix_def split: if_splits qml_data.splits)


definition sample_report :: qml_report where
  "sample_report = (1, True, Dict ''{...}'' [''lat'' \<mapsto> PFloat (97 / 2) ''48.5'', ''lon'' \<mapsto> PFloat 11 ''11.0''], 5)"

definition sample_fix :: "QmlFix \<times> app" where
  "sample_fix = qml_fix True 90 0 0 [(0, True, Dict [] Map.empty, 3), sample_report] (new_app empty_db)"

lemma sample_fix_success: "qf_success (fst sample_fix)"
  by (simp add: sample_fix_def qml_fix_def sample_report_def new_app_def new_ui_def on_gui_def emit_def deliver_def
      qml_fix_result_def reported_fix_def Let_def)


section \<open>A fix that was taken\<close>

lemma own_device_gps: "own_device_id draws now db = (r, db') \<Longrightarrow> gps_t db' = gps_t db \<and> gps_seq db' = gps_seq db"
  by (auto simp: own_device_id_def ensure_own_device_def insert_device_def write_devices_def split: option.splits sum.splits if_splits)

lemma latest_request [simp]: "get_latest (request_location_publish now db) own = get_latest db own"
  by (simp add: get_latest_def request_location_publish_def runtime_set_def runtime_upsert_def)

lemma db_published:
  "ui_db (publish_own_location penv now own p s) \<in> {ui_db s, request_location_publish now (ui_db s)}"
  by (auto simp: publish_own_location_def Let_def split: option.split prod.split)


lemma publish_own_cases:
  "publish_own_location penv now own p s = s' \<Longrightarrow> get_bool (ui_db s) MQTT_ENABLED \<Longrightarrow> setting_filled (ui_db s) MQTT_SERVER \<Longrightarrow>
     (pending_location s' = None \<and> ui_db s' = ui_db s
        \<and> (\<exists>m. ui_mqtt s = Some m \<and> fst (publish_location penv own (json_dumps p) True m)))
     \<or> (pending_location s' = Some (own, p)
        \<and> ui_db s' = (if get_bool (ui_db s) AUTO_ENABLE_MOBILE_DATA \<and> daemon_status (ui_db s) ''cmd'' now \<noteq> ''not_installed_or_stopped''
             then request_location_publish now (ui_db s) else ui_db s))"
  by (auto simp: publish_own_location_def Let_def split: option.splits prod.splits if_splits)

lemma settings_request [simp]: "settings_t (request_location_publish now db) = settings_t db"
    "settings_t (request_location_enable now db) = settings_t db" "gps_t (request_location_enable now db) = gps_t db"
    "gps_seq (request_location_enable now db) = gps_seq db"
  by (simp_all add: request_location_publish_def request_location_enable_def runtime_set_def runtime_upsert_def)

lemma setting_cong:
  assumes "settings_t db = settings_t db'"
  shows "get_bool db k = get_bool db' k" "setting_filled db k = setting_filled db' k"
  using assms by (simp_all add: get_bool_def setting_filled_def settings_get_def settings_lookup_def)

lemma daemon_status_request [simp]: "daemon_status (request_location_publish now db) d t = daemon_status db d t"
proof -
  have k: "PUBLISH_REQUEST_KEY \<notin> {beat_key d, state_key d, version_key d, applied_key d}"
    by (auto simp: heartbeat_key_eqs)
  have "runtime_t (request_location_publish now db) |` {beat_key d, state_key d, version_key d, applied_key d}
      = runtime_t db |` {beat_key d, state_key d, version_key d, applied_key d}"
    using k by (auto simp: request_location_publish_def runtime_set_def runtime_upsert_def restrict_map_def fun_eq_iff)
  moreover have "generation (request_location_publish now db) = generation db"
    by (simp add: generation_def request_location_publish_def)
  ultimately show ?thesis by (simp add: daemon_status_def read_heartbeat_def)
qed

text \<open>What becomes of a fix that is to be published.\<close>

definition on_its_way :: "publish_env \<Rightarrow> time \<Rightarrow> string \<Rightarrow> GpsDaemon.payload \<Rightarrow> mqtt option \<Rightarrow> ui \<Rightarrow> bool" where
  "on_its_way penv now own p m s \<longleftrightarrow>
     pending_location s = None \<and> (\<exists>c. m = Some c \<and> fst (publish_location penv own (json_dumps p) True c))
     \<or> pending_location s = Some (own, p) \<and>
        (get_bool (ui_db s) AUTO_ENABLE_MOBILE_DATA \<and> daemon_status (ui_db s) ''cmd'' now \<noteq> ''not_installed_or_stopped''
          \<longrightarrow> runtime_get (ui_db s) PUBLISH_REQUEST_KEY None = Some (dec_int \<lfloor>now\<rfloor>))"

lemma request_recorded: "runtime_get (request_location_publish now db) PUBLISH_REQUEST_KEY None = Some (dec_int \<lfloor>now\<rfloor>)"
  by (simp add: request_location_publish_def)

lemma publish_own_on_its_way:
  assumes "get_bool (ui_db s) MQTT_ENABLED" "setting_filled (ui_db s) MQTT_SERVER"
  shows "on_its_way penv now own p (ui_mqtt s) (publish_own_location penv now own p s)"
  using publish_own_cases [OF refl assms, of penv now own p]
proof (elim disjE conjE)
  let ?auto = "get_bool (ui_db s) AUTO_ENABLE_MOBILE_DATA \<and> daemon_status (ui_db s) ''cmd'' now \<noteq> ''not_installed_or_stopped''"
  assume "pending_location (publish_own_location penv now own p s) = Some (own, p)"
    "ui_db (publish_own_location penv now own p s) = (if ?auto then request_location_publish now (ui_db s) else ui_db s)"
  then show ?thesis by (cases ?auto) (auto simp: on_its_way_def request_recorded)
qed (simp add: on_its_way_def)

lemma on_its_way_cong:
  "ui_db s = ui_db s' \<Longrightarrow> pending_location s = pending_location s' \<Longrightarrow> on_its_way penv now own p m s = on_its_way penv now own p m s'"
  by (simp add: on_its_way_def)

lemma finish_fix_ok:
  assumes inv: "gps_inv (app_db s)" and f: "finish_fix env nt nf own f s = (Inr (True, e), s')"
  shows "\<exists>g. get_latest (app_db s') own = Some g \<and> g_lat g = qf_lat f \<and> g_lon g = qf_lon f \<and> g_ts_utc g = PStr (qf_utc f)
    \<and> (get_bool (app_db s') MQTT_ENABLED \<and> setting_filled (app_db s') MQTT_SERVER \<longrightarrow>
         on_its_way (fe_publish env) (fe_now env) own (row_payload own g) (ui_mqtt (gui s)) (gui s'))"
proof -
  let ?b = "opt_py PInt (read_battery_level (fe_battery env))"
  obtain r db where st: "store_fix own (PStr (qf_utc f)) (PStr (qf_local f)) (qf_lat f) (qf_lon f) (qf_alt f) (qf_speed f)
               (qf_accuracy f) ?b True (app_db s) = (r, db)" by fastforce
  obtain n where r: "r = Inr n" using f st by (cases r) (auto simp: finish_fix_def Let_def split: if_splits)
  let ?u = "(gui s)\<lparr>ui_db := db\<rparr>"
  let ?p = "fix_payload own f ?b"
  let ?v = "publish_own_location (fe_publish env) (fe_now env) own ?p ?u"
  have v: "app_db s' = ui_db ?v" "pending_location (gui s') = pending_location ?v"
    using f st r by (auto simp: finish_fix_def Let_def on_gui_def emit_def split: if_splits)
  obtain g where g: "get_latest db own = Some g" "row_payload own g = ?p" "g_lat g = qf_lat f" "g_lon g = qf_lon f"
    "g_ts_utc g = PStr (qf_utc f)"
    using get_latest_store_fix [OF inv st [unfolded r]] by (auto simp: row_payload_def fix_payload_def)
  have db: "settings_t (ui_db ?v) = settings_t db" "get_latest (ui_db ?v) own = get_latest db own"
    using db_published [of "fe_publish env" "fe_now env" own ?p ?u] by auto
  have "on_its_way (fe_publish env) (fe_now env) own ?p (ui_mqtt (gui s)) (gui s')"
    if "get_bool (app_db s') MQTT_ENABLED" "setting_filled (app_db s') MQTT_SERVER"
    using publish_own_on_its_way [of ?u "fe_publish env" "fe_now env" own ?p] that setting_cong [OF db(1)] v
      on_its_way_cong [of "gui s'" ?v] by simp
  with g db v show ?thesis by (intro exI [of _ g]) simp
qed

lemma refresh_finishes:
  assumes "do_refresh_location env nt nf s = (Inr (True, e), s')"
  shows "\<exists>own db f s1 nf'. own_device_id (fe_draws env) (iso_utc (fe_now env)) (app_db s) = (Inr (Some own), db)
    \<and> finish_fix env nt nf' own f s1 = (Inr (True, e), s') \<and> ui_mqtt (gui s1) = ui_mqtt (gui s)
    \<and> gps_t (app_db s1) = gps_t db \<and> gps_seq (app_db s1) = gps_seq db"
proof -
  have q: "gui (snd (qml_fix h t off now rs u)) = (if h then emit (RequestGpsFix (qml_seq u + 1) (t * 1000)) (gui u) else gui u)"
    for h t off now rs u
    by (simp add: qml_fix_def Let_def on_gui_def)
  have q': "ui_mqtt (gui v) = ui_mqtt (gui u) \<and> app_db v = app_db u" if "qml_fix h t off now rs u = (f, v)" for h t off now rs u f v
    using q [of h t off now rs u] that by (simp add: emit_def split: if_splits)
  obtain r db where o': "own_device_id (fe_draws env) (iso_utc (fe_now env)) (app_db s) = (r, db)" by fastforce
  obtain own where r: "r = Inr (Some own)" using assms o' by (auto simp: do_refresh_location_def Let_def split: sum.splits option.splits)
  show ?thesis
  proof (cases "fst (match db (connected_wifi db (fe_now env)))")
    case (Some c)
    with assms o' r show ?thesis
      by (auto simp: do_refresh_location_def Let_def on_gui_def intro!: exI)
  next
    case None
    let ?auto = "get_bool db AUTO_ENABLE_LOCATION" and ?loc = "location_state (fe_file env)"
    let ?s1 = "on_gui (\<lambda>u. u\<lparr>ui_db := db\<rparr>) s"
    let ?s2 = "if ?loc \<noteq> ''on'' \<and> ?auto then on_gui (\<lambda>u. u\<lparr>ui_db := request_location_enable (fe_now env) db\<rparr>) ?s1 else ?s1"
    obtain f s3 where f: "qml_fix (fe_have_qml env) 90 (fe_offset env) (fe_now env) (fe_reports env) ?s2 = (f, s3)" by fastforce
    let ?nf = "case nf of None \<Rightarrow> nt | Some b \<Rightarrow> b"
    have "finish_fix env nt ?nf own f s3 = (Inr (True, e), s')"
      using assms o' r None f by (simp add: do_refresh_location_def Let_def split: if_splits)
    moreover have "ui_mqtt (gui s3) = ui_mqtt (gui s)" "gps_t (app_db s3) = gps_t db" "gps_seq (app_db s3) = gps_seq db"
      using q' [OF f] by (auto simp: on_gui_def)
    ultimately show ?thesis using o' r by blast
  qed
qed



definition broker_db :: database where
  "broker_db = settings_set MQTT_SERVER (PStr ''broker'') (settings_set MQTT_ENABLED (PStr ''1'') first_start_db)"

definition outdoor_env :: fix_env where
  "outdoor_env = \<lparr>fe_now = 5, fe_offset = 0, fe_draws = [], fe_file = Map.empty, fe_have_qml = True, fe_reports = [sample_report],
     fe_battery = [], fe_publish = offline_env, fe_repr = (\<lambda>_. [])\<rparr>"

definition outdoor :: "(exn + bool \<times> string) \<times> app" where
  "outdoor = do_refresh_location outdoor_env False None (new_app broker_db)"


lemma broker_settings: "settings_t broker_db = [MQTT_ENABLED \<mapsto> Some ''1'', MQTT_SERVER \<mapsto> Some ''broker'']"
  by (simp add: broker_db_def settings_set_def settings_upsert_def settings_stored_def secret_keys_def first_start_frame)

lemma broker_frame: "devices_t broker_db = devices_t first_start_db" "gps_t broker_db = []" "gps_seq broker_db = 0"
  by (simp_all add: broker_db_def settings_set_def settings_upsert_def first_start_frame)

lemma broker_db_facts:
  "own_device_id draws now broker_db = (Inr (Some ''aB3dE6gH9k''), broker_db)" "gps_inv broker_db"
  "get_bool broker_db MQTT_ENABLED" "setting_filled broker_db MQTT_SERVER" "configured broker_db = None"
  by (simp_all add: own_device_id_def ensure_own_device_def own_row_def first_start_devices broker_frame gps_inv_def
      row_to_dict_def get_bool_def setting_filled_def settings_get_def settings_lookup_def broker_settings secret_keys_def
      configured_def stripped_setting_def DEFAULTS_def strip_def lstrip_def rstrip_of_def
      str_opt_def is_space_def code_def Let_def)

lemma outdoor_ok: "fst outdoor = Inr (True, [])"
  by (simp add: broker_db_facts outdoor_def do_refresh_location_def new_app_def new_ui_def outdoor_env_def match_def location_state_def
      DEFAULT_PATHS_def on_gui_def qml_fix_def deliver_def Let_def sample_report_def qml_fix_result_def reported_fix_def emit_def
      finish_fix_def store_fix_def field_def opt_py_def)


end
