(* ===== verification/UiSettings.thy ===== *)
theory UiSettings
  imports UiTracking
begin

text \<open>
  \<open>qml/utilities/api.py\<close>, fourth part: the start of the application, the settings page and the map page,
  the secrets of the own device, the ringtone picker, the state of the background service and the
  bundled package. The files the code only lists or reads are arguments.
\<close>

section \<open>Version strings\<close>

definition APP_VERSION_FALLBACK :: string where "APP_VERSION_FALLBACK = ''0.1''"
definition OSM_CONTACT :: string where "OSM_CONTACT = ''dominikh@atomicmail.io''"

definition read_version_file :: "string option \<Rightarrow> string" where
  "read_version_file file = (case file of None \<Rightarrow> [] | Some text \<Rightarrow> strip text)"

definition app_version :: "string option \<Rightarrow> string" where
  "app_version file = (let v = read_version_file file in if v = [] then APP_VERSION_FALLBACK else v)"

definition osm_user_agent :: "string option \<Rightarrow> string" where
  "osm_user_agent file = ''harbour-find-my-device/'' @ app_version file @ '' (contact: '' @ OSM_CONTACT @ '')''"

section \<open>Start\<close>

record page_env =
  pe_now :: time
  pe_draws :: "string list"
  pe_start :: start_env
  pe_version :: "string option"                    \<comment> \<open>the VERSION file\<close>
  pe_file :: "string \<Rightarrow> string option"           \<comment> \<open>the files of the location switch\<close>

record map_config =
  mc_tile_provider :: "string option"
  mc_geoapify_key :: "string option"
  mc_user_agent :: string

definition get_map_config :: "string option \<Rightarrow> database \<Rightarrow> map_config" where
  "get_map_config version db = \<lparr>mc_tile_provider = settings_get db TILE_PROVIDER None,
     mc_geoapify_key = settings_get db GEOAPIFY_KEY None, mc_user_agent = osm_user_agent version\<rparr>"

record app_info =
  ai_own_device_id :: string
  ai_own_label :: string
  ai_gps_enabled :: bool
  ai_map :: map_config
  ai_version :: string

text \<open>\<open>devices.ensure_own_device()\<close>, whose row every page then reads.\<close>

definition ensure_own :: "page_env \<Rightarrow> app \<Rightarrow> (exn + device) \<times> app" where
  "ensure_own env s =
    (case ensure_own_device (pe_draws env) (iso_utc (pe_now env)) (app_db s) of
       (r, db) \<Rightarrow>
         (case r of Inl e \<Rightarrow> Inl e | Inr None \<Rightarrow> Inl TypeError | Inr (Some d) \<Rightarrow> Inr d,
          on_gui (\<lambda>u. u\<lparr>ui_db := db\<rparr>) s))"

definition start_mqtt :: "start_env \<Rightarrow> app \<Rightarrow> (exn + unit) \<times> app" where
  "start_mqtt env s = (case start_ui_mqtt env (gui s) of (r, u) \<Rightarrow> (r, s\<lparr>gui := u\<rparr>))"

definition init_app :: "page_env \<Rightarrow> app \<Rightarrow> (exn + app_info) \<times> app" where
  "init_app env s =
    (case ensure_own env s of
       (Inl e, s1) \<Rightarrow> (Inl e, s1)
     | (Inr own, s1) \<Rightarrow>
        (case start_mqtt (pe_start env) s1 of
           (Inl e, s2) \<Rightarrow> (Inl e, s2)
         | (Inr _, s2) \<Rightarrow>
            let s3 = apply_foreground_gps (pe_now env) s2
            in (Inr \<lparr>ai_own_device_id = device_id own, ai_own_label = display_label own,
                  ai_gps_enabled = location_enabled (pe_file env), ai_map = get_map_config (pe_version env) (app_db s3),
                  ai_version = app_version (pe_version env)\<rparr>, s3)))"

section \<open>Settings page\<close>

record settings_view =
  sv_settings :: kv
  sv_own_device_id :: string
  sv_device_label :: "string option"
  sv_own_pin_set :: bool
  sv_pin :: string
  sv_totp_secret :: string
  sv_totp_uri :: string
  sv_backup_codes_unused :: nat
  sv_gps_enabled :: bool
  sv_user_agent :: string

definition get_device_pin :: "app \<Rightarrow> string \<Rightarrow> string" where
  "get_device_pin s i = or_empty (get_pin (app_db s) i)"

definition ISSUER :: string where "ISSUER = ''FindMyDevice''"

definition get_settings :: "page_env \<Rightarrow> app \<Rightarrow> (exn + settings_view) \<times> app" where
  "get_settings env s =
    (let data = get_all_public (app_db s)
     in case ensure_own env s of
       (Inl e, s1) \<Rightarrow> (Inl e, s1)
     | (Inr own, s1) \<Rightarrow>
        (case count_unused_backup_codes None (pe_draws env) (iso_utc (pe_now env)) (app_db s1) of
           (Inl e, db) \<Rightarrow> (Inl e, on_gui (\<lambda>u. u\<lparr>ui_db := db\<rparr>) s1)
         | (Inr n, db) \<Rightarrow>
            (Inr \<lparr>sv_settings = data, sv_own_device_id = device_id own, sv_device_label = device_label own,
               sv_own_pin_set = (pin own \<notin> {None, Some []}), sv_pin = or_empty (pin own),
               sv_totp_secret = or_empty (totp_secret own),
               sv_totp_uri = (if or_empty (totp_secret own) = [] then []
                              else totp_uri (or_empty (totp_secret own)) (str_opt (device_label own)) ISSUER),
               sv_backup_codes_unused = n, sv_gps_enabled = location_enabled (pe_file env),
               sv_user_agent = osm_user_agent (pe_version env)\<rparr>,
             on_gui (\<lambda>u. u\<lparr>ui_db := db\<rparr>) s1)))"

text \<open>
  The values of the page as a dictionary. A PIN or a label is a text, \<open>None\<close> or missing; \<open>pop\<close> takes both
  out before the rest is looked at.
\<close>

definition text_of :: "pyval \<Rightarrow> string option" where
  "text_of v = (if v = PNone then None else Some (if py_truthy v then py_str v else []))"

definition popped :: "(string \<times> pyval) list \<Rightarrow> string \<Rightarrow> string option" where
  "popped values k = Option.bind (map_of values k) text_of"

definition known_values :: "(string \<times> pyval) list \<Rightarrow> (string \<times> pyval) list" where
  "known_values values =
     filter (\<lambda>(k, v). k \<noteq> ''pin'' \<and> k \<noteq> ''device_label_own'' \<and> map_of DEFAULTS k \<noteq> None) values"

definition own_update :: "string \<Rightarrow> string \<Rightarrow> string option \<Rightarrow> string option \<Rightarrow> app \<Rightarrow> (exn + unit) \<times> app" where
  "own_update stamp own label p s =
    (if label = None \<and> p = None then (Inr (), s)
     else case update_device own label p stamp (app_db s) of
       (Inl e, db) \<Rightarrow> (Inl e, on_gui (\<lambda>u. u\<lparr>ui_db := db\<rparr>) s)
     | (Inr _, db) \<Rightarrow> (Inr (), on_gui (\<lambda>u. u\<lparr>ui_db := db\<rparr>) s))"

definition save_settings :: "page_env \<Rightarrow> (string \<times> pyval) list \<Rightarrow> app \<Rightarrow> (exn + bool) \<times> app" where
  "save_settings env values s =
    (let p = popped values ''pin''; label = popped values ''device_label_own''; stamp = iso_utc (pe_now env);
         s0 = on_gui (\<lambda>u. u\<lparr>ui_db := settings_set_many (known_values values) (ui_db u)\<rparr>) s
     in case ensure_own env s0 of
       (Inl e, s1) \<Rightarrow> (Inl e, s1)
     | (Inr own, s1) \<Rightarrow>
        (case own_update stamp (device_id own) None p s1 of
           (Inl e, s2) \<Rightarrow> (Inl e, s2)
         | (Inr _, s2) \<Rightarrow>
            (case own_update stamp (device_id own) label None s2 of
               (Inl e, s3) \<Rightarrow> (Inl e, s3)
             | (Inr _, s3) \<Rightarrow>
                let s4 = (case label of None \<Rightarrow> s3
                          | Some l \<Rightarrow> on_gui (\<lambda>u. u\<lparr>ui_db := settings_set DEVICE_LABEL (PStr l) (ui_db u)\<rparr>) s3)
                in (Inr True, on_gui (spawn ''_apply_settings_side_effects'' \<circ> emit DevicesUpdated) s4))))"

definition apply_settings_side_effects :: "time \<Rightarrow> start_env \<Rightarrow> app \<Rightarrow> (exn + unit) \<times> app" where
  "apply_settings_side_effects now env s =
    (let s1 = on_gui (\<lambda>u. u\<lparr>ui_db := snd (bump_generation (ui_db u))\<rparr>) s
     in case start_mqtt env s1 of
          (Inl e, s2) \<Rightarrow> (Inl e, s2)
        | (Inr _, s2) \<Rightarrow> (Inr (), apply_foreground_gps now s2))"

text \<open>The own device's secrets; \<open>raw\<close> and \<open>raws\<close> are what the random source gives.\<close>

definition rotate_totp_secret :: "page_env \<Rightarrow> string \<Rightarrow> app \<Rightarrow> (exn + string \<times> string) \<times> app" where
  "rotate_totp_secret env raw s =
    (let secret = generate_totp_secret raw
     in case set_own_totp_secret (PStr secret) (pe_draws env) (iso_utc (pe_now env)) (app_db s) of
       (Inl e, db) \<Rightarrow> (Inl e, on_gui (\<lambda>u. u\<lparr>ui_db := db\<rparr>) s)
     | (Inr _, db) \<Rightarrow>
        (case ensure_own env (on_gui (\<lambda>u. u\<lparr>ui_db := db\<rparr>) s) of
           (Inl e, s1) \<Rightarrow> (Inl e, s1)
         | (Inr own, s1) \<Rightarrow> (Inr (secret, totp_uri secret (str_opt (device_label own)) ISSUER), s1)))"

definition regenerate_backup_codes :: "page_env \<Rightarrow> string list \<Rightarrow> app \<Rightarrow> (exn + string list) \<times> app" where
  "regenerate_backup_codes env raws s =
    (case generate_backup_codes None raws (pe_draws env) (iso_utc (pe_now env)) (app_db s) of
       (r, db) \<Rightarrow> (r, on_gui (\<lambda>u. u\<lparr>ui_db := db\<rparr>) s))"

section \<open>Ringtones\<close>

definition basename :: "string \<Rightarrow> string" where
  "basename path = last (split_on (CHR ''/'') path)"

text \<open>\<open>os.path.splitext(name)[0]\<close>: up to the last dot, unless only dots come before it.\<close>

definition splitext_root :: "string \<Rightarrow> string" where
  "splitext_root name =
    (let ext = takeWhile (\<lambda>c. c \<noteq> CHR ''.'') (rev name); root = drop (length ext + 1) (rev name)
     in if CHR ''.'' \<notin> set name \<or> list_all (\<lambda>c. c = CHR ''.'') root then name else rev root)"

definition capitalize :: "string \<Rightarrow> string" where
  "capitalize s = (case s of [] \<Rightarrow> [] | c # cs \<Rightarrow> to_upper c # lower cs)"

definition tone_label :: "string \<Rightarrow> string" where
  "tone_label path =
     capitalize (strip (map (\<lambda>c. if c = CHR ''-'' \<or> c = CHR ''_'' then CHR '' '' else c) (splitext_root (basename path))))"

text \<open>\<open>found\<close> is what \<open>glob\<close> finds in the tone directory; \<open>isfile\<close> the file system's answer.\<close>

definition list_ring_tones :: "string list \<Rightarrow> (string \<Rightarrow> bool) \<Rightarrow> database \<Rightarrow> string \<times> (string \<times> string) list" where
  "list_ring_tones found isfile db =
    (let tones = map (\<lambda>p. (p, tone_label p)) (sort found);
         cur = or_empty (settings_get db RING_TONE None)
     in (cur, if cur \<noteq> [] \<and> cur \<notin> set found \<and> isfile cur then (cur, tone_label cur) # tones else tones))"

section \<open>Map page\<close>

record map_marker =
  mk_device_id :: string
  mk_label :: string
  mk_lat :: pyval
  mk_lon :: pyval
  mk_timestamp_local :: pyval
  mk_battery :: pyval
  mk_accuracy :: pyval
  mk_is_own :: int

record map_data =
  md_devices :: "map_marker list"
  md_network_online :: bool
  md_gps_available :: bool
  md_config :: map_config

definition marker_of :: "gps_row \<times> string option \<times> int \<Rightarrow> map_marker" where
  "marker_of row = (case row of (g, label, own) \<Rightarrow>
     \<lparr>mk_device_id = g_device_id g, mk_label = (if or_empty label = [] then g_device_id g else or_empty label),
      mk_lat = g_lat g, mk_lon = g_lon g,
      mk_timestamp_local = (if py_truthy (g_ts_local g) then g_ts_local g else g_ts_utc g),
      mk_battery = g_battery g, mk_accuracy = g_accuracy g, mk_is_own = own\<rparr>)"

definition map_markers :: "database \<Rightarrow> map_marker list" where
  "map_markers db = map marker_of (filter (\<lambda>row. g_lat (fst row) \<noteq> PNone \<and> g_lon (fst row) \<noteq> PNone) (get_latest_all db))"

definition get_map_data :: "page_env \<Rightarrow> app \<Rightarrow> map_data \<times> app" where
  "get_map_data env s =
    (case network_online (pe_now env) (gui s) of
       (online, u) \<Rightarrow>
         (\<lparr>md_devices = map_markers (app_db s), md_network_online = online, md_gps_available = location_enabled (pe_file env),
           md_config = get_map_config (pe_version env) (app_db s)\<rparr>, s\<lparr>gui := u\<rparr>))"

section \<open>Background service and its package\<close>

record rpm_bundle =
  rb_available :: bool
  rb_path :: string
  rb_version :: string

text \<open>
  \<open>^harbour-find-my-device-daemon-(.+?)\.[^.]+\.rpm$\<close> on a file name: the version is what is left of the
  last two dots.
\<close>

definition RPM_PREFIX :: string where "RPM_PREFIX = ''harbour-find-my-device-daemon-''"

definition rpm_version :: "string \<Rightarrow> string option" where
  "rpm_version name =
    (if \<not> starts_with name RPM_PREFIX then None
     else
      let parts = split_on (CHR ''.'') (drop (length RPM_PREFIX) name);
          v = join ''.'' (butlast (butlast parts))
      in if length parts < 3 \<or> last parts \<noteq> ''rpm'' \<or> last (butlast parts) = [] \<or> v = [] \<or> nl \<in> set v then None
         else Some v)"

text \<open>The cached answer of the first call, and the files found by that call.\<close>

definition daemon_rpm_available :: "string list \<Rightarrow> rpm_bundle option \<Rightarrow> rpm_bundle \<times> rpm_bundle option" where
  "daemon_rpm_available rpms cache =
    (case cache of
       Some b \<Rightarrow> (b, cache)
     | None \<Rightarrow>
        let b = (if rpms = [] then \<lparr>rb_available = False, rb_path = [], rb_version = []\<rparr>
                 else let path = last (sort rpms)
                      in \<lparr>rb_available = True, rb_path = path, rb_version = or_empty (rpm_version (basename path))\<rparr>)
        in (b, Some b))"

record daemon_view =
  dw_gps :: string
  dw_cmd :: string
  dw_installed :: bool
  dw_version :: "string option"
  dw_bundle :: rpm_bundle
  dw_update_available :: bool
  dw_banner_needed :: bool

definition NOT_RUNNING :: string where "NOT_RUNNING = ''not_installed_or_stopped''"

definition get_daemon_status :: "time \<Rightarrow> string list \<Rightarrow> rpm_bundle option \<Rightarrow> database \<Rightarrow> daemon_view \<times> rpm_bundle option" where
  "get_daemon_status now rpms cache db =
    (case daemon_snapshot db [''gps'', ''cmd''] now of
       [(_, hg, gps), (_, hc, cmd)] \<Rightarrow>
         let installed = (gps \<noteq> NOT_RUNNING \<or> cmd \<noteq> NOT_RUNNING);
             version = (if hb_version hg \<notin> {None, Some []} then hb_version hg else hb_version hc);
             (bundle, cache') = daemon_rpm_available rpms cache
         in (\<lparr>dw_gps = gps, dw_cmd = cmd, dw_installed = installed, dw_version = version, dw_bundle = bundle,
              dw_update_available = (installed \<and> rb_available bundle \<and> version \<notin> {None, Some []}
                                      \<and> Some (rb_version bundle) \<noteq> version),
              dw_banner_needed = (\<not> installed \<and> runtime_get db ''daemon_hint_dismissed'' None \<noteq> Some ''1'')\<rparr>, cache'))"

definition dismiss_daemon_banner :: "app \<Rightarrow> app" where
  "dismiss_daemon_banner = on_gui (\<lambda>u. u\<lparr>ui_db := runtime_set ''daemon_hint_dismissed'' (PStr ''1'') (ui_db u)\<rparr>)"

definition enable_location_now :: "time \<Rightarrow> app \<Rightarrow> app" where
  "enable_location_now now = on_gui (\<lambda>u. u\<lparr>ui_db := request_location_enable now (ui_db u)\<rparr>)"

text \<open>\<open>stage_daemon_rpm\<close>: \<open>copied\<close> is what creating the directory and copying came to, an error text or nothing.\<close>

definition stage_daemon_rpm :: "string \<Rightarrow> string option \<Rightarrow> rpm_bundle \<Rightarrow> (bool \<times> string \<times> string) \<times> string option" where
  "stage_daemon_rpm downloads copied bundle =
    (if \<not> rb_available bundle then ((False, ''no_bundled_rpm'', []), None)
     else
      let target = downloads @ ''/'' @ basename (rb_path bundle)
      in case copied of
           Some e \<Rightarrow> ((False, e, []), None)
         | None \<Rightarrow> ((True, [], ''file://'' @ target), Some target))"

section \<open>Saving\<close>

text \<open>An update that keeps ids, own flags and results is never refused.\<close>

lemma update_accepted:
  assumes inv: "devices_inv db" and f: "\<And>r. d_device_id (f r) = d_device_id r" "\<And>r. d_is_own (f r) = d_is_own r"
    "\<And>r. d_last_auth (f r) = d_last_auth r"
  shows "write_devices (update_rows p f now (devices_t db)) db = Inr (db\<lparr>devices_t := update_rows p f now (devices_t db)\<rparr>)"
proof -
  let ?ds = "update_rows p f now (devices_t db)"
  have "device_row_ok r \<Longrightarrow> device_row_ok (f r)" for r using f(1,3) by (simp add: device_row_ok_def)
  then have "devices_ok ?ds" using devices_ok_update [OF _ f(1,2)] inv by (simp add: devices_inv_def)
  moreover have "d_device_id ` set ?ds = d_device_id ` set (devices_t db)"
    using map_id_update_rows [OF f(1), of p now "devices_t db"] by (metis list.set_map)
  ultimately show ?thesis using inv by (simp add: write_devices_cases devices_inv_def backups_ok_def)
qed

lemma edit_row_keeps:
  "d_device_id (edit_row l p r) = d_device_id r" "d_is_own (edit_row l p r) = d_is_own r"
  "d_last_auth (edit_row l p r) = d_last_auth r"
  by (auto simp: edit_row_def Let_def split: option.split)

lemma own_row_device:
  assumes inv: "devices_inv db" and own: "own_row db = Some r"
  shows "device_row_of db (d_device_id r) = Some r" "q \<in> set (devices_t db) \<Longrightarrow> d_device_id q = d_device_id r \<longleftrightarrow> q = r"
proof -
  have r: "r \<in> set (devices_t db)" using own by (auto simp: own_row_def find_Some_iff)
  have d: "distinct (map d_device_id (devices_t db))" using inv by (simp add: devices_inv_def devices_ok_def)
  then show u: "q \<in> set (devices_t db) \<Longrightarrow> d_device_id q = d_device_id r \<longleftrightarrow> q = r"
    using r by (metis distinct_map inj_on_eq_iff)
  from r obtain q where q: "device_row_of db (d_device_id r) = Some q"
    by (cases "device_row_of db (d_device_id r)") (auto simp: device_row_of_def find_None_iff)
  with device_row_of_mem [OF q] d r show "device_row_of db (d_device_id r) = Some r"
    by (metis distinct_map inj_on_eq_iff)
qed

text \<open>An edit of the own device's row changes that row, and nothing else of the database.\<close>

lemma own_update_effect:
  assumes inv: "devices_inv (app_db s)" and own: "own_row (app_db s) = Some r" and id: "i = d_device_id r"
  shows "\<exists>db q. own_update stamp i l p s = (Inr (), on_gui (\<lambda>u. u\<lparr>ui_db := db\<rparr>) s) \<and> devices_inv db
    \<and> db = (app_db s)\<lparr>devices_t := devices_t db\<rparr> \<and> own_row db = Some q \<and> d_device_id q = d_device_id r
    \<and> d_pin q = d_pin (edit_row l p r) \<and> d_label q = d_label (edit_row l p r)
    \<and> filter (\<lambda>d. \<not> d_is_own d) (devices_t db) = filter (\<lambda>d. \<not> d_is_own d) (devices_t (app_db s))"
proof (cases "l = None \<and> p = None")
  case True
  have "own_update stamp i l p s = (Inr (), on_gui (\<lambda>u. u\<lparr>ui_db := app_db s\<rparr>) s)"
    using True by (simp add: own_update_def on_gui_def)
  with True inv own show ?thesis by (intro exI [of _ "app_db s"] exI [of _ r]) (simp add: edit_row_def)
next
  case False
  let ?P = "\<lambda>d. d_device_id d = d_device_id r"
  let ?ds = "update_rows ?P (edit_row l p) stamp (devices_t (app_db s))"
  let ?db = "(app_db s)\<lparr>devices_t := ?ds\<rparr>"
  have w: "write_devices ?ds (app_db s) = Inr ?db" by (rule update_accepted [OF inv edit_row_keeps])
  have e: "own_update stamp i l p s = (Inr (), on_gui (\<lambda>u. u\<lparr>ui_db := ?db\<rparr>) s)"
    using False own_row_device(1) [OF inv own] w id
    by (cases l; cases p) (simp_all add: own_update_def update_device_def commit_or_rollback_def)
  have i: "devices_inv ?db" by (rule write_update_inv [OF inv w]) simp
  have r: "r \<in> set (devices_t (app_db s))" "d_is_own r" using own by (auto simp: own_row_def find_Some_iff)
  let ?q = "(edit_row l p r)\<lparr>d_updated := Some stamp\<rparr>"
  have "?q \<in> set ?ds" using r(1) by (auto simp: set_update_rows)
  then have q: "own_row ?db = Some ?q"
    using i r(2) by (auto simp: own_row_def devices_inv_def edit_row_keeps intro: own_unique)
  have n: "filter (\<lambda>d. \<not> d_is_own d) (update_rows ?P (edit_row l p) stamp ds) = filter (\<lambda>d. \<not> d_is_own d) ds"
    if "set ds \<subseteq> set (devices_t (app_db s))" for ds
    using that own_row_device(2) [OF inv own] r(2)
    by (induction ds) (auto simp: update_rows_def edit_row_keeps)
  from e i q n show ?thesis
    by (intro exI [of _ ?db] exI [of _ ?q]) (simp add: edit_row_keeps)
qed

lemma known_settings:
  "settings_t (settings_set_many kvs db) k = (case map_of (rev kvs) k of None \<Rightarrow> settings_t db k | Some v \<Rightarrow> Some (settings_stored k v))"
proof (induction kvs arbitrary: db)
  case (Cons kv kvs)
  obtain k' v where kv: "kv = (k', v)" by (cases kv)
  have "settings_t (settings_set_many (kv # kvs) db) k = settings_t (settings_set_many kvs (settings_set k' v db)) k"
    by (simp add: kv settings_set_many_def)
  then show ?case
    using Cons.IH [of "settings_set k' v db"]
    by (auto simp: kv map_add_def settings_set_def settings_upsert_def split: option.split)
qed (simp add: settings_set_many_def)

lemma devices_many [simp]:
  "devices_t (settings_set_many kvs db) = devices_t db" "backup_t (settings_set_many kvs db) = backup_t db"
  "device_seq (settings_set_many kvs db) = device_seq db"
  unfolding settings_set_many_def by (induction kvs arbitrary: db) (auto simp: settings_set_def settings_upsert_def)

lemma devices_inv_frame:
  "devices_t db = devices_t db' \<Longrightarrow> backup_t db = backup_t db' \<Longrightarrow> device_seq db = device_seq db' \<Longrightarrow> devices_inv db = devices_inv db'"
  by (simp add: devices_inv_def)

lemma ensure_own_known:
  "own_row (app_db s) = Some r \<Longrightarrow> ensure_own env s = (Inr (row_to_dict r), s)"
  by (simp add: ensure_own_def ensure_own_device_def on_gui_def)


definition page :: page_env where
  "page = \<lparr>pe_now = 0, pe_draws = [], pe_start = \<lparr>st_draws = [], st_stamp = [], st_paho = False, st_outcome = NoPaho,
     st_subs = (\<lambda>_. SubRaises)\<rparr>, pe_version = None, pe_file = Map.empty\<rparr>"

definition typed_values :: "(string \<times> pyval) list" where
  "typed_values = [(''pin'', PStr ''1234''), (MQTT_SERVER, PStr ''broker''), (''no_such_key'', PInt 1)]"


section \<open>Markers\<close>

lemma foldl_newer_max: "h \<in> set (b # xs) \<Longrightarrow> g_id h \<le> g_id (foldl newer b xs)"
proof (induction xs arbitrary: b h)
  case (Cons x xs)
  have "g_id b \<le> g_id (newer b x)" "g_id x \<le> g_id (newer b x)" by (simp_all add: newer_def)
  moreover have "g_id (newer b x) \<le> g_id (foldl newer (newer b x) xs)" by (rule Cons.IH) simp
  moreover have "h \<in> set xs \<Longrightarrow> g_id h \<le> g_id (foldl newer (newer b x) xs)" by (rule Cons.IH) simp
  ultimately show ?case using Cons.prems by auto
qed simp

lemma newest_iff:
  assumes "distinct (map g_id gs)"
  shows "newest gs = Some g \<longleftrightarrow> g \<in> set gs \<and> (\<forall>h\<in>set gs. g_id h \<le> g_id g)"
proof (cases gs)
  case (Cons a as)
  let ?n = "foldl newer a as"
  have n: "?n \<in> set gs" "\<forall>h\<in>set gs. g_id h \<le> g_id ?n"
    using foldl_newer_mem [of a as] foldl_newer_max [of _ a as] Cons by auto
  have "g = ?n" if "g \<in> set gs" "\<forall>h\<in>set gs. g_id h \<le> g_id g"
    using that n assms by (metis distinct_map inj_on_eq_iff le_antisym)
  with n Cons show ?thesis by (auto simp: newest_def)
qed (simp add: newest_def)

lemma get_latest_iff:
  assumes "gps_inv db"
  shows "get_latest db d = Some g \<longleftrightarrow>
    g \<in> set (gps_t db) \<and> g_device_id g = d \<and> (\<forall>h\<in>set (gps_t db). g_device_id h = d \<longrightarrow> g_id h \<le> g_id g)"
proof -
  have "distinct (map g_id (filter (\<lambda>g. g_device_id g = d) (gps_t db)))"
    using assms by (simp add: gps_inv_def distinct_map_filter)
  from newest_iff [OF this, of g] show ?thesis by (auto simp: get_latest_def)
qed

text \<open>A position with the label and the own flag of its device.\<close>

definition labelled :: "database \<Rightarrow> gps_row \<Rightarrow> gps_row \<times> string option \<times> int" where
  "labelled db g = (case device_row_of db (g_device_id g) of
            None \<Rightarrow> (g, None, 0)
          | Some d \<Rightarrow> (g, d_label d, if d_is_own d then 1 else 0))"

lemma get_latest_all_labelled:
  "get_latest_all db = map (labelled db)
     (filter (\<lambda>g. list_all (\<lambda>h. g_device_id h = g_device_id g \<longrightarrow> g_id h \<le> g_id g) (gps_t db)) (gps_t db))"
  by (simp add: get_latest_all_def labelled_def)

lemma fst_labelled [simp]: "fst (labelled db g) = g"
  by (simp add: labelled_def split: option.split)

lemma marker_id [simp]: "mk_device_id (marker_of (labelled db g)) = g_device_id g"
  by (simp add: labelled_def marker_of_def split: option.split)

lemma map_markers_eq:
  assumes "gps_inv db"
  shows "map_markers db = map (marker_of \<circ> labelled db)
     (filter (\<lambda>g. get_latest db (g_device_id g) = Some g \<and> g_lat g \<noteq> PNone \<and> g_lon g \<noteq> PNone) (gps_t db))"
proof -
  let ?Q = "\<lambda>g. g_lat g \<noteq> PNone \<and> g_lon g \<noteq> PNone"
  let ?L = "\<lambda>g. list_all (\<lambda>h. g_device_id h = g_device_id g \<longrightarrow> g_id h \<le> g_id g) (gps_t db)"
  have "map_markers db = map (marker_of \<circ> labelled db) (filter ?Q (filter ?L (gps_t db)))"
    by (simp add: map_markers_def get_latest_all_labelled filter_map comp_def)
  also have "filter ?Q (filter ?L (gps_t db)) = filter (\<lambda>g. get_latest db (g_device_id g) = Some g \<and> ?Q g) (gps_t db)"
    unfolding filter_filter
  proof (rule filter_cong [OF refl])
    fix g
    assume "g \<in> set (gps_t db)"
    then have "?L g \<longleftrightarrow> get_latest db (g_device_id g) = Some g"
      unfolding get_latest_iff [OF assms] by (simp add: list_all_iff)
    then show "(?L g \<and> ?Q g) = (get_latest db (g_device_id g) = Some g \<and> ?Q g)" by simp
  qed
  finally show ?thesis .
qed


definition located_db :: database where
  "located_db = snd (store_fix ''aB3dE6gH9k'' (PStr ''t'') PNone (PInt 1) (PInt 2) PNone PNone PNone PNone True first_start_db)"


end
