(* ===== verification/QrField.thy ===== *)
theory QrField
  imports Prelude
begin

text \<open>
  \<open>qml/utilities/qrcode/base.py\<close>: the arithmetic of the error correction of a QR code, by which the
  enrolment picture is made. The tables of exponents and logarithms of GF(256), and polynomials over
  it with their product and remainder. Beside the code stand multiplication by the generator \<open>x\<close> as
  a shift with reduction, and the value of a polynomial at a power of it.
\<close>

unbundle bit_operations_syntax

section \<open>The code\<close>

definition EXP_TABLE :: "int list" where
  "EXP_TABLE =
    fold (\<lambda>i e. e[i := e ! (i - 4) XOR e ! (i - 5) XOR e ! (i - 6) XOR e ! (i - 8)]) [8..<256]
      (fold (\<lambda>i e. e[i := push_bit i 1]) [0..<8] (map int [0..<256]))"

definition LOG_TABLE :: "int list" where
  "LOG_TABLE = fold (\<lambda>i l. l[nat (EXP_TABLE ! i) := int i]) [0..<255] (map int [0..<256])"

definition glog :: "int \<Rightarrow> exn + int" where
  "glog n = (if n < 1 then Inl ValueError else if 256 \<le> n then Inl (OtherError ''IndexError'') else Inr (LOG_TABLE ! nat n))"

definition gexp :: "int \<Rightarrow> int" where
  "gexp n = EXP_TABLE ! nat (n mod 255)"

text \<open>\<open>Polynomial(num, shift)\<close>: leading zeros go, but the last coefficient stays.\<close>

definition strip_zeros :: "int list \<Rightarrow> int list" where
  "strip_zeros num = (case dropWhile (\<lambda>c. c = 0) num of [] \<Rightarrow> [last num] | cs \<Rightarrow> cs)"

definition polynomial :: "int list \<Rightarrow> nat \<Rightarrow> exn + int list" where
  "polynomial num shift = (if num = [] then Inl (OtherError ''Exception'') else Inr (strip_zeros num @ replicate shift 0))"

definition gf_mul :: "int \<Rightarrow> int \<Rightarrow> exn + int" where
  "gf_mul a b = (case glog a of Inl e \<Rightarrow> Inl e | Inr x \<Rightarrow> (case glog b of Inl e \<Rightarrow> Inl e | Inr y \<Rightarrow> Inr (gexp (x + y))))"

fun mul_row :: "nat \<Rightarrow> int \<Rightarrow> int list \<Rightarrow> int list \<Rightarrow> exn + int list" where
  "mul_row k item [] num = Inr num"
| "mul_row k item (b # bs) num =
    (case gf_mul item b of Inl e \<Rightarrow> Inl e | Inr v \<Rightarrow> mul_row (Suc k) item bs (num[k := num ! k XOR v]))"

fun mul_rows :: "nat \<Rightarrow> int list \<Rightarrow> int list \<Rightarrow> int list \<Rightarrow> exn + int list" where
  "mul_rows k [] q num = Inr num"
| "mul_rows k (a # as) q num =
    (case mul_row k a q num of Inl e \<Rightarrow> Inl e | Inr num' \<Rightarrow> mul_rows (Suc k) as q num')"

definition poly_mul :: "int list \<Rightarrow> int list \<Rightarrow> exn + int list" where
  "poly_mul p q =
    (case mul_rows 0 p q (replicate (length p + length q - 1) 0) of Inl e \<Rightarrow> Inl e | Inr num \<Rightarrow> polynomial num 0)"

text \<open>The coefficients \<open>item ^ gexp(glog(other_item) + ratio)\<close> of a zip.\<close>

fun mod_zip :: "int \<Rightarrow> int list \<Rightarrow> int list \<Rightarrow> exn + int list" where
  "mod_zip ratio (a # as) (b # bs) =
    (case glog b of Inl e \<Rightarrow> Inl e
     | Inr y \<Rightarrow> (case mod_zip ratio as bs of Inl e \<Rightarrow> Inl e | Inr cs \<Rightarrow> Inr ((a XOR gexp (y + ratio)) # cs)))"
| "mod_zip ratio as bs = Inr []"

section \<open>Multiplication by the generator\<close>

definition xtime :: "int \<Rightarrow> int" where
  "xtime a = 2 * a XOR (if bit a 7 then 285 else 0)"

abbreviation times_x :: "nat \<Rightarrow> int \<Rightarrow> int" where
  "times_x n \<equiv> xtime ^^ n"

definition is_elem :: "int \<Rightarrow> bool" where
  "is_elem a \<longleftrightarrow> 0 \<le> a \<and> a < 256"

text \<open>The powers of the generator, one after the other.\<close>

fun powers :: "nat \<Rightarrow> int \<Rightarrow> int list" where
  "powers 0 a = []"
| "powers (Suc n) a = a # powers n (xtime a)"

lemma elem_iff: "is_elem a \<longleftrightarrow> a \<in> set (0 # 1 # [2..255])"
  by (simp add: is_elem_def del: upto_rec_numeral) arith

lemma elem_all: "list_all P (0 # 1 # [2..255]) \<Longrightarrow> is_elem a \<Longrightarrow> P a"
  by (auto simp: list_all_iff elem_iff)

lemma xtime_0 [simp]: "xtime 0 = 0"
  by (simp add: xtime_def)

text \<open>The values, and a rule that unrolls a power, for the evaluation of concrete products.\<close>

lemma xtime_values:
  "xtime 1 = 2" "xtime 2 = 4" "xtime 3 = 6" "xtime 4 = 8" "xtime 5 = 10" "xtime 6 = 12"
  "xtime 7 = 14" "xtime 8 = 16" "xtime 9 = 18" "xtime 10 = 20" "xtime 11 = 22" "xtime 12 = 24"
  "xtime 13 = 26" "xtime 14 = 28" "xtime 15 = 30" "xtime 16 = 32" "xtime 17 = 34" "xtime 18 = 36"
  "xtime 19 = 38" "xtime 20 = 40" "xtime 21 = 42" "xtime 22 = 44" "xtime 23 = 46" "xtime 24 = 48"
  "xtime 25 = 50" "xtime 26 = 52" "xtime 27 = 54" "xtime 28 = 56" "xtime 29 = 58" "xtime 30 = 60"
  "xtime 31 = 62" "xtime 32 = 64" "xtime 33 = 66" "xtime 34 = 68" "xtime 35 = 70" "xtime 36 = 72"
  "xtime 37 = 74" "xtime 38 = 76" "xtime 39 = 78" "xtime 40 = 80" "xtime 41 = 82" "xtime 42 = 84"
  "xtime 43 = 86" "xtime 44 = 88" "xtime 45 = 90" "xtime 46 = 92" "xtime 47 = 94" "xtime 48 = 96"
  "xtime 49 = 98" "xtime 50 = 100" "xtime 51 = 102" "xtime 52 = 104" "xtime 53 = 106" "xtime 54 = 108"
  "xtime 55 = 110" "xtime 56 = 112" "xtime 57 = 114" "xtime 58 = 116" "xtime 59 = 118" "xtime 60 = 120"
  "xtime 61 = 122" "xtime 62 = 124" "xtime 63 = 126" "xtime 64 = 128" "xtime 65 = 130" "xtime 66 = 132"
  "xtime 67 = 134" "xtime 68 = 136" "xtime 69 = 138" "xtime 70 = 140" "xtime 71 = 142" "xtime 72 = 144"
  "xtime 73 = 146" "xtime 74 = 148" "xtime 75 = 150" "xtime 76 = 152" "xtime 77 = 154" "xtime 78 = 156"
  "xtime 79 = 158" "xtime 80 = 160" "xtime 81 = 162" "xtime 82 = 164" "xtime 83 = 166" "xtime 84 = 168"
  "xtime 85 = 170" "xtime 86 = 172" "xtime 87 = 174" "xtime 88 = 176" "xtime 89 = 178" "xtime 90 = 180"
  "xtime 91 = 182" "xtime 92 = 184" "xtime 93 = 186" "xtime 94 = 188" "xtime 95 = 190" "xtime 96 = 192"
  "xtime 97 = 194" "xtime 98 = 196" "xtime 99 = 198" "xtime 100 = 200" "xtime 101 = 202" "xtime 102 = 204"
  "xtime 103 = 206" "xtime 104 = 208" "xtime 105 = 210" "xtime 106 = 212" "xtime 107 = 214" "xtime 108 = 216"
  "xtime 109 = 218" "xtime 110 = 220" "xtime 111 = 222" "xtime 112 = 224" "xtime 113 = 226" "xtime 114 = 228"
  "xtime 115 = 230" "xtime 116 = 232" "xtime 117 = 234" "xtime 118 = 236" "xtime 119 = 238" "xtime 120 = 240"
  "xtime 121 = 242" "xtime 122 = 244" "xtime 123 = 246" "xtime 124 = 248" "xtime 125 = 250" "xtime 126 = 252"
  "xtime 127 = 254" "xtime 128 = 29" "xtime 129 = 31" "xtime 130 = 25" "xtime 131 = 27" "xtime 132 = 21"
  "xtime 133 = 23" "xtime 134 = 17" "xtime 135 = 19" "xtime 136 = 13" "xtime 137 = 15" "xtime 138 = 9"
  "xtime 139 = 11" "xtime 140 = 5" "xtime 141 = 7" "xtime 142 = 1" "xtime 143 = 3" "xtime 144 = 61"
  "xtime 145 = 63" "xtime 146 = 57" "xtime 147 = 59" "xtime 148 = 53" "xtime 149 = 55" "xtime 150 = 49"
  "xtime 151 = 51" "xtime 152 = 45" "xtime 153 = 47" "xtime 154 = 41" "xtime 155 = 43" "xtime 156 = 37"
  "xtime 157 = 39" "xtime 158 = 33" "xtime 159 = 35" "xtime 160 = 93" "xtime 161 = 95" "xtime 162 = 89"
  "xtime 163 = 91" "xtime 164 = 85" "xtime 165 = 87" "xtime 166 = 81" "xtime 167 = 83" "xtime 168 = 77"
  "xtime 169 = 79" "xtime 170 = 73" "xtime 171 = 75" "xtime 172 = 69" "xtime 173 = 71" "xtime 174 = 65"
  "xtime 175 = 67" "xtime 176 = 125" "xtime 177 = 127" "xtime 178 = 121" "xtime 179 = 123" "xtime 180 = 117"
  "xtime 181 = 119" "xtime 182 = 113" "xtime 183 = 115" "xtime 184 = 109" "xtime 185 = 111" "xtime 186 = 105"
  "xtime 187 = 107" "xtime 188 = 101" "xtime 189 = 103" "xtime 190 = 97" "xtime 191 = 99" "xtime 192 = 157"
  "xtime 193 = 159" "xtime 194 = 153" "xtime 195 = 155" "xtime 196 = 149" "xtime 197 = 151" "xtime 198 = 145"
  "xtime 199 = 147" "xtime 200 = 141" "xtime 201 = 143" "xtime 202 = 137" "xtime 203 = 139" "xtime 204 = 133"
  "xtime 205 = 135" "xtime 206 = 129" "xtime 207 = 131" "xtime 208 = 189" "xtime 209 = 191" "xtime 210 = 185"
  "xtime 211 = 187" "xtime 212 = 181" "xtime 213 = 183" "xtime 214 = 177" "xtime 215 = 179" "xtime 216 = 173"
  "xtime 217 = 175" "xtime 218 = 169" "xtime 219 = 171" "xtime 220 = 165" "xtime 221 = 167" "xtime 222 = 161"
  "xtime 223 = 163" "xtime 224 = 221" "xtime 225 = 223" "xtime 226 = 217" "xtime 227 = 219" "xtime 228 = 213"
  "xtime 229 = 215" "xtime 230 = 209" "xtime 231 = 211" "xtime 232 = 205" "xtime 233 = 207" "xtime 234 = 201"
  "xtime 235 = 203" "xtime 236 = 197" "xtime 237 = 199" "xtime 238 = 193" "xtime 239 = 195" "xtime 240 = 253"
  "xtime 241 = 255" "xtime 242 = 249" "xtime 243 = 251" "xtime 244 = 245" "xtime 245 = 247" "xtime 246 = 241"
  "xtime 247 = 243" "xtime 248 = 237" "xtime 249 = 239" "xtime 250 = 233" "xtime 251 = 235" "xtime 252 = 229"
  "xtime 253 = 231" "xtime 254 = 225" "xtime 255 = 227"
  by (simp_all add: xtime_def)

lemma times_numeral: "times_x (numeral k) a = times_x (pred_numeral k) (xtime a)"
  by (simp add: numeral_eq_Suc funpow_swap1)

lemma powers_numeral: "powers (numeral k) a = a # powers (pred_numeral k) (xtime a)"
  by (simp add: numeral_eq_Suc)

lemmas field_eval = xtime_values times_numeral powers_numeral

lemma xtime_xor: "xtime (a XOR b) = xtime a XOR xtime b"
proof -
  have "2 * (a XOR b) = 2 * a XOR 2 * b" for a b :: int
    by (rule bit_eqI) (auto simp: bit_double_iff bit_xor_iff)
  then show ?thesis by (simp add: xtime_def bit_xor_iff ac_simps)
qed

lemma xtime_elem: "is_elem a \<Longrightarrow> is_elem (xtime a)"
  by (rule elem_all [where P = "\<lambda>a. is_elem (xtime a)"]) (simp_all add: field_eval is_elem_def)

lemma xtime_kernel: "is_elem a \<Longrightarrow> xtime a = 0 \<Longrightarrow> a = 0"
proof -
  have "list_all (\<lambda>a. xtime a = 0 \<longrightarrow> a = 0) (0 # 1 # [2..255])" by (simp add: field_eval)
  then show "is_elem a \<Longrightarrow> xtime a = 0 \<Longrightarrow> a = 0" using elem_all by blast
qed

lemma elem_xor: "is_elem a \<Longrightarrow> is_elem b \<Longrightarrow> is_elem (a XOR b)"
proof -
  have e: "is_elem a \<longleftrightarrow> take_bit 8 a = a" for a by (simp add: is_elem_def take_bit_int_eq_self_iff)
  show "is_elem a \<Longrightarrow> is_elem b \<Longrightarrow> is_elem (a XOR b)" by (simp add: e take_bit_xor)
qed

lemma xtime_inj: "is_elem a \<Longrightarrow> is_elem b \<Longrightarrow> xtime a = xtime b \<Longrightarrow> a = b"
proof -
  assume ab: "is_elem a" "is_elem b" "xtime a = xtime b"
  then have "xtime (a XOR b) = 0" by (simp add: xtime_xor)
  with xtime_kernel elem_xor ab have "a XOR b = 0" by blast
  then have "a XOR (a XOR b) = a" by simp
  then show "a = b" by (simp flip: xor.assoc)
qed

lemma times_elem: "is_elem a \<Longrightarrow> is_elem (times_x n a)"
  by (induction n) (simp_all add: xtime_elem)

lemma times_0 [simp]: "times_x n 0 = 0"
  by (induction n) simp_all

lemma times_xor: "times_x n (a XOR b) = times_x n a XOR times_x n b"
  by (induction n) (simp_all add: xtime_xor)

lemma times_inj: "is_elem a \<Longrightarrow> is_elem b \<Longrightarrow> times_x n a = times_x n b \<Longrightarrow> a = b"
  by (induction n) (auto dest: xtime_inj [OF times_elem times_elem])

lemma times_add: "times_x m (times_x n a) = times_x (m + n) a"
  by (simp add: funpow_add)

lemma nth_powers: "i < n \<Longrightarrow> powers n a ! i = times_x i a"
proof (induction n a arbitrary: i rule: powers.induct)
  case (2 n a)
  then show ?case by (cases i) (simp_all add: funpow_swap1)
qed simp

lemma length_powers [simp]: "length (powers n a) = n"
  by (induction n a rule: powers.induct) simp_all

text \<open>The generator has order 255.\<close>

lemma powers_256: "powers 256 1 ! 255 = 1 \<and> 1 \<notin> set (take 254 (tl (powers 256 1)))"
  by (simp add: field_eval)

lemma order_255:
  "times_x 255 1 = 1" "0 < i \<Longrightarrow> i < 255 \<Longrightarrow> times_x i 1 \<noteq> 1"
proof -
  show "times_x 255 1 = 1" using powers_256 nth_powers [of 255 256 1] by simp
  assume i: "0 < i" "i < 255"
  have "take 254 (tl (powers 256 1)) ! (i - 1) = powers 256 1 ! i"
    using i by (simp add: nth_tl)
  moreover have "take 254 (tl (powers 256 1)) ! (i - 1) \<in> set (take 254 (tl (powers 256 1)))"
    by (rule nth_mem) (use i in simp)
  ultimately show "times_x i 1 \<noteq> 1" using powers_256 nth_powers [of i 256 1] i by auto
qed

lemma elem_1 [simp]: "is_elem 1"
  by (simp add: is_elem_def)

lemma powers_distinct: "inj_on (\<lambda>n. times_x n 1) {..<255}"
proof -
  have "times_x i 1 \<noteq> times_x j 1" if "i < j" "j < 255" for i j
  proof
    assume "times_x i 1 = times_x j 1"
    also have "\<dots> = times_x i (times_x (j - i) 1)" using that(1) by (simp add: times_add)
    finally have "times_x (j - i) 1 = 1" using times_inj [OF _ times_elem] elem_1 by metis
    moreover have "0 < j - i" "j - i < 255" using that by linarith+
    ultimately show False using order_255(2) by blast
  qed
  then show ?thesis by (auto simp: inj_on_def) (metis linorder_neqE_nat)
qed

text \<open>So every element but zero is a power.\<close>

lemma powers_all: "(\<lambda>n. times_x n 1) ` {..<255} = {1..255}"
proof (rule card_subset_eq)
  have "times_x n 1 \<noteq> 0" for n using times_inj [OF elem_1, of 0 n] by (auto simp: is_elem_def)
  moreover have "t \<noteq> 0 \<Longrightarrow> is_elem t \<Longrightarrow> 1 \<le> t \<and> t \<le> 255" for t by (simp add: is_elem_def)
  ultimately have "1 \<le> times_x n 1 \<and> times_x n 1 \<le> 255" for n using times_elem [OF elem_1] by blast
  then show "(\<lambda>n. times_x n 1) ` {..<255} \<subseteq> {1..255}" by auto
  show "card ((\<lambda>n. times_x n 1) ` {..<255}) = card {1..255 :: int}"
    by (simp add: card_image powers_distinct)
qed simp

lemma times_period: "is_elem a \<Longrightarrow> times_x 255 a = a"
proof -
  assume a: "is_elem a"
  show ?thesis
  proof (cases "a = 0")
    case False
    with a have "a \<in> (\<lambda>n. times_x n 1) ` {..<255}" by (simp add: powers_all is_elem_def)
    then obtain n where "a = times_x n 1" by blast
    then show ?thesis by (metis add.commute order_255(1) times_add)
  qed simp
qed

lemma times_mod: "is_elem a \<Longrightarrow> times_x n a = times_x (n mod 255) a"
proof -
  assume a: "is_elem a"
  have "times_x (255 * k) a = a" for k
    by (induction k) (simp_all add: times_period [OF a] flip: times_add)
  then have "times_x (n mod 255) (times_x (255 * (n div 255)) a) = times_x (n mod 255) a" by simp
  then show ?thesis unfolding times_add mod_mult_div_eq .
qed

section \<open>The tables\<close>

lemma step_recurrence: "is_elem a \<Longrightarrow> times_x 8 a = times_x 4 a XOR times_x 3 a XOR times_x 2 a XOR a"
  by (rule elem_all [where P = "\<lambda>a. times_x 8 a = times_x 4 a XOR times_x 3 a XOR times_x 2 a XOR a"]) (simp_all add: field_eval)

lemma exp_small: "i < 8 \<Longrightarrow> push_bit i 1 = times_x i 1"
proof -
  have "list_all (\<lambda>i. push_bit i (1::int) = times_x i 1) [0..<8]" by code_simp
  then show "i < 8 \<Longrightarrow> push_bit i 1 = times_x i 1" by (auto simp: list_all_iff)
qed

text \<open>Both loops that fill a table front to back keep what they have filled.\<close>

lemma fold_fill:
  assumes "\<And>i e. m \<le> i \<Longrightarrow> i < k \<Longrightarrow> length e = n \<Longrightarrow> (\<And>j. j < i \<Longrightarrow> e ! j = f j) \<Longrightarrow> g i e = f i"
    and "length e = n" "k \<le> n" "\<And>j. j < m \<Longrightarrow> e ! j = f j" "m \<le> k"
  shows "length (fold (\<lambda>i e. e[i := g i e]) [m..<k] e) = n
    \<and> (\<forall>j<k. fold (\<lambda>i e. e[i := g i e]) [m..<k] e ! j = f j)"
  using assms
proof (induction "k - m" arbitrary: m e)
  case 0
  then show ?case by simp
next
  case (Suc d)
  then have m: "m < k" by simp
  let ?e = "e[m := g m e]"
  have "?e ! j = f j" if "j < Suc m" for j
    using Suc.prems(1) [of m e] Suc.prems(2-4) m that by (cases "j = m") auto
  then have "length (fold (\<lambda>i e. e[i := g i e]) [Suc m..<k] ?e) = n
    \<and> (\<forall>j<k. fold (\<lambda>i e. e[i := g i e]) [Suc m..<k] ?e ! j = f j)"
    using Suc.hyps(2) Suc.prems m by (intro Suc.hyps(1)) auto
  then show ?case using m by (simp add: upt_conv_Cons)
qed

lemma EXP_TABLE_powers: "length EXP_TABLE = 256 \<and> (\<forall>j<256. EXP_TABLE ! j = times_x j 1)"
proof -
  let ?f = "\<lambda>j. times_x j 1"
  let ?e = "fold (\<lambda>i e. e[i := push_bit i 1]) [0..<8] (map int [0..<256])"
  have b: "length (fold (\<lambda>i e. e[i := push_bit i 1]) [0..<8] (map int [0..<256])) = 256 \<and> (\<forall>j<8. ?e ! j = ?f j)"
    by (rule fold_fill [where m = 0]) (simp_all add: exp_small del: push_bit_of_1)
  show ?thesis
    unfolding EXP_TABLE_def
  proof (rule fold_fill)
    fix i :: nat and e :: "int list"
    assume i: "8 \<le> i" "i < 256" and e: "\<And>j. j < i \<Longrightarrow> e ! j = ?f j"
    have x: "?f (i - 8 + k) = times_x k (?f (i - 8))" for k by (simp add: times_add add.commute)
    have k: "i - 4 = i - 8 + 4" "i - 5 = i - 8 + 3" "i - 6 = i - 8 + 2" "i = i - 8 + 8" using i(1) by simp_all
    have "e ! (i - 4) XOR e ! (i - 5) XOR e ! (i - 6) XOR e ! (i - 8)
        = ?f (i - 4) XOR ?f (i - 5) XOR ?f (i - 6) XOR ?f (i - 8)" using i e by simp
    also have "\<dots> = times_x 4 (?f (i - 8)) XOR times_x 3 (?f (i - 8)) XOR times_x 2 (?f (i - 8)) XOR ?f (i - 8)"
      by (simp only: k(1-3) x)
    also have "\<dots> = times_x 8 (?f (i - 8))" by (rule step_recurrence [OF times_elem [OF elem_1], symmetric])
    also have "\<dots> = ?f i" using x [of 8] k(4) by simp
    finally show "e ! (i - 4) XOR e ! (i - 5) XOR e ! (i - 6) XOR e ! (i - 8) = ?f i" .
  qed (use b in auto)
qed

lemma gexp_times: "gexp n = times_x (nat (n mod 255)) 1"
proof -
  have "nat (n mod 255) < 256" using pos_mod_bound [of 255 n] by linarith
  then show ?thesis using EXP_TABLE_powers by (simp add: gexp_def)
qed

lemma gexp_elem: "is_elem (gexp n)"
  by (simp add: gexp_times times_elem)

lemma gexp_int: "gexp (int n) = times_x n 1"
proof -
  have "nat (int n mod 255) = n mod 255" by (simp add: nat_mod_distrib)
  then show ?thesis using times_mod [OF elem_1, of n] by (simp add: gexp_times)
qed

text \<open>Reading back a table that a loop filled at places that are all different.\<close>

lemma fold_scatter:
  assumes "inj_on at' {..<k}" "\<And>i. i < k \<Longrightarrow> at' i < length l"
  shows "length (fold (\<lambda>i l. l[at' i := f i]) [0..<k] l) = length l
    \<and> (\<forall>i<k. fold (\<lambda>i l. l[at' i := f i]) [0..<k] l ! at' i = f i)"
  using assms
proof (induction k)
  case (Suc k)
  let ?l = "fold (\<lambda>i l. l[at' i := f i]) [0..<k] l"
  have ih: "length ?l = length l" "\<forall>i<k. ?l ! at' i = f i"
  proof -
    have "inj_on at' {..<k}" using Suc.prems(1) by (rule inj_on_subset) auto
    then show "length ?l = length l" "\<forall>i<k. ?l ! at' i = f i" using Suc.IH Suc.prems(2) by simp_all
  qed
  have "?l[at' k := f k] ! at' i = f i" if "i < Suc k" for i
  proof (cases "i = k")
    case True
    then show ?thesis using ih(1) Suc.prems(2) [of k] by simp
  next
    case False
    then have "at' k \<noteq> at' i" using Suc.prems(1) that by (auto simp: inj_on_def)
    then show ?thesis using ih(2) that False by simp
  qed
  then show ?case using ih(1) by simp
qed simp

lemma LOG_TABLE_powers: "i < 255 \<Longrightarrow> LOG_TABLE ! nat (times_x i 1) = int i"
proof -
  have e: "EXP_TABLE ! i = times_x i 1" if "i < 255" for i using EXP_TABLE_powers that by simp
  let ?at = "\<lambda>i. nat (EXP_TABLE ! i)"
  have "inj_on ?at {..<255}"
  proof (rule inj_onI)
    fix i j :: nat
    assume ij: "i \<in> {..<255}" "j \<in> {..<255}" "?at i = ?at j"
    then have "times_x i 1 = times_x j 1"
      using e times_elem [OF elem_1, of i] times_elem [OF elem_1, of j] by (simp add: is_elem_def eq_nat_nat_iff)
    with powers_distinct ij show "i = j" by (auto simp: inj_on_def)
  qed
  moreover have "?at i < length (map int [0..<256])" if "i < 255" for i
    using e [OF that] times_elem [OF elem_1, of i] by (simp add: is_elem_def nat_less_iff)
  ultimately have "\<forall>i<255. LOG_TABLE ! ?at i = int i"
    unfolding LOG_TABLE_def using fold_scatter [of ?at 255 "map int [0..<256]" int] by blast
  then show "i < 255 \<Longrightarrow> LOG_TABLE ! nat (times_x i 1) = int i" using e by auto
qed

lemma glog_cases:
  assumes "is_elem a"
  shows "a = 0 \<and> glog a = Inl ValueError \<or> (\<exists>n<255. a = times_x n 1 \<and> glog a = Inr (int n))"
proof (cases "a = 0")
  case False
  with assms have "a \<in> (\<lambda>n. times_x n 1) ` {..<255}" by (simp add: powers_all is_elem_def)
  then obtain n where n: "n < 255" "a = times_x n 1" by blast
  then have "glog a = Inr (int n)"
    using LOG_TABLE_powers [OF n(1)] False assms by (simp add: glog_def is_elem_def)
  with n show ?thesis by blast
qed (simp add: glog_def)

lemma glog_Inr:
  assumes "glog a = Inr y" "is_elem a"
  shows "a \<noteq> 0" "gexp (y + r) = times_x (nat (r mod 255)) a" "gexp y = a"
proof -
  obtain n where n: "n < 255" "a = times_x n 1" "y = int n" using glog_cases [OF assms(2)] assms(1) by auto
  show "a \<noteq> 0" using assms(1) by (auto simp: glog_def)
  show "gexp y = a" using n by (simp add: gexp_int)
  have r: "(int n + r) mod 255 = int ((nat (r mod 255) + n) mod 255)"
    by (simp add: zmod_int mod_add_right_eq mod_add_left_eq add.commute)
  show "gexp (y + r) = times_x (nat (r mod 255)) a"
    unfolding gexp_times n(3) r nat_int using times_mod [OF elem_1, of "nat (r mod 255) + n"] n(2) times_add by simp
qed

lemma gf_mul_times: "is_elem a \<Longrightarrow> is_elem b \<Longrightarrow> gf_mul a b = Inr v \<Longrightarrow> \<exists>n. a = times_x n 1 \<and> v = times_x n b"
  using glog_cases [of a] glog_Inr(2) [of b]
  by (fastforce simp: gf_mul_def add.commute split: sum.splits)

section \<open>Polynomials\<close>

definition elems :: "int list \<Rightarrow> bool" where
  "elems p \<longleftrightarrow> list_all is_elem p"

text \<open>The value of a polynomial at the \<open>i\<close>-th power of the generator.\<close>

definition value_at :: "nat \<Rightarrow> int list \<Rightarrow> int" where
  "value_at i p = fold (\<lambda>c acc. times_x i acc XOR c) p 0"

lemma fold_value: "fold (\<lambda>c acc. times_x i acc XOR c) p a = times_x (i * length p) a XOR value_at i p"
proof (induction p arbitrary: a)
  case (Cons c p)
  have v: "value_at i (c # p) = times_x (i * length p) c XOR value_at i p"
    using Cons.IH [of c] by (simp add: value_at_def)
  have "times_x (i * length p) (times_x i a) = times_x (i * length (c # p)) a"
    by (simp add: times_add add.commute)
  then show ?case using Cons.IH [of "times_x i a XOR c"] v by (simp add: times_xor xor.assoc)
qed (simp add: value_at_def)

lemma value_append: "value_at i (p @ q) = times_x (i * length q) (value_at i p) XOR value_at i q"
  using fold_value [of i q "value_at i p"] by (simp add: value_at_def)

lemma value_Nil [simp]: "value_at i [] = 0"
  by (simp add: value_at_def)

lemma value_Cons: "value_at i (c # p) = times_x (i * length p) c XOR value_at i p"
  using value_append [of i "[c]" p] by (simp add: value_at_def)

lemma value_zeros [simp]: "value_at i (replicate n 0) = 0"
  by (induction n) (simp_all add: value_Cons)

lemma value_leading [simp]: "value_at i (replicate n 0 @ p) = value_at i p"
  by (simp add: value_append)

lemma value_xor: "length p = length q \<Longrightarrow> value_at i (map2 (XOR) p q) = value_at i p XOR value_at i q"
  by (induction p q rule: list_induct2) (simp_all add: value_Cons times_xor ac_simps)

lemma value_times: "value_at i (map (times_x k) p) = times_x k (value_at i p)"
  by (induction p) (simp_all add: value_Cons times_xor times_add add.commute)

lemma strip_zeros_Cons: "strip_zeros (c # p) = (if c = 0 \<and> p \<noteq> [] then strip_zeros p else c # p)"
  by (simp add: strip_zeros_def cong: list.case_cong)

lemma strip_zeros_shape: "p \<noteq> [] \<Longrightarrow> \<exists>n. p = replicate n 0 @ strip_zeros p"
proof (induction p)
  case (Cons c p)
  show ?case
  proof (cases "c = 0 \<and> p \<noteq> []")
    case True
    with Cons.IH obtain n where "p = replicate n 0 @ strip_zeros p" by blast
    with True have "c # p = replicate (Suc n) 0 @ strip_zeros (c # p)" by (simp add: strip_zeros_Cons)
    then show ?thesis by blast
  next
    case False
    then show ?thesis by (intro exI [of _ 0]) (auto simp: strip_zeros_Cons)
  qed
qed simp

lemma value_strip: "p \<noteq> [] \<Longrightarrow> value_at i (strip_zeros p) = value_at i p"
  using strip_zeros_shape [of p] by (metis value_leading)

text \<open>The last list of coefficients of a remainder step, one term of the divisor at a time.\<close>

lemma mod_zip_value:
  "mod_zip ratio as bs = Inr cs \<Longrightarrow> length bs \<le> length as \<Longrightarrow> elems bs \<Longrightarrow>
     length cs = length bs \<and> cs = map2 (XOR) (take (length bs) as) (map (times_x (nat (ratio mod 255))) bs)"
proof (induction ratio as bs arbitrary: cs rule: mod_zip.induct)
  case (1 ratio a as b bs)
  then show ?case using glog_Inr(2) [of b]
    by (auto simp: elems_def split: sum.splits)
qed auto

lemma mod_zip_elems: "mod_zip ratio as bs = Inr cs \<Longrightarrow> elems as \<Longrightarrow> elems cs"
  by (induction ratio as bs arbitrary: cs rule: mod_zip.induct) (auto simp: elems_def elem_xor gexp_elem split: sum.splits)

lemma mod_zip_head:
  assumes "mod_zip (x - y) (a # as) (b # bs) = Inr cs" "glog a = Inr x" "glog b = Inr y" "is_elem a"
  shows "hd cs = 0"
  using assms glog_Inr(3) [OF assms(2,4)] by (auto split: sum.splits)

section \<open>The remainder\<close>

text \<open>\<open>__mod__\<close>; a value out of the range of the tables ends it with the exception of \<open>glog\<close>.\<close>

lemma length_strip: "p \<noteq> [] \<Longrightarrow> length (strip_zeros p) \<le> length p"
  using strip_zeros_shape [of p] by (metis le_add2 length_append)

lemma strip_zeros_drop: "hd p = 0 \<Longrightarrow> tl p \<noteq> [] \<Longrightarrow> strip_zeros p = strip_zeros (tl p)"
  by (cases p) (auto simp: strip_zeros_Cons)

lemma glog_range: "glog a = Inr y \<Longrightarrow> is_elem a"
  by (auto simp: glog_def is_elem_def split: if_splits)

lemma mod_zip_length: "mod_zip ratio as bs = Inr cs \<Longrightarrow> length cs = min (length as) (length bs)"
  by (induction ratio as bs arbitrary: cs rule: mod_zip.induct) (auto split: sum.splits)

function poly_mod :: "int list \<Rightarrow> int list \<Rightarrow> exn + int list" where
  "poly_mod p q =
    (if length p < length q then Inr p
     else if p = [] \<or> q = [] then Inl (OtherError ''IndexError'')
     else case glog (hd p) of
       Inl e \<Rightarrow> Inl e
     | Inr x \<Rightarrow>
        (case glog (hd q) of
           Inl e \<Rightarrow> Inl e
         | Inr y \<Rightarrow>
            (case mod_zip (x - y) p q of
               Inl e \<Rightarrow> Inl e
             | Inr num \<Rightarrow> poly_mod (strip_zeros (num @ drop (length q) p)) q)))"
  by auto
termination
proof (relation "measure (\<lambda>(p, q). 2 * length p + (if hd p = 0 then 0 else 1))")
  fix p q :: "int list" and x y num
  assume h: "\<not> length p < length q" "\<not> (p = [] \<or> q = [])" "glog (hd p) = Inr x" "glog (hd q) = Inr y"
    "mod_zip (x - y) p q = Inr num"
  obtain a as b bs where pq: "p = a # as" "q = b # bs" using h(2) by (cases p; cases q) auto
  have a: "a \<noteq> 0" using h(3) pq by (auto simp: glog_def)
  let ?n = "num @ drop (length q) p"
  have len: "length num = length q" "length ?n = length p" using mod_zip_length [OF h(5)] h(1) by auto
  have z: "hd num = 0"
    using mod_zip_head [of x y a as b bs num] h(3-5) glog_range pq by simp
  then have hn: "hd ?n = 0" using len pq by (cases num) auto
  show "((strip_zeros ?n, q), p, q) \<in> measure (\<lambda>(p, q). 2 * length p + (if hd p = 0 then 0 else 1))"
  proof (cases "tl ?n = []")
    case True
    then obtain c where c: "?n = [c]" using len pq by (cases ?n) auto
    with hn have "strip_zeros ?n = [0]" by (simp add: strip_zeros_def)
    then show ?thesis using len a pq c by simp
  next
    case False
    have "length (strip_zeros ?n) \<le> length (tl ?n)"
      using strip_zeros_drop [OF hn False] length_strip [OF False] by simp
    then have "length (strip_zeros ?n) < length p" using len pq by (simp del: tl_append2)
    then show ?thesis using a pq by auto
  qed
qed simp

declare poly_mod.simps [simp del]

lemma elems_append [simp]: "elems (p @ q) \<longleftrightarrow> elems p \<and> elems q"
  by (simp add: elems_def)

lemma elems_drop: "elems p \<Longrightarrow> elems (drop n p)"
  by (metis append_take_drop_id elems_append)

lemma strip_elems: "p \<noteq> [] \<Longrightarrow> elems p \<Longrightarrow> elems (strip_zeros p)"
  using strip_zeros_shape [of p] by (metis elems_def list_all_append)

text \<open>
  A remainder by a polynomial without zero coefficients that vanishes at a power of the generator has
  the value of the dividend there.
\<close>

lemma poly_mod_value:
  assumes "poly_mod p q = Inr r" "elems p" "elems q" "value_at i q = 0" "q \<noteq> []"
  shows "value_at i r = value_at i p \<and> elems r \<and> length r < length q"
  using assms
proof (induction p q arbitrary: r rule: poly_mod.induct)
  case (1 p q)
  show ?case
  proof (cases "length p < length q")
    case True
    with "1.prems" show ?thesis by (simp add: poly_mod.simps)
  next
    case False
    with "1.prems" obtain x y num where
      h: "glog (hd p) = Inr x" "glog (hd q) = Inr y" "mod_zip (x - y) p q = Inr num"
        "poly_mod (strip_zeros (num @ drop (length q) p)) q = Inr r" "p \<noteq> []"
      by (auto simp: poly_mod.simps [of p q] split: if_splits sum.splits)
    let ?n = "num @ drop (length q) p" and ?k = "nat ((x - y) mod 255)"
    have num: "length num = length q" "num = map2 (XOR) (take (length q) p) (map (times_x ?k) q)"
      using mod_zip_value [OF h(3)] False "1.prems"(3) by auto
    have e: "elems ?n" using mod_zip_elems [OF h(3)] "1.prems"(2) elems_drop by simp
    have ne: "?n \<noteq> []" using num(1) "1.prems"(5) by auto
    have "value_at i num = value_at i (take (length q) p)"
      unfolding num(2) using False "1.prems"(4) by (subst value_xor) (simp_all add: value_times)
    then have v: "value_at i ?n = value_at i p"
      using value_append [of i num "drop (length q) p"] value_append [of i "take (length q) p" "drop (length q) p"] by simp
    have "value_at i r = value_at i (strip_zeros ?n) \<and> elems r \<and> length r < length q"
      using "1.IH" [OF False _ h(1,2,3,4) strip_elems [OF ne e] "1.prems"(3,4,5)] h(5) "1.prems"(5) by simp
    with v value_strip [OF ne] show ?thesis by simp
  qed
qed

text \<open>And it is not refused when the dividend starts with an element that is not zero.\<close>

lemma mod_zip_defined: "elems bs \<Longrightarrow> 0 \<notin> set bs \<Longrightarrow> \<exists>cs. mod_zip ratio as bs = Inr cs"
proof (induction ratio as bs rule: mod_zip.induct)
  case (1 ratio a as b bs)
  then obtain cs n where "mod_zip ratio as bs = Inr cs" "glog b = Inr (int n)"
    using glog_cases [of b] by (auto simp: elems_def)
  then show ?case by simp
qed auto

lemma strip_zeros_hd: "p \<noteq> [] \<Longrightarrow> hd (strip_zeros p) \<noteq> 0 \<or> strip_zeros p = [0]"
  by (induction p) (auto simp: strip_zeros_Cons)

lemma poly_mod_defined:
  assumes "elems p" "elems q" "0 \<notin> set q" "2 \<le> length q" "p \<noteq> []" "hd p \<noteq> 0 \<or> p = [0]"
  shows "\<exists>r. poly_mod p q = Inr r"
  using assms
proof (induction p q rule: poly_mod.induct)
  case (1 p q)
  show ?case
  proof (cases "length p < length q")
    case True
    then show ?thesis by (simp add: poly_mod.simps)
  next
    case False
    have q: "q \<noteq> []" "hd q \<noteq> 0" using "1.prems"(3,4) by (cases q; auto)+
    have p: "hd p \<noteq> 0" "is_elem (hd p)" "is_elem (hd q)"
      using False "1.prems" q by (cases p; cases q; auto simp: elems_def)+
    from glog_cases [OF p(2)] glog_cases [OF p(3)] p(1) q(2) obtain x y where xy: "glog (hd p) = Inr x" "glog (hd q) = Inr y"
      by auto
    obtain num where num: "mod_zip (x - y) p q = Inr num" using mod_zip_defined [OF "1.prems"(2,3)] by blast
    let ?n = "num @ drop (length q) p"
    have ne: "?n \<noteq> []" using mod_zip_length [OF num] False q(1) by auto
    have e: "elems ?n" using mod_zip_elems [OF num] "1.prems"(1) elems_drop by simp
    have s: "strip_zeros ?n \<noteq> []" using ne by (auto simp: strip_zeros_def split: list.splits)
    have "\<exists>r. poly_mod (strip_zeros ?n) q = Inr r"
      by (rule "1.IH" [OF False _ xy num strip_elems [OF ne e] "1.prems"(2,3,4) s strip_zeros_hd [OF ne]]) (use "1.prems"(5) q in auto)
    then show ?thesis using False xy num q "1.prems"(5) by (simp add: poly_mod.simps [of p q])
  qed
qed

end
