(* ===== verification/QrBlocks.thy ===== *)
theory QrBlocks
  imports QrField
begin

text \<open>
  The error correction blocks of a QR code: the tables of \<open>qrcode/LUT.py\<close> and \<open>qrcode/base.py\<close>, and
  \<open>create_bytes\<close> of \<open>qrcode/util.py\<close>, which divides the data into blocks, appends the Reed-Solomon
  remainder of each and interleaves them.
\<close>

section \<open>Tables\<close>

text \<open>Number of error correction codewords and coefficients of the generator polynomial.\<close>

definition rsPoly_LUT :: "(int \<times> int list) list" where
  "rsPoly_LUT =
    [
     (7,
       [1, 127, 122, 154, 164, 11, 68, 117]),
     (10,
       [1, 216, 194, 159, 111, 199, 94, 95, 113, 157, 193]),
     (13,
       [1, 137, 73, 227, 17, 177, 17, 52, 13, 46, 43, 83, 132, 120]),
     (15,
       [1, 29, 196, 111, 163, 112, 74, 10, 105, 105, 139, 132, 151, 32, 134, 26]),
     (16,
       [1, 59, 13, 104, 189, 68, 209, 30, 8, 163, 65, 41, 229, 98, 50, 36, 59]),
     (17,
       [1, 119, 66, 83, 120, 119, 22, 197, 83, 249, 41, 143, 134, 85, 53, 125, 99, 79]),
     (18,
       [1, 239, 251, 183, 113, 149, 175, 199, 215, 240, 220, 73, 82, 173, 75, 32, 67, 217, 146]),
     (20,
       [1, 152, 185, 240, 5, 111, 99, 6, 220, 112, 150, 69, 36, 187, 22, 228, 198, 121, 121, 165, 174]),
     (22,
       [1, 89, 179, 131, 176, 182, 244, 19, 189, 69, 40, 28, 137, 29, 123, 67, 253, 86, 218, 230, 26, 145, 245]),
     (24,
       [1, 122, 118, 169, 70, 178, 237, 216, 102, 115, 150, 229, 73, 130, 72, 61, 43, 206, 1, 237, 247, 127,
       217, 144, 117]),
     (26,
       [1, 246, 51, 183, 4, 136, 98, 199, 152, 77, 56, 206, 24, 145, 40, 209, 117, 233, 42, 135, 68, 70, 144,
       146, 77, 43, 94]),
     (28,
       [1, 252, 9, 28, 13, 18, 251, 208, 150, 103, 174, 100, 41, 167, 12, 247, 56, 117, 119, 233, 127, 181,
       100, 121, 147, 176, 74, 58, 197]),
     (30,
       [1, 212, 246, 77, 73, 195, 192, 75, 98, 5, 70, 103, 177, 22, 217, 138, 51, 181, 246, 72, 25, 18, 46,
       228, 74, 216, 195, 11, 106, 130, 150])
    ]"

definition ERROR_CORRECT_L :: int where "ERROR_CORRECT_L = 1"
definition ERROR_CORRECT_M :: int where "ERROR_CORRECT_M = 0"
definition ERROR_CORRECT_Q :: int where "ERROR_CORRECT_Q = 3"
definition ERROR_CORRECT_H :: int where "ERROR_CORRECT_H = 2"

definition RS_BLOCK_OFFSET :: "(int \<times> int) list" where
  "RS_BLOCK_OFFSET = [(ERROR_CORRECT_L, 0), (ERROR_CORRECT_M, 1), (ERROR_CORRECT_Q, 2), (ERROR_CORRECT_H, 3)]"

text \<open>One line for each version, with the levels L, M, Q and H; triples of count, total and data codewords.\<close>

definition RS_BLOCK_TABLE :: "int list list" where
  "RS_BLOCK_TABLE =
    [
     [1, 26, 19], [1, 26, 16], [1, 26, 13], [1, 26, 9],
     [1, 44, 34], [1, 44, 28], [1, 44, 22], [1, 44, 16],
     [1, 70, 55], [1, 70, 44], [2, 35, 17], [2, 35, 13],
     [1, 100, 80], [2, 50, 32], [2, 50, 24], [4, 25, 9],
     [1, 134, 108], [2, 67, 43], [2, 33, 15, 2, 34, 16], [2, 33, 11, 2, 34, 12],
     [2, 86, 68], [4, 43, 27], [4, 43, 19], [4, 43, 15],
     [2, 98, 78], [4, 49, 31], [2, 32, 14, 4, 33, 15], [4, 39, 13, 1, 40, 14],
     [2, 121, 97], [2, 60, 38, 2, 61, 39], [4, 40, 18, 2, 41, 19], [4, 40, 14, 2, 41, 15],
     [2, 146, 116], [3, 58, 36, 2, 59, 37], [4, 36, 16, 4, 37, 17], [4, 36, 12, 4, 37, 13],
     [2, 86, 68, 2, 87, 69], [4, 69, 43, 1, 70, 44], [6, 43, 19, 2, 44, 20], [6, 43, 15, 2, 44, 16],
     [4, 101, 81], [1, 80, 50, 4, 81, 51], [4, 50, 22, 4, 51, 23], [3, 36, 12, 8, 37, 13],
     [2, 116, 92, 2, 117, 93], [6, 58, 36, 2, 59, 37], [4, 46, 20, 6, 47, 21], [7, 42, 14, 4, 43, 15],
     [4, 133, 107], [8, 59, 37, 1, 60, 38], [8, 44, 20, 4, 45, 21], [12, 33, 11, 4, 34, 12],
     [3, 145, 115, 1, 146, 116], [4, 64, 40, 5, 65, 41], [11, 36, 16, 5, 37, 17], [11, 36, 12, 5, 37, 13],
     [5, 109, 87, 1, 110, 88], [5, 65, 41, 5, 66, 42], [5, 54, 24, 7, 55, 25], [11, 36, 12, 7, 37, 13],
     [5, 122, 98, 1, 123, 99], [7, 73, 45, 3, 74, 46], [15, 43, 19, 2, 44, 20], [3, 45, 15, 13, 46, 16],
     [1, 135, 107, 5, 136, 108], [10, 74, 46, 1, 75, 47], [1, 50, 22, 15, 51, 23], [2, 42, 14, 17, 43, 15],
     [5, 150, 120, 1, 151, 121], [9, 69, 43, 4, 70, 44], [17, 50, 22, 1, 51, 23], [2, 42, 14, 19, 43, 15],
     [3, 141, 113, 4, 142, 114], [3, 70, 44, 11, 71, 45], [17, 47, 21, 4, 48, 22], [9, 39, 13, 16, 40, 14],
     [3, 135, 107, 5, 136, 108], [3, 67, 41, 13, 68, 42], [15, 54, 24, 5, 55, 25], [15, 43, 15, 10, 44, 16],
     [4, 144, 116, 4, 145, 117], [17, 68, 42], [17, 50, 22, 6, 51, 23], [19, 46, 16, 6, 47, 17],
     [2, 139, 111, 7, 140, 112], [17, 74, 46], [7, 54, 24, 16, 55, 25], [34, 37, 13],
     [4, 151, 121, 5, 152, 122], [4, 75, 47, 14, 76, 48], [11, 54, 24, 14, 55, 25], [16, 45, 15, 14, 46, 16],
     [6, 147, 117, 4, 148, 118], [6, 73, 45, 14, 74, 46], [11, 54, 24, 16, 55, 25], [30, 46, 16, 2, 47, 17],
     [8, 132, 106, 4, 133, 107], [8, 75, 47, 13, 76, 48], [7, 54, 24, 22, 55, 25], [22, 45, 15, 13, 46, 16],
     [10, 142, 114, 2, 143, 115], [19, 74, 46, 4, 75, 47], [28, 50, 22, 6, 51, 23], [33, 46, 16, 4, 47, 17],
     [8, 152, 122, 4, 153, 123], [22, 73, 45, 3, 74, 46], [8, 53, 23, 26, 54, 24], [12, 45, 15, 28, 46, 16],
     [3, 147, 117, 10, 148, 118], [3, 73, 45, 23, 74, 46], [4, 54, 24, 31, 55, 25], [11, 45, 15, 31, 46, 16],
     [7, 146, 116, 7, 147, 117], [21, 73, 45, 7, 74, 46], [1, 53, 23, 37, 54, 24], [19, 45, 15, 26, 46, 16],
     [5, 145, 115, 10, 146, 116], [19, 75, 47, 10, 76, 48], [15, 54, 24, 25, 55, 25], [23, 45, 15, 25, 46, 16],
     [13, 145, 115, 3, 146, 116], [2, 74, 46, 29, 75, 47], [42, 54, 24, 1, 55, 25], [23, 45, 15, 28, 46, 16],
     [17, 145, 115], [10, 74, 46, 23, 75, 47], [10, 54, 24, 35, 55, 25], [19, 45, 15, 35, 46, 16],
     [17, 145, 115, 1, 146, 116], [14, 74, 46, 21, 75, 47], [29, 54, 24, 19, 55, 25], [11, 45, 15, 46, 46, 16],
     [13, 145, 115, 6, 146, 116], [14, 74, 46, 23, 75, 47], [44, 54, 24, 7, 55, 25], [59, 46, 16, 1, 47, 17],
     [12, 151, 121, 7, 152, 122], [12, 75, 47, 26, 76, 48], [39, 54, 24, 14, 55, 25], [22, 45, 15, 41, 46, 16],
     [6, 151, 121, 14, 152, 122], [6, 75, 47, 34, 76, 48], [46, 54, 24, 10, 55, 25], [2, 45, 15, 64, 46, 16],
     [17, 152, 122, 4, 153, 123], [29, 74, 46, 14, 75, 47], [49, 54, 24, 10, 55, 25], [24, 45, 15, 46, 46, 16],
     [4, 152, 122, 18, 153, 123], [13, 74, 46, 32, 75, 47], [48, 54, 24, 14, 55, 25], [42, 45, 15, 32, 46, 16],
     [20, 147, 117, 4, 148, 118], [40, 75, 47, 7, 76, 48], [43, 54, 24, 22, 55, 25], [10, 45, 15, 67, 46, 16],
     [19, 148, 118, 6, 149, 119], [18, 75, 47, 31, 76, 48], [34, 54, 24, 34, 55, 25], [20, 45, 15, 61, 46, 16]
    ]"

section \<open>Blocks\<close>

text \<open>\<open>RSBlock(total_count, data_count)\<close>.\<close>

type_synonym rs_block = "int \<times> int"

fun expand_blocks :: "int list \<Rightarrow> rs_block list" where
  "expand_blocks (count # tot # data # rest) = replicate (nat count) (tot, data) @ expand_blocks rest"
| "expand_blocks _ = []"

definition rs_blocks :: "nat \<Rightarrow> int \<Rightarrow> exn + rs_block list" where
  "rs_blocks version error_correction =
    (case map_of RS_BLOCK_OFFSET error_correction of
       None \<Rightarrow> Inl (OtherError ''Exception'')
     | Some offset \<Rightarrow> Inr (expand_blocks (RS_BLOCK_TABLE ! ((version - 1) * 4 + nat offset))))"

text \<open>The product \<open>Polynomial([1]) * Polynomial([1, gexp(i)])\<close> the code falls back to.\<close>

fun rs_product :: "nat \<Rightarrow> exn + int list" where
  "rs_product 0 = polynomial [1] 0"
| "rs_product (Suc i) =
    (case rs_product i of
       Inl e \<Rightarrow> Inl e
     | Inr p \<Rightarrow> (case polynomial [1, gexp (int i)] 0 of Inl e \<Rightarrow> Inl e | Inr q \<Rightarrow> poly_mul p q))"

definition rs_poly :: "int \<Rightarrow> exn + int list" where
  "rs_poly ec_count =
    (case map_of rsPoly_LUT ec_count of Some num \<Rightarrow> polynomial num 0 | None \<Rightarrow> rs_product (nat ec_count))"

definition remainder_codewords :: "nat \<Rightarrow> int list \<Rightarrow> int list" where
  "remainder_codewords ec_count p =
    map (\<lambda>i. let k = int i + (int (length p) - int ec_count) in if 0 \<le> k then p ! nat k else 0) [0..<ec_count]"

definition block_codewords :: "int list \<Rightarrow> nat \<Rightarrow> rs_block \<Rightarrow> exn + int list \<times> int list" where
  "block_codewords buf offset block =
    (case block of (tot, data) \<Rightarrow>
       let dc_count = nat data; ec_count = nat (tot - data)
       in if length buf < offset + dc_count then Inl (OtherError ''IndexError'')
          else
           let dc = map (\<lambda>i. 255 AND buf ! (i + offset)) [0..<dc_count]
           in case rs_poly (tot - data) of
                Inl e \<Rightarrow> Inl e
              | Inr q \<Rightarrow>
                 (case polynomial dc (length q - 1) of
                    Inl e \<Rightarrow> Inl e
                  | Inr p \<Rightarrow>
                     (case poly_mod p q of
                        Inl e \<Rightarrow> Inl e
                      | Inr r \<Rightarrow> Inr (dc, remainder_codewords ec_count r))))"

fun all_codewords :: "int list \<Rightarrow> nat \<Rightarrow> rs_block list \<Rightarrow> exn + (int list \<times> int list) list" where
  "all_codewords buf offset [] = Inr []"
| "all_codewords buf offset (b # bs) =
    (case block_codewords buf offset b of
       Inl e \<Rightarrow> Inl e
     | Inr x \<Rightarrow> (case all_codewords buf (offset + nat (snd b)) bs of Inl e \<Rightarrow> Inl e | Inr xs \<Rightarrow> Inr (x # xs)))"

text \<open>The \<open>i\<close>-th codewords of all blocks that have one, for every \<open>i\<close>.\<close>

definition interleave :: "int list list \<Rightarrow> int list" where
  "interleave bs =
    concat (map (\<lambda>i. concat (map (\<lambda>b. if i < length b then [b ! i] else []) bs))
      [0..<fold (\<lambda>b m. max m (length b)) bs 0])"

definition create_bytes :: "int list \<Rightarrow> rs_block list \<Rightarrow> exn + int list" where
  "create_bytes buf blocks =
    (case all_codewords buf 0 blocks of
       Inl e \<Rightarrow> Inl e
     | Inr cws \<Rightarrow> Inr (interleave (map fst cws) @ interleave (map snd cws)))"

section \<open>The generator polynomials\<close>

text \<open>A product with \<open>x\<close> plus the \<open>k\<close>-th power of the generator of the field, and the products of the first ones.\<close>

definition linear_step :: "nat \<Rightarrow> int list \<Rightarrow> int list" where
  "linear_step k g = map2 (XOR) (g @ [0]) (0 # map (times_x k) g)"

fun generator :: "nat \<Rightarrow> int list" where
  "generator 0 = [1]"
| "generator (Suc k) = linear_step k (generator k)"

lemma length_generator [simp]: "length (generator k) = Suc k"
  by (induction k) (simp_all add: linear_step_def)

lemma generator_nonempty [simp]: "generator k \<noteq> []"
  by (metis length_generator list.size(3) nat.distinct(1))

lemma elems_map2: "elems p \<Longrightarrow> elems q \<Longrightarrow> elems (map2 (XOR) p q)"
  by (induction p q rule: list_induct2') (auto simp: elems_def elem_xor)

lemma elems_generator: "elems (generator k)"
proof (induction k)
  case (Suc k)
  have "elems (map (times_x k) (generator k))" using Suc by (simp add: elems_def list_all_iff times_elem)
  then have "elems (generator k @ [0])" "elems (0 # map (times_x k) (generator k))"
    using Suc by (simp_all add: elems_def is_elem_def)
  then show ?case by (simp add: linear_step_def elems_map2)
qed (simp add: elems_def)

text \<open>It vanishes at the first powers of the generator of the field.\<close>

lemma value_generator: "i < k \<Longrightarrow> value_at i (generator k) = 0"
proof (induction k)
  case (Suc k)
  have "value_at i (generator (Suc k)) = times_x i (value_at i (generator k)) XOR times_x k (value_at i (generator k))"
    using value_append [of i "generator k" "[0]"]
    by (simp add: linear_step_def value_xor value_Cons value_times)
  with Suc show ?case by (cases "i = k") auto
qed simp

lemma generator_numeral: "generator (numeral k) = linear_step (pred_numeral k) (generator (pred_numeral k))"
  by (simp add: numeral_eq_Suc)

text \<open>The table holds exactly these polynomials.\<close>

lemma LUT_generators: "list_all (\<lambda>(k, p). 2 \<le> k \<and> generator (nat k) = p \<and> 0 \<notin> set p) rsPoly_LUT"
  by (simp add: rsPoly_LUT_def generator_numeral linear_step_def field_eval)

lemma LUT_entry:
  assumes "map_of rsPoly_LUT k = Some p"
  shows "2 \<le> k" "p = generator (nat k)" "0 \<notin> set p" "rs_poly k = Inr p"
proof -
  from assms have "(k, p) \<in> set rsPoly_LUT" by (rule map_of_SomeD)
  with LUT_generators have e: "2 \<le> k \<and> generator (nat k) = p \<and> 0 \<notin> set p" by (auto simp: list_all_iff)
  then show "2 \<le> k" "p = generator (nat k)" "0 \<notin> set p" by auto
  from e have "p \<noteq> []" by (metis length_generator list.size(3) nat.distinct(1))
  with e have "strip_zeros p = p" by (cases p) (auto simp: strip_zeros_Cons)
  with assms \<open>p \<noteq> []\<close> show "rs_poly k = Inr p" by (simp add: rs_poly_def polynomial_def)
qed

text \<open>Every block of the other table has data, and its number of error correction codewords is a key.\<close>

definition table_block :: "rs_block \<Rightarrow> bool" where
  "table_block b \<longleftrightarrow> 1 \<le> snd b \<and> snd b \<le> fst b \<and> fst b - snd b \<in> set (map fst rsPoly_LUT)"

fun row_ok :: "int list \<Rightarrow> bool" where
  "row_ok (count # tot # data # rest) \<longleftrightarrow>
     1 \<le> data \<and> data \<le> tot \<and> tot - data \<in> {7, 10, 13, 15, 16, 17, 18, 20, 22, 24, 26, 28, 30} \<and> row_ok rest"
| "row_ok _ \<longleftrightarrow> True"

lemma LUT_keys: "set (map fst rsPoly_LUT) = {7, 10, 13, 15, 16, 17, 18, 20, 22, 24, 26, 28, 30}"
  by (simp add: rsPoly_LUT_def)

lemma row_ok_blocks: "row_ok row \<Longrightarrow> list_all table_block (expand_blocks row)"
proof (induction row rule: expand_blocks.induct)
  case (1 count tot data rest)
  then have "table_block (tot, data)" unfolding table_block_def LUT_keys by simp
  with 1 show ?case by (simp add: list_all_iff ball_Un set_replicate_conv_if)
qed simp_all

lemma table_rows: "list_all row_ok RS_BLOCK_TABLE" "length RS_BLOCK_TABLE = 160"
  by (simp_all add: RS_BLOCK_TABLE_def)

lemma rs_blocks_table:
  assumes "rs_blocks version error_correction = Inr blocks" "1 \<le> version" "version \<le> 40"
  shows "list_all table_block blocks"
proof -
  obtain off where o': "map_of RS_BLOCK_OFFSET error_correction = Some off"
    and b: "blocks = expand_blocks (RS_BLOCK_TABLE ! ((version - 1) * 4 + nat off))"
    using assms(1) by (auto simp: rs_blocks_def split: option.splits)
  have "nat off < 4" using map_of_SomeD [OF o'] by (auto simp: RS_BLOCK_OFFSET_def)
  then have "(version - 1) * 4 + nat off < 160" using assms(2,3) by linarith
  then have "row_ok (RS_BLOCK_TABLE ! ((version - 1) * 4 + nat off))"
    using table_rows by (simp add: list_all_length)
  then show ?thesis unfolding b by (rule row_ok_blocks)
qed

section \<open>What a block's codewords are\<close>

lemma remainder_padded:
  assumes "length r \<le> n"
  shows "remainder_codewords n r = replicate (n - length r) 0 @ r"
proof (rule nth_equalityI)
  show "length (remainder_codewords n r) = length (replicate (n - length r) 0 @ r)"
    using assms by (simp add: remainder_codewords_def)
  fix i
  assume "i < length (remainder_codewords n r)"
  then have i: "i < n" by (simp add: remainder_codewords_def)
  show "remainder_codewords n r ! i = (replicate (n - length r) 0 @ r) ! i"
  proof (cases "i < n - length r")
    case False
    then have "nat (int i + (int (length r) - int n)) = i - (n - length r)" using assms i by linarith
    moreover have "0 \<le> int i + (int (length r) - int n)" using False assms by linarith
    ultimately show ?thesis using False i assms by (simp add: remainder_codewords_def nth_append Let_def)
  qed (use i assms in \<open>auto simp: remainder_codewords_def nth_append Let_def\<close>)
qed

lemma strip_zero_block: "list_all (\<lambda>c. c = 0) p \<Longrightarrow> p \<noteq> [] \<Longrightarrow> strip_zeros p = [0]"
  by (induction p) (auto simp: strip_zeros_Cons)

lemma strip_nonzero: "\<not> list_all (\<lambda>c. c = 0) p \<Longrightarrow> strip_zeros p \<noteq> [] \<and> hd (strip_zeros p) \<noteq> 0"
  by (induction p) (auto simp: strip_zeros_Cons)

lemma value_shift: "value_at i (p @ replicate n 0) = times_x (i * n) (value_at i p)"
  by (simp add: value_append)

lemma times_value_xor_self [simp]: "(a :: int) XOR (a XOR b) = b"
  by (simp flip: xor.assoc)

lemma elem_and: "is_elem (255 AND b)"
  using AND_upper1 [of 255 b] by (simp add: is_elem_def)

lemma elems_zeros [simp]: "elems (replicate n 0)"
  by (simp add: elems_def list_all_iff is_elem_def)

lemma elems_join [simp]: "elems (p @ q) \<longleftrightarrow> elems p \<and> elems q"
  by (simp add: elems_def)

lemma block_codewords_result:
  assumes "rs_blocks version level = Inr blocks" "1 \<le> version" "version \<le> 40" "(tot, data) \<in> set blocks"
    and "offset + nat data \<le> length buf" and dc: "dc = map (\<lambda>i. 255 AND buf ! (i + offset)) [0..<nat data]"
  shows "if list_all (\<lambda>c. c = 0) dc then block_codewords buf offset (tot, data) = Inl ValueError
    else \<exists>ec. block_codewords buf offset (tot, data) = Inr (dc, ec) \<and> int (length (dc @ ec)) = tot \<and> elems (dc @ ec)
      \<and> (\<forall>i < nat (tot - data). value_at i (dc @ ec) = 0)"
proof -
  have "table_block (tot, data)" using rs_blocks_table [OF assms(1-3)] assms(4) by (auto simp: list_all_iff)
  then have t: "1 \<le> data" "data \<le> tot" "tot - data \<in> set (map fst rsPoly_LUT)" by (simp_all add: table_block_def)
  then obtain q where q: "map_of rsPoly_LUT (tot - data) = Some q" by (cases "map_of rsPoly_LUT (tot - data)") (auto simp: map_of_eq_None_iff)
  note l = LUT_entry [OF q]
  let ?n = "nat (tot - data)"
  have lq: "length q = Suc ?n" "elems q" "2 \<le> ?n" using l(1,2) elems_generator by auto
  have d: "elems dc" "dc \<noteq> []" "length dc = nat data" using t(1) by (auto simp: dc elems_def list_all_iff elem_and)
  let ?p = "strip_zeros dc @ replicate ?n 0"
  have p: "elems ?p" using strip_elems [OF d(2,1)] by simp
  have bc: "block_codewords buf offset (tot, data) =
      (case poly_mod ?p q of Inl e \<Rightarrow> Inl e | Inr r \<Rightarrow> Inr (dc, remainder_codewords ?n r))"
    using assms(5) l(4) lq(1) d(2) by (simp add: block_codewords_def Let_def polynomial_def flip: dc)
  show ?thesis
  proof (cases "list_all (\<lambda>c. c = 0) dc")
    case True
    then have "?p = replicate (Suc ?n) 0" using strip_zero_block [OF True d(2)] by simp
    then have "poly_mod ?p q = Inl ValueError" using lq(1) by (cases q) (simp_all add: poly_mod.simps glog_def)
    with True bc show ?thesis by simp
  next
    case False
    have s: "strip_zeros dc \<noteq> []" "hd (strip_zeros dc) \<noteq> 0" using strip_nonzero [OF False] by auto
    have "q \<noteq> []" using lq(1) by force
    with s obtain r where r: "poly_mod ?p q = Inr r"
      using poly_mod_defined [OF p lq(2) l(3)] lq(1,3) by auto
    let ?ec = "remainder_codewords ?n r"
    have v: "value_at i r = value_at i ?p" "elems r" "length r \<le> ?n" if "i < ?n" for i
      using poly_mod_value [OF r p lq(2), of i] value_generator [OF that] l(2) lq(1) by auto
    have ec: "?ec = replicate (?n - length r) 0 @ r" "elems r"
      using remainder_padded [OF v(3) [of 0]] v(2) [of 0] lq(3) by auto
    have "value_at i (dc @ ?ec) = 0" if "i < ?n" for i
      using v(1) [OF that] value_append [of i dc ?ec] ec(1) v(3) [OF that] d(2)
      by (simp add: value_shift value_strip)
    moreover have "int (length (dc @ ?ec)) = tot" using ec(1) v(3) [of 0] lq(3) d(3) t by simp
    moreover have "elems (dc @ ?ec)" using d(1) ec by simp
    ultimately show ?thesis using False bc r by auto
  qed
qed

text \<open>
  C32. \<open>reed_solomon_codewords\<close>: for every block of every version and level, the data and error
  correction codewords together have the length of the table and vanish as a polynomial at as many
  successive powers of the field's generator as there are error correction codewords, so they form a
  Reed-Solomon codeword; only a block whose data is all zero is refused, by the logarithm of zero.
\<close>
theorem reed_solomon_codewords:
  assumes "rs_blocks version level = Inr blocks" "1 \<le> version" "version \<le> 40" "(tot, data) \<in> set blocks"
    and "offset + nat data \<le> length buf" and dc: "dc = map (\<lambda>i. 255 AND buf ! (i + offset)) [0..<nat data]"
  shows "if list_all (\<lambda>c. c = 0) dc then block_codewords buf offset (tot, data) = Inl ValueError
    else \<exists>ec. block_codewords buf offset (tot, data) = Inr (dc, ec) \<and> int (length (dc @ ec)) = tot \<and> elems (dc @ ec)
      \<and> (\<forall>i < nat (tot - data). value_at i (dc @ ec) = 0)"
  using assms by (rule block_codewords_result)

theorem reed_solomon_codewords_witness:
  "\<exists>ec. block_codewords (replicate 16 17) 0 (26, 16) = Inr (replicate 16 17, ec) \<and> value_at 9 (replicate 16 17 @ ec) = 0"
proof -
  have b: "rs_blocks 1 ERROR_CORRECT_M = Inr [(26, 16)]"
    by (simp add: rs_blocks_def RS_BLOCK_OFFSET_def ERROR_CORRECT_L_def ERROR_CORRECT_M_def RS_BLOCK_TABLE_def)
  have dc: "replicate 16 17 = map (\<lambda>i. 255 AND replicate 16 (17 :: int) ! (i + 0)) [0..<nat 16]"
    by (rule nth_equalityI) simp_all
  have n: "\<not> list_all (\<lambda>c. c = 0) (replicate 16 (17 :: int))" by (simp add: list_all_iff)
  from reed_solomon_codewords [OF b _ _ _ _ dc, of 26] n obtain ec
    where "block_codewords (replicate 16 17) 0 (26, 16) = Inr (replicate 16 17, ec)"
      "\<forall>i < nat (26 - 16). value_at i (replicate 16 17 @ ec) = 0"
    by auto
  then show ?thesis by (intro exI [of _ ec]) simp
qed

end
