(* ===== verification/QrStream.thy ===== *)
theory QrStream
  imports QrField
begin

text \<open>
  \<open>qml/utilities/qrcode/util.py\<close>, first part: the modes of a QR code, how a text is cut into segments,
  and the bit buffer they are written to. A string stands for the bytes of the UTF-8 text. Beside the code
  stands a reader of the bit stream, which gets the text back.
\<close>

unbundle bit_operations_syntax

section \<open>Modes\<close>

definition MODE_NUMBER :: int where "MODE_NUMBER = 1"
definition MODE_ALPHA_NUM :: int where "MODE_ALPHA_NUM = 2"
definition MODE_8BIT_BYTE :: int where "MODE_8BIT_BYTE = 4"
definition MODE_KANJI :: int where "MODE_KANJI = 8"

lemmas modes = MODE_NUMBER_def MODE_ALPHA_NUM_def MODE_8BIT_BYTE_def MODE_KANJI_def

definition MODE_SIZE_SMALL :: "(int \<times> nat) list" where
  "MODE_SIZE_SMALL = [(MODE_NUMBER, 10), (MODE_ALPHA_NUM, 9), (MODE_8BIT_BYTE, 8), (MODE_KANJI, 8)]"

definition MODE_SIZE_MEDIUM :: "(int \<times> nat) list" where
  "MODE_SIZE_MEDIUM = [(MODE_NUMBER, 12), (MODE_ALPHA_NUM, 11), (MODE_8BIT_BYTE, 16), (MODE_KANJI, 10)]"

definition MODE_SIZE_LARGE :: "(int \<times> nat) list" where
  "MODE_SIZE_LARGE = [(MODE_NUMBER, 14), (MODE_ALPHA_NUM, 13), (MODE_8BIT_BYTE, 16), (MODE_KANJI, 12)]"

lemmas mode_sizes = MODE_SIZE_SMALL_def MODE_SIZE_MEDIUM_def MODE_SIZE_LARGE_def

definition mode_sizes_for_version :: "nat \<Rightarrow> (int \<times> nat) list" where
  "mode_sizes_for_version version =
    (if version < 10 then MODE_SIZE_SMALL else if version < 27 then MODE_SIZE_MEDIUM else MODE_SIZE_LARGE)"

definition check_version :: "nat \<Rightarrow> exn + unit" where
  "check_version version = (if version < 1 \<or> 40 < version then Inl ValueError else Inr ())"

definition mode_width :: "(int \<times> nat) list \<Rightarrow> int \<Rightarrow> exn + nat" where
  "mode_width sizes mode = (case map_of sizes mode of None \<Rightarrow> Inl KeyError | Some w \<Rightarrow> Inr w)"

definition length_in_bits :: "int \<Rightarrow> nat \<Rightarrow> exn + nat" where
  "length_in_bits mode version =
    (if mode \<notin> {MODE_NUMBER, MODE_ALPHA_NUM, MODE_8BIT_BYTE, MODE_KANJI} then Inl TypeError
     else case check_version version of
       Inl e \<Rightarrow> Inl e
     | Inr _ \<Rightarrow> mode_width (mode_sizes_for_version version) mode)"

definition ALPHA_NUM :: string where
  "ALPHA_NUM = ''0123456789ABCDEFGHIJKLMNOPQRSTUVWXYZ $%*+-./:''"

definition NUMBER_LENGTH :: "(nat \<times> nat) list" where
  "NUMBER_LENGTH = [(3, 10), (2, 7), (1, 4)]"

abbreviation is_alnum :: "char \<Rightarrow> bool" where
  "is_alnum c \<equiv> c \<in> set ALPHA_NUM"

text \<open>\<open>bytes.find\<close> of one byte.\<close>

definition find_byte :: "string \<Rightarrow> char \<Rightarrow> int" where
  "find_byte s c = (let n = length (takeWhile (\<lambda>x. x \<noteq> c) s) in if n < length s then int n else - 1)"

section \<open>The bit buffer\<close>

record bit_buffer =
  bb_buffer :: "int list"
  bb_length :: nat

definition new_buffer :: bit_buffer where
  "new_buffer = \<lparr>bb_buffer = [], bb_length = 0\<rparr>"

definition buffer_get :: "bit_buffer \<Rightarrow> nat \<Rightarrow> bool" where
  "buffer_get b i \<longleftrightarrow> drop_bit (7 - i mod 8) (bb_buffer b ! (i div 8)) AND 1 = 1"

definition put_bit :: "bool \<Rightarrow> bit_buffer \<Rightarrow> bit_buffer" where
  "put_bit x b =
    (let k = bb_length b div 8;
         buf = (if length (bb_buffer b) \<le> k then bb_buffer b @ [0] else bb_buffer b);
         buf' = (if x then buf[k := buf ! k OR drop_bit (bb_length b mod 8) 128] else buf)
     in \<lparr>bb_buffer = buf', bb_length = bb_length b + 1\<rparr>)"

definition put :: "int \<Rightarrow> nat \<Rightarrow> bit_buffer \<Rightarrow> bit_buffer" where
  "put num len b = fold (\<lambda>i. put_bit (drop_bit (len - i - 1) num AND 1 = 1)) [0..<len] b"

section \<open>Segments\<close>

record qr_data =
  qd_data :: string
  qd_mode :: int

definition optimal_mode :: "string \<Rightarrow> int" where
  "optimal_mode data =
    (if data \<noteq> [] \<and> list_all is_digit data then MODE_NUMBER
     else if list_all is_alnum data then MODE_ALPHA_NUM else MODE_8BIT_BYTE)"

definition new_data :: "string \<Rightarrow> int option \<Rightarrow> bool \<Rightarrow> exn + qr_data" where
  "new_data data mode check_data =
    (case mode of
       None \<Rightarrow> Inr \<lparr>qd_data = data, qd_mode = optimal_mode data\<rparr>
     | Some m \<Rightarrow>
        (if m \<notin> {MODE_NUMBER, MODE_ALPHA_NUM, MODE_8BIT_BYTE} then Inl TypeError
         else if check_data \<and> m < optimal_mode data then Inl ValueError
         else Inr \<lparr>qd_data = data, qd_mode = m\<rparr>))"

fun write_number :: "string \<Rightarrow> bit_buffer \<Rightarrow> exn + bit_buffer" where
  "write_number [] b = Inr b"
| "write_number (c # s) b =
    (let chars = take 3 (c # s)
     in case map_of NUMBER_LENGTH (length chars) of
          None \<Rightarrow> Inl KeyError
        | Some bit_length \<Rightarrow>
           (case py_int chars of
              None \<Rightarrow> Inl ValueError
            | Some n \<Rightarrow> write_number (drop 3 (c # s)) (put n bit_length b)))"

fun write_alnum :: "string \<Rightarrow> bit_buffer \<Rightarrow> bit_buffer" where
  "write_alnum [] b = b"
| "write_alnum [c] b = put (find_byte ALPHA_NUM c) 6 b"
| "write_alnum (c # d # s) b = write_alnum s (put (find_byte ALPHA_NUM c * 45 + find_byte ALPHA_NUM d) 11 b)"

definition write_data :: "qr_data \<Rightarrow> bit_buffer \<Rightarrow> exn + bit_buffer" where
  "write_data d b =
    (if qd_mode d = MODE_NUMBER then write_number (qd_data d) b
     else if qd_mode d = MODE_ALPHA_NUM then Inr (write_alnum (qd_data d) b)
     else Inr (fold (\<lambda>c. put (int (code c)) 8) (qd_data d) b))"

section \<open>Cutting a text into segments\<close>

text \<open>
  The two forms of pattern: the whole text in the class, up to a newline at its end as \<open>$\<close> allows, and
  the leftmost longest run of at least \<open>m\<close> characters of the class. The minimum is never zero:
  \<open>add_data\<close> does not cut then.
\<close>

datatype pattern = Whole "char \<Rightarrow> bool" | Run nat "char \<Rightarrow> bool"

fun search_run :: "nat \<Rightarrow> (char \<Rightarrow> bool) \<Rightarrow> string \<Rightarrow> (nat \<times> nat) option" where
  "search_run m P [] = None"
| "search_run m P (c # s) =
    (let n = length (takeWhile P (c # s))
     in if 0 < n \<and> m \<le> n then Some (0, n)
        else map_option (\<lambda>(start, end). (Suc start, Suc end)) (search_run m P s))"

fun search :: "pattern \<Rightarrow> string \<Rightarrow> (nat \<times> nat) option" where
  "search (Whole P) s =
    (let n = length (takeWhile P s) in if 0 < n \<and> (drop n s = [] \<or> drop n s = [CHR 0x0A]) then Some (0, n) else None)"
| "search (Run m P) s = search_run m P s"

lemma search_run_bounds: "search_run m P s = Some (a, b) \<Longrightarrow> a < b \<and> b \<le> length s"
proof (induction s arbitrary: a b)
  case (Cons c s)
  show ?case
  proof (cases "0 < length (takeWhile P (c # s)) \<and> m \<le> length (takeWhile P (c # s))")
    case True
    then show ?thesis using Cons.prems length_takeWhile_le [of P "c # s"] by (simp add: Let_def split: if_splits)
  next
    case False
    then obtain a' b' where "search_run m P s = Some (a', b')" "a = Suc a'" "b = Suc b'"
      using Cons.prems by (auto simp: Let_def split: if_splits)
    then show ?thesis using Cons.IH by auto
  qed
qed simp

lemma search_bounds: "search p s = Some (a, b) \<Longrightarrow> a < b \<and> b \<le> length s"
  by (cases p) (auto simp: Let_def search_run_bounds length_takeWhile_le split: if_splits)

function optimal_split :: "pattern \<Rightarrow> string \<Rightarrow> (bool \<times> string) list" where
  "optimal_split p data =
    (if data = [] then []
     else case search p data of
       None \<Rightarrow> [(False, data)]
     | Some (start, end) \<Rightarrow>
        (if start \<noteq> 0 then [(False, take start data)] else [])
        @ (True, drop start (take end data)) # optimal_split p (drop end data))"
  by pat_completeness auto
termination
  by (relation "measure (\<lambda>(p, data). length data)") (auto dest: search_bounds)

declare optimal_split.simps [simp del]

definition chunk_patterns :: "string \<Rightarrow> nat \<Rightarrow> pattern \<times> pattern" where
  "chunk_patterns data minimum =
    (if length data \<le> minimum then (Whole is_digit, Whole is_alnum) else (Run minimum is_digit, Run minimum is_alnum))"

definition optimal_data_chunks :: "string \<Rightarrow> nat \<Rightarrow> qr_data list" where
  "optimal_data_chunks data minimum =
    (case chunk_patterns data minimum of (num, alpha) \<Rightarrow>
       concat (map (\<lambda>(is_num, chunk).
           if is_num then [\<lparr>qd_data = chunk, qd_mode = MODE_NUMBER\<rparr>]
           else map (\<lambda>(is_alpha, sub). \<lparr>qd_data = sub, qd_mode = if is_alpha then MODE_ALPHA_NUM else MODE_8BIT_BYTE\<rparr>)
                  (optimal_split alpha chunk))
         (optimal_split num data)))"

section \<open>The buffer holds the bits put into it\<close>

definition byte_bits :: "int \<Rightarrow> bool list" where
  "byte_bits x = map (\<lambda>j. bit x (7 - j)) [0..<8]"

definition num_bits :: "int \<Rightarrow> nat \<Rightarrow> bool list" where
  "num_bits num len = map (\<lambda>i. bit num (len - i - 1)) [0..<len]"

text \<open>The buffer's bytes are the bits, the rest of its last byte is zero.\<close>

definition rep :: "bit_buffer \<Rightarrow> bool list \<Rightarrow> bool" where
  "rep b bs \<longleftrightarrow> bb_length b = length bs \<and> elems (bb_buffer b) \<and> length (bb_buffer b) = (length bs + 7) div 8
    \<and> concat (map byte_bits (bb_buffer b)) = bs @ replicate (8 * length (bb_buffer b) - length bs) False"

lemma length_byte_bits [simp]: "length (byte_bits x) = 8"
  by (simp add: byte_bits_def)

lemma nth_byte_bits: "i < 8 \<Longrightarrow> byte_bits x ! i = bit x (7 - i)"
  by (simp add: byte_bits_def del: upt_rec_numeral)

lemma length_bytes [simp]: "length (concat (map byte_bits xs)) = 8 * length xs"
  by (induction xs) simp_all

lemma length_num_bits [simp]: "length (num_bits num len) = len"
  by (simp add: num_bits_def)

lemma rep_new [simp]: "rep new_buffer []"
  by (simp add: rep_def new_buffer_def elems_def)

lemma byte_bits_or: "r < 8 \<Longrightarrow> byte_bits (x OR drop_bit r 128) = (byte_bits x)[r := True]"
proof (rule nth_equalityI)
  fix i
  assume r: "r < 8" and "i < length (byte_bits (x OR drop_bit r 128))"
  then have i: "i < 8" by simp
  have "bit (2 ^ 7 :: int) n \<longleftrightarrow> n = 7" for n by (simp only: bit_exp_iff possible_bit_int) auto
  moreover have "(2 ^ 7 :: int) = 128" by simp
  ultimately have b: "bit (128 :: int) n \<longleftrightarrow> n = 7" for n by (simp only:)
  then have "bit (drop_bit r (128 :: int)) (7 - i) \<longleftrightarrow> i = r" using r i by (simp only: bit_drop_bit_eq o_apply b) arith
  then show "byte_bits (x OR drop_bit r 128) ! i = (byte_bits x)[r := True] ! i"
    using r i by (auto simp: nth_byte_bits bit_or_iff nth_list_update)
qed simp

lemma or_elem: "is_elem x \<Longrightarrow> is_elem (x OR drop_bit r 128)"
proof -
  assume x: "is_elem x"
  have "(0 :: int) \<le> drop_bit r 128" by simp
  moreover have "drop_bit r (128 :: int) \<le> 128" using zdiv_mono2 [of 128 1 "2 ^ r"] by (simp add: drop_bit_eq_div)
  ultimately show ?thesis using x OR_upper [of x 8 "drop_bit r 128"] by (simp add: is_elem_def)
qed

lemma rep_put_bit:
  assumes "rep b bs"
  shows "rep (put_bit x b) (bs @ [x])"
proof (cases "length bs mod 8 = 0")
  case True
  then obtain q where q: "length bs = 8 * q" by auto
  with assms have l: "length (bb_buffer b) = q" and c: "concat (map byte_bits (bb_buffer b)) = bs" and n: "bb_length b = 8 * q"
    by (simp_all add: rep_def)
  have "byte_bits (if x then 128 else 0) = x # replicate 7 False" by (cases x; simp only: if_True if_False; code_simp)
  moreover have "is_elem 0" "is_elem 128" by (simp_all add: is_elem_def)
  ultimately show ?thesis using assms l c n q
    by (auto simp: rep_def put_bit_def Let_def nth_append elems_def list_update_append split: if_splits)
next
  case False
  define q r where "q = length bs div 8" and "r = length bs mod 8"
  have qr: "length bs = 8 * q + r" "0 < r" "r < 8" using False by (simp_all add: q_def r_def)
  with assms have l: "length (bb_buffer b) = Suc q" by (simp add: rep_def)
  then obtain ys y where y: "bb_buffer b = ys @ [y]" "length ys = q" by (cases "bb_buffer b" rule: rev_cases) auto
  have c: "concat (map byte_bits ys) @ byte_bits y = bs @ replicate (8 - r) False" using assms y qr by (simp add: rep_def)
  have c1: "concat (map byte_bits ys) = take (8 * q) bs"
    using arg_cong [OF c, of "take (8 * q)"] y(2) qr(1) by simp
  have c2: "byte_bits y = drop (8 * q) bs @ replicate (8 - r) False"
    using arg_cong [OF c, of "drop (8 * q)"] y(2) qr(1) by simp
  have u: "byte_bits (y OR drop_bit r 128) = drop (8 * q) bs @ True # replicate (7 - r) False"
    using qr by (simp add: byte_bits_or c2 list_update_append numeral_eq_Suc Suc_diff_le)
  have f: "drop (8 * q) bs @ replicate (8 - r) False = drop (8 * q) bs @ False # replicate (7 - r) False"
    using qr by (simp add: numeral_eq_Suc Suc_diff_le)
  have "elems (bb_buffer b)" using assms by (simp add: rep_def)
  then have e: "elems ys" "is_elem y" "is_elem (y OR drop_bit r 128)" using y by (simp_all add: elems_def or_elem)
  have k: "bb_length b div 8 = q" "bb_length b mod 8 = r" "bb_length b = length bs" using assms qr by (simp_all add: rep_def)
  have "take (8 * q) bs @ drop (8 * q) bs = bs" by simp
  then have a: "take (8 * q) bs @ drop (8 * q) bs @ zs = bs @ zs" for zs by (metis append.assoc)
  have m: "(ys @ [y]) ! q = y" "(ys @ [y])[q := z] = ys @ [z]" for z by (simp_all add: nth_append list_update_append y(2))
  show ?thesis
  proof (cases x)
    case True
    then show ?thesis
      using e y k qr by (simp add: rep_def put_bit_def Let_def u c1 a m elems_def)
  next
    case False
    then show ?thesis
      using e y k qr c2 f by (simp add: rep_def put_bit_def Let_def c1 a elems_def)
  qed
qed

lemma shifted_bit: "drop_bit k (a :: int) AND 1 = 1 \<longleftrightarrow> bit a k"
  by (simp add: and_one_eq bit_iff_odd_drop_bit odd_iff_mod_2_eq_one)

text \<open>The reader's access sees the bits.\<close>

lemma rep_get:
  assumes "rep b bs" "i < length bs"
  shows "buffer_get b i = bs ! i"
proof -
  have nth: "i < 8 * length xs \<Longrightarrow> concat (map byte_bits xs) ! i = bit (xs ! (i div 8)) (7 - i mod 8)" for xs i
  proof (induction xs arbitrary: i)
    case (Cons x xs)
    show ?case
    proof (cases "i < 8")
      case False
      with Cons have "concat (map byte_bits xs) ! (i - 8) = bit (xs ! ((i - 8) div 8)) (7 - (i - 8) mod 8)" by simp
      then show ?thesis using False by (simp add: nth_append le_div_geq le_mod_geq)
    qed (simp add: nth_append nth_byte_bits)
  qed simp
  have "bs ! i = concat (map byte_bits (bb_buffer b)) ! i" using assms by (simp add: rep_def nth_append)
  also have "\<dots> = buffer_get b i" using assms by (subst nth) (auto simp: rep_def buffer_get_def shifted_bit)
  finally show ?thesis by simp
qed

lemma rep_put: "rep b bs \<Longrightarrow> rep (put num len b) (bs @ num_bits num len)"
proof -
  assume b: "rep b bs"
  have "rep (fold (\<lambda>i. put_bit (bit num (len - i - 1))) [0..<k] b) (bs @ map (\<lambda>i. bit num (len - i - 1)) [0..<k])" for k
    by (induction k) (use b rep_put_bit in \<open>simp_all flip: append_assoc\<close>)
  then show ?thesis by (simp add: put_def num_bits_def shifted_bit)
qed

section \<open>What the segments of a text are\<close>

fun class_of :: "pattern \<Rightarrow> char \<Rightarrow> bool" where
  "class_of (Whole P) = P"
| "class_of (Run m P) = P"

lemma search_run_class: "search_run m P s = Some (a, b) \<Longrightarrow> list_all P (drop a (take b s))"
proof (induction s arbitrary: a b)
  case (Cons c s)
  show ?case
  proof (cases "0 < length (takeWhile P (c # s)) \<and> m \<le> length (takeWhile P (c # s))")
    case True
    then have "a = 0" "b = length (takeWhile P (c # s))" using Cons.prems by (auto simp: Let_def split: if_splits)
    then have "drop a (take b (c # s)) = takeWhile P (c # s)" by (simp only: drop_0 takeWhile_eq_take [symmetric])
    then show ?thesis by (simp add: list_all_iff) (auto dest: set_takeWhileD)
  next
    case False
    then obtain a' b' where "search_run m P s = Some (a', b')" "a = Suc a'" "b = Suc b'"
      using Cons.prems by (auto simp: Let_def split: if_splits)
    then show ?thesis using Cons.IH by simp
  qed
qed simp

lemma search_class: "search p s = Some (a, b) \<Longrightarrow> list_all (class_of p) (drop a (take b s))"
proof (cases p)
  case (Whole P)
  assume "search p s = Some (a, b)"
  with Whole have "a = 0" "b = length (takeWhile P s)" by (auto simp: Let_def split: if_splits)
  then have "drop a (take b s) = takeWhile P s" by (simp only: drop_0 takeWhile_eq_take [symmetric])
  then show ?thesis using Whole by (simp add: list_all_iff) (auto dest: set_takeWhileD)
qed (simp add: search_run_class)

lemma optimal_split_cases:
  obtains "data = []" "optimal_split p data = []"
  | "data \<noteq> []" "search p data = None" "optimal_split p data = [(False, data)]"
  | a b where "data \<noteq> []" "search p data = Some (a, b)"
      "optimal_split p data = (if a \<noteq> 0 then [(False, take a data)] else []) @ (True, drop a (take b data)) # optimal_split p (drop b data)"
  using optimal_split.simps [of p data] by (cases "data = []"; cases "search p data") auto

lemma split_joins: "concat (map snd (optimal_split p data)) = data"
proof (induction "length data" arbitrary: data rule: less_induct)
  case less
  show ?case
  proof (cases rule: optimal_split_cases [of data p])
    case (3 a b)
    have ab: "a < b" "b \<le> length data" using search_bounds [OF 3(2)] by simp_all
    then have "concat (map snd (optimal_split p (drop b data))) = drop b data" using less by simp
    moreover have "take a data @ drop a (take b data) @ drop b data = data"
      using ab by (metis append.assoc append_take_drop_id min.strict_order_iff take_take)
    ultimately show ?thesis using 3(3) by auto
  qed simp_all
qed

lemma split_parts: "(f, c) \<in> set (optimal_split p data) \<Longrightarrow> c \<noteq> [] \<and> (f \<longrightarrow> list_all (class_of p) c)"
proof (induction "length data" arbitrary: data rule: less_induct)
  case less
  show ?case
  proof (cases rule: optimal_split_cases [of data p])
    case (3 a b)
    have ab: "a < b" "b \<le> length data" using search_bounds [OF 3(2)] by simp_all
    then have "drop a (take b data) \<noteq> []" "a \<noteq> 0 \<Longrightarrow> take a data \<noteq> []" using 3(1) by auto
    moreover have "(f, c) \<in> set (optimal_split p (drop b data)) \<Longrightarrow> ?thesis" using less.hyps [of "drop b data"] ab by simp
    ultimately show ?thesis using less.prems search_class [OF 3(2)] unfolding 3(3) by (auto split: if_splits)
  qed (use less.prems in auto)
qed

text \<open>A segment that its mode can represent.\<close>

definition good_data :: "qr_data \<Rightarrow> bool" where
  "good_data d \<longleftrightarrow> qd_data d \<noteq> [] \<and>
     (qd_mode d = MODE_NUMBER \<and> list_all is_digit (qd_data d) \<or> qd_mode d = MODE_ALPHA_NUM \<and> list_all is_alnum (qd_data d)
      \<or> qd_mode d = MODE_8BIT_BYTE)"

lemma chunks_join: "concat (map qd_data (optimal_data_chunks data minimum)) = data"
proof -
  obtain num alpha where p: "chunk_patterns data minimum = (num, alpha)" by fastforce
  have f: "concat (concat (map h xs)) = concat (map (\<lambda>x. concat (h x)) xs)" for h :: "bool \<times> string \<Rightarrow> string list" and xs
    by (induction xs) simp_all
  have "concat (map qd_data (optimal_data_chunks data minimum)) = concat (map snd (optimal_split num data))"
    by (simp add: optimal_data_chunks_def p map_concat comp_def case_prod_beta f split_joins if_distrib [of "map _"]
        if_distrib [of concat] cong: if_cong)
  then show ?thesis by (simp add: split_joins)
qed

lemma chunks_good: "d \<in> set (optimal_data_chunks data minimum) \<Longrightarrow> good_data d"
proof -
  assume d: "d \<in> set (optimal_data_chunks data minimum)"
  obtain num alpha where p: "chunk_patterns data minimum = (num, alpha)" by fastforce
  then have cls: "class_of num = is_digit" "class_of alpha = is_alnum" by (auto simp: chunk_patterns_def split: if_splits)
  obtain f c where fc: "(f, c) \<in> set (optimal_split num data)"
    and e: "d \<in> set (if f then [\<lparr>qd_data = c, qd_mode = MODE_NUMBER\<rparr>] else
      map (\<lambda>(is_alpha, sub). \<lparr>qd_data = sub, qd_mode = if is_alpha then MODE_ALPHA_NUM else MODE_8BIT_BYTE\<rparr>) (optimal_split alpha c))"
    using d unfolding optimal_data_chunks_def p by fastforce
  show ?thesis
  proof (cases f)
    case True
    then show ?thesis using e split_parts [OF fc] by (simp add: good_data_def cls)
  next
    case False
    then obtain g x where "(g, x) \<in> set (optimal_split alpha c)" "d = \<lparr>qd_data = x, qd_mode = if g then MODE_ALPHA_NUM else MODE_8BIT_BYTE\<rparr>"
      using e by auto
    then show ?thesis using split_parts [of g x alpha c] by (simp add: good_data_def cls)
  qed
qed

end
