(* ===== verification/QrRead.thy ===== *)
theory QrRead
  imports QrStream
begin

text \<open>
  A reader of the bit stream of \<open>QrStream\<close>: it takes a mode, a length and as many characters of that mode as
  long as there is a mode. Written bits of any segments are read back.
\<close>

unbundle bit_operations_syntax

section \<open>The bits of a segment\<close>

definition digits_val :: "string \<Rightarrow> nat" where
  "digits_val s = foldl (\<lambda>a c. 10 * a + digit_val c) 0 s"

definition number_width :: "nat \<Rightarrow> nat" where
  "number_width k = (if 3 \<le> k then 10 else if k = 2 then 7 else 4)"

fun number_bits :: "string \<Rightarrow> bool list" where
  "number_bits [] = []"
| "number_bits (c # s) =
    num_bits (int (digits_val (take 3 (c # s)))) (number_width (length (c # s))) @ number_bits (drop 3 (c # s))"

fun alnum_bits :: "string \<Rightarrow> bool list" where
  "alnum_bits [] = []"
| "alnum_bits [c] = num_bits (find_byte ALPHA_NUM c) 6"
| "alnum_bits (c # d # s) = num_bits (find_byte ALPHA_NUM c * 45 + find_byte ALPHA_NUM d) 11 @ alnum_bits s"

definition data_bits :: "qr_data \<Rightarrow> bool list" where
  "data_bits d =
    (if qd_mode d = MODE_NUMBER then number_bits (qd_data d)
     else if qd_mode d = MODE_ALPHA_NUM then alnum_bits (qd_data d)
     else concat (map (\<lambda>c. num_bits (int (code c)) 8) (qd_data d)))"

lemma py_int_digits:
  assumes "s \<noteq> []" "list_all is_digit s"
  shows "py_int s = Some (int (digits_val s))"
proof -
  have "strip s = s" using assms(2) by (intro strip_nospace) (auto simp: list_all_iff is_digit_def is_space_def)
  moreover obtain c cs where "s = c # cs" using assms(1) by (cases s) auto
  moreover from this have "c \<noteq> CHR ''-''" "c \<noteq> CHR ''+''" using assms(2) by (auto simp: is_digit_def code_literals)
  ultimately show ?thesis
    using scan_digits_all [of s 0 False] assms by (simp add: py_int_def digits_val_def list_all_iff)
qed

lemma write_number_rep:
  assumes "list_all is_digit s" "rep b bs"
  shows "\<exists>b'. write_number s b = Inr b' \<and> rep b' (bs @ number_bits s)"
  using assms
proof (induction "length s" arbitrary: s b bs rule: less_induct)
  case less
  show ?case
  proof (cases s)
    case (Cons c t)
    let ?ch = "take 3 (c # t)"
    have "list_all is_digit ?ch" using less.prems(1) Cons by (auto simp: list_all_iff dest: in_set_takeD)
    then have n: "py_int ?ch = Some (int (digits_val ?ch))" by (intro py_int_digits) simp_all
    consider "length t = 0" | "length t = 1" | "2 \<le> length t" by linarith
    then have w: "map_of NUMBER_LENGTH (length ?ch) = Some (number_width (length s))"
      unfolding Cons by cases (simp_all add: NUMBER_LENGTH_def number_width_def)
    have "\<exists>b'. write_number (drop 3 s) (put (int (digits_val ?ch)) (number_width (length s)) b) = Inr b'
      \<and> rep b' ((bs @ num_bits (int (digits_val ?ch)) (number_width (length s))) @ number_bits (drop 3 s))"
    proof (rule less.hyps)
      show "length (drop 3 s) < length s" using Cons by simp
      show "list_all is_digit (drop 3 s)" using less.prems(1) by (auto simp: list_all_iff dest: in_set_dropD)
    qed (rule rep_put [OF less.prems(2)])
    then show ?thesis using n w unfolding Cons by (simp del: take_Suc_Cons drop_Suc_Cons)
  qed (use less.prems in simp)
qed

lemma write_alnum_rep: "rep b bs \<Longrightarrow> rep (write_alnum s b) (bs @ alnum_bits s)"
  by (induction s b arbitrary: bs rule: write_alnum.induct) (simp_all add: rep_put flip: append_assoc)

lemma write_bytes_rep: "rep b bs \<Longrightarrow> rep (fold (\<lambda>c. put (f c) 8) s b) (bs @ concat (map (\<lambda>c. num_bits (f c) 8) s))"
  by (induction s arbitrary: b bs) (simp_all add: rep_put flip: append_assoc)

lemma write_data_rep: "good_data d \<Longrightarrow> rep b bs \<Longrightarrow> \<exists>b'. write_data d b = Inr b' \<and> rep b' (bs @ data_bits d)"
  using write_number_rep [of "qd_data d" b bs]
  by (auto simp: good_data_def write_data_def data_bits_def write_alnum_rep write_bytes_rep modes)

section \<open>The reader\<close>

fun nat_of_bits :: "bool list \<Rightarrow> nat" where
  "nat_of_bits [] = 0"
| "nat_of_bits (x # bs) = of_bool x * 2 ^ length bs + nat_of_bits bs"

definition field_of :: "nat \<Rightarrow> bool list \<Rightarrow> (nat \<times> bool list) option" where
  "field_of w bits = (if length bits < w then None else Some (nat_of_bits (take w bits), drop w bits))"

fun read_digits :: "nat \<Rightarrow> bool list \<Rightarrow> (string \<times> bool list) option" where
  "read_digits n bits =
    (if n = 0 then Some ([], bits)
     else case field_of (number_width n) bits of
       None \<Rightarrow> None
     | Some (v, r) \<Rightarrow> map_option (\<lambda>(s, r'). (zfill (min 3 n) (dec_nat v) @ s, r')) (read_digits (n - 3) r))"

declare read_digits.simps [simp del]

fun read_alnums :: "nat \<Rightarrow> bool list \<Rightarrow> (string \<times> bool list) option" where
  "read_alnums 0 bits = Some ([], bits)"
| "read_alnums (Suc 0) bits = map_option (\<lambda>(v, r). ([ALPHA_NUM ! v], r)) (field_of 6 bits)"
| "read_alnums (Suc (Suc n)) bits =
    (case field_of 11 bits of
       None \<Rightarrow> None
     | Some (v, r) \<Rightarrow> map_option (\<lambda>(s, r'). (ALPHA_NUM ! (v div 45) # ALPHA_NUM ! (v mod 45) # s, r')) (read_alnums n r))"

fun read_bytes :: "nat \<Rightarrow> bool list \<Rightarrow> (string \<times> bool list) option" where
  "read_bytes 0 bits = Some ([], bits)"
| "read_bytes (Suc n) bits =
    (case field_of 8 bits of
       None \<Rightarrow> None
     | Some (v, r) \<Rightarrow> map_option (\<lambda>(s, r'). (char_of v # s, r')) (read_bytes n r))"

definition read_data :: "int \<Rightarrow> nat \<Rightarrow> bool list \<Rightarrow> (string \<times> bool list) option" where
  "read_data mode n bits =
    (if mode = MODE_NUMBER then read_digits n bits
     else if mode = MODE_ALPHA_NUM then read_alnums n bits
     else if mode = MODE_8BIT_BYTE then read_bytes n bits else None)"

lemma field_shorter: "field_of w bits = Some (v, r) \<Longrightarrow> length r + w = length bits"
  by (auto simp: field_of_def split: if_splits)

lemma read_digits_shorter: "read_digits n bits = Some (s, r) \<Longrightarrow> length r \<le> length bits"
proof (induction n bits arbitrary: s r rule: read_digits.induct)
  case (1 n bits)
  then show ?case
    by (fastforce simp: read_digits.simps [of n bits] dest: field_shorter split: if_splits option.splits)
qed

lemma read_alnums_shorter: "read_alnums n bits = Some (s, r) \<Longrightarrow> length r \<le> length bits"
  by (induction n bits arbitrary: s r rule: read_alnums.induct)
    (fastforce dest: field_shorter split: option.splits)+

lemma read_bytes_shorter: "read_bytes n bits = Some (s, r) \<Longrightarrow> length r \<le> length bits"
  by (induction n bits arbitrary: s r rule: read_bytes.induct)
    (fastforce dest: field_shorter split: option.splits)+

lemma read_data_shorter: "read_data mode n bits = Some (s, r) \<Longrightarrow> length r \<le> length bits"
  by (auto simp: read_data_def dest: read_digits_shorter read_alnums_shorter read_bytes_shorter split: if_splits)

function read_text :: "nat \<Rightarrow> bool list \<Rightarrow> string option" where
  "read_text version bits =
    (case field_of 4 bits of
       None \<Rightarrow> Some []
     | Some (mode, r1) \<Rightarrow>
        (if mode = 0 then Some []
         else case map_of (mode_sizes_for_version version) (int mode) of
           None \<Rightarrow> None
         | Some w \<Rightarrow>
            (case field_of w r1 of
               None \<Rightarrow> None
             | Some (n, r2) \<Rightarrow>
                (case read_data (int mode) n r2 of
                   None \<Rightarrow> None
                 | Some (s, r3) \<Rightarrow> map_option ((@) s) (read_text version r3)))))"
  by pat_completeness auto
termination
  by (relation "measure (\<lambda>(v, bits). length bits)") (auto dest!: field_shorter read_data_shorter)

declare read_text.simps [simp del]

section \<open>Reading what was written\<close>

lemma nat_of_bits_append: "nat_of_bits (xs @ ys) = nat_of_bits xs * 2 ^ length ys + nat_of_bits ys"
  by (induction xs) (simp_all add: power_add algebra_simps)

lemma num_bits_0 [simp]: "num_bits num 0 = []"
  by (simp add: num_bits_def)

lemma num_bits_Suc: "num_bits num (Suc len) = bit num len # num_bits num len"
proof -
  have "map (\<lambda>i. bit num (Suc len - i - 1)) [0..<Suc len] = bit num len # map (\<lambda>i. bit num (Suc len - Suc i - 1)) [0..<len]"
    by (simp only: upt_conv_Cons [of 0 "Suc len"] map_Suc_upt [symmetric]) simp
  then show ?thesis by (simp add: num_bits_def)
qed

lemma nat_of_num_bits:
  assumes "num < 2 ^ len"
  shows "nat_of_bits (num_bits (int num) len) = num"
proof -
  have "int (nat_of_bits (num_bits a len)) = take_bit len a" for a
    by (induction len) (simp_all add: num_bits_Suc take_bit_Suc_from_most)
  from this [of "int num"] assms show ?thesis
    by (metis of_nat_eq_iff of_nat_less_iff of_nat_numeral of_nat_power take_bit_nat_eq_self take_bit_of_nat)
qed

lemma field_num_bits: "num < 2 ^ w \<Longrightarrow> field_of w (num_bits (int num) w @ r) = Some (num, r)"
  by (simp add: field_of_def nat_of_num_bits)

lemma digit_value: "is_digit c \<Longrightarrow> digit_val c < 10" "is_digit c \<Longrightarrow> digit_char (digit_val c) = c"
  by (auto simp: digit_val_def digit_char_def is_digit_def code_def)

lemma digits_val_less: "list_all is_digit s \<Longrightarrow> digits_val s < 10 ^ length s"
proof (induction s rule: rev_induct)
  case (snoc c s)
  then have "digit_val c < 10" using digit_value by simp
  with snoc show ?case by (simp add: digits_val_def)
qed (simp add: digits_val_def)

lemma zfill_snoc: "zfill (Suc n) (s @ [c]) = zfill n s @ [c]"
  by (simp add: zfill_def)

lemma zfill_digits: "s \<noteq> [] \<Longrightarrow> list_all is_digit s \<Longrightarrow> zfill (length s) (dec_nat (digits_val s)) = s"
proof (induction s rule: rev_induct)
  case (snoc c s)
  have c: "digit_val c < 10" "digit_char (digit_val c) = c"
    using snoc.prems(2) digit_value by simp_all
  have v: "digits_val (s @ [c]) = 10 * digits_val s + digit_val c" by (simp add: digits_val_def)
  show ?case
  proof (cases "s = []")
    case True
    then show ?thesis using c by (simp add: digits_val_def zfill_def dec_nat.simps [of "digit_val c"])
  next
    case False
    then have IH: "zfill (length s) (dec_nat (digits_val s)) = s" using snoc by simp
    show ?thesis
    proof (cases "digits_val s = 0")
      case True
      then have "s = zfill (length s) [digit_char 0]" using IH by (simp add: dec_nat.simps [of 0])
      moreover have "digit_char 0 = CHR ''0''" by code_simp
      ultimately have "s = zfill (length s) ''0''" by simp
      also have "\<dots> = zfill (length s) []" using False
        by (cases "length s") (simp_all add: zfill_def replicate_append_same)
      finally have "zfill (length s) [] = s" by simp
      then show ?thesis using True c zfill_snoc [of "length s" "[]" c] by (simp add: v dec_nat.simps [of "digit_val c"])
    next
      case nz: False
      then have "dec_nat (10 * digits_val s + digit_val c) = dec_nat (digits_val s) @ [c]"
        using c by (subst dec_nat.simps) simp
      then show ?thesis using IH by (simp add: v zfill_snoc)
    qed
  qed
qed simp

lemma read_number:
  assumes "list_all is_digit s"
  shows "read_digits (length s) (number_bits s @ r) = Some (s, r)"
  using assms
proof (induction "length s" arbitrary: s rule: less_induct)
  case less
  show ?case
  proof (cases s)
    case (Cons c t)
    let ?ch = "take 3 s"
    have ch: "?ch \<noteq> []" "list_all is_digit ?ch" "list_all is_digit (drop 3 s)"
      using less.prems Cons by (auto simp: list_all_iff dest: in_set_takeD in_set_dropD)
    have "digits_val ?ch < 10 ^ min (length s) 3" using digits_val_less [OF ch(2)] by simp
    moreover consider "length s = 1" | "length s = 2" | "3 \<le> length s" using Cons by (cases "length t"; cases "length t - 1") auto
    then have "(10 :: nat) ^ min (length s) 3 \<le> 2 ^ number_width (length s)" by cases (simp_all add: number_width_def)
    ultimately have w: "digits_val ?ch < 2 ^ number_width (length s)" by linarith
    have b: "number_bits s = num_bits (int (digits_val ?ch)) (number_width (length s)) @ number_bits (drop 3 s)"
      using Cons by (simp del: take_Suc_Cons drop_Suc_Cons)
    have z: "zfill (min 3 (length s)) (dec_nat (digits_val ?ch)) = ?ch"
      using zfill_digits [OF ch(1,2)] by (simp add: min.commute)
    have "read_digits (length s - 3) (number_bits (drop 3 s) @ r) = Some (drop 3 s, r)"
      using less.hyps [of "drop 3 s"] ch(3) Cons by simp
    moreover have "s \<noteq> []" using Cons by simp
    ultimately show ?thesis unfolding read_digits.simps [of "length s"] b append_assoc by (simp add: field_num_bits [OF w] z)
  qed (simp add: read_digits.simps)
qed

lemma find_byte_nth:
  assumes "c \<in> set s"
  shows "\<exists>i < length s. find_byte s c = int i \<and> s ! i = c"
proof -
  let ?n = "length (takeWhile (\<lambda>x. x \<noteq> c) s)"
  have n: "?n < length s" using assms by (induction s) auto
  then have "s ! ?n = c" using nth_length_takeWhile [of "\<lambda>x. x \<noteq> c" s] by simp
  with n show ?thesis by (intro exI [of _ ?n]) (simp add: find_byte_def)
qed

lemma read_alnum: "list_all is_alnum s \<Longrightarrow> read_alnums (length s) (alnum_bits s @ r) = Some (s, r)"
proof (induction s rule: alnum_bits.induct)
  case (2 c)
  then obtain i where "i < 45" "find_byte ALPHA_NUM c = int i" "ALPHA_NUM ! i = c"
    using find_byte_nth [of c ALPHA_NUM] by (auto simp: ALPHA_NUM_def)
  then show ?case by (simp add: field_num_bits)
next
  case (3 c d s)
  have l: "length ALPHA_NUM = 45" by (simp add: ALPHA_NUM_def)
  obtain i j where i: "i < 45" "find_byte ALPHA_NUM c = int i" "ALPHA_NUM ! i = c"
    and j: "j < 45" "find_byte ALPHA_NUM d = int j" "ALPHA_NUM ! j = d"
    using 3(2) find_byte_nth [of c ALPHA_NUM] find_byte_nth [of d ALPHA_NUM] unfolding l by auto
  have "i * 45 + j < 2 ^ 11" using i j by simp
  from field_num_bits [OF this, of "alnum_bits s @ r"] show ?case using 3 i j by simp
qed simp

lemma read_byte: "read_bytes (length s) (concat (map (\<lambda>c. num_bits (int (code c)) 8) s) @ r) = Some (s, r)"
proof (induction s)
  case (Cons c s)
  have "code c < 2 ^ 8" by (simp add: code_def)
  from field_num_bits [OF this] Cons show ?case by (simp add: code_def)
qed simp

lemma read_data_bits: "good_data d \<Longrightarrow> read_data (qd_mode d) (length (qd_data d)) (data_bits d @ r) = Some (qd_data d, r)"
  by (auto simp: good_data_def read_data_def data_bits_def modes read_number read_alnum read_byte)

end
