(* ===== verification/QrFit.thy ===== *)
theory QrFit
  imports QrBlocks QrRead
begin

text \<open>
  \<open>qml/utilities/qrcode/util.py\<close>, second part, and \<open>best_fit\<close> of \<open>qrcode/main.py\<close>: the codewords of the
  segments at one version, and the version that fits them. A level of error correction is one of the
  four constants.
\<close>

unbundle bit_operations_syntax

section \<open>The data codewords\<close>

definition PAD0 :: int where "PAD0 = 0xEC"
definition PAD1 :: int where "PAD1 = 0x11"

abbreviation DataOverflowError :: exn where
  "DataOverflowError \<equiv> OtherError ''DataOverflowError''"

text \<open>The loop over the segments, with the widths of the length fields.\<close>

fun write_segments :: "(int \<Rightarrow> exn + nat) \<Rightarrow> qr_data list \<Rightarrow> bit_buffer \<Rightarrow> exn + bit_buffer" where
  "write_segments width [] b = Inr b"
| "write_segments width (d # ds) b =
    (case width (qd_mode d) of
       Inl e \<Rightarrow> Inl e
     | Inr w \<Rightarrow>
        (case write_data d (put (int (length (qd_data d))) w (put (qd_mode d) 4 b)) of
           Inl e \<Rightarrow> Inl e
         | Inr b' \<Rightarrow> write_segments width ds b'))"

definition data_count :: "rs_block list \<Rightarrow> nat" where
  "data_count blocks = nat (sum_list (map snd blocks))"

definition terminate_bits :: "nat \<Rightarrow> bit_buffer \<Rightarrow> bit_buffer" where
  "terminate_bits bit_limit b = (put_bit False ^^ min (bit_limit - bb_length b) 4) b"

definition delimit_bits :: "bit_buffer \<Rightarrow> bit_buffer" where
  "delimit_bits b = (let delimit = bb_length b mod 8 in if delimit \<noteq> 0 then (put_bit False ^^ (8 - delimit)) b else b)"

definition fill_bytes :: "nat \<Rightarrow> bit_buffer \<Rightarrow> bit_buffer" where
  "fill_bytes bit_limit b =
    fold (\<lambda>i. put (if i mod 2 = 0 then PAD0 else PAD1) 8) [0..<(bit_limit - bb_length b) div 8] b"

definition create_data :: "nat \<Rightarrow> int \<Rightarrow> qr_data list \<Rightarrow> exn + int list" where
  "create_data version error_correction data_list =
    (case write_segments (\<lambda>mode. length_in_bits mode version) data_list new_buffer of
       Inl e \<Rightarrow> Inl e
     | Inr b \<Rightarrow>
        (case rs_blocks version error_correction of
           Inl e \<Rightarrow> Inl e
         | Inr blocks \<Rightarrow>
            (let bit_limit = 8 * data_count blocks
             in if bit_limit < bb_length b then Inl DataOverflowError
                else create_bytes (bb_buffer (fill_bytes bit_limit (delimit_bits (terminate_bits bit_limit b)))) blocks)))"

section \<open>The version that fits\<close>

definition BIT_LIMIT_TABLE :: "nat list list" where
  "BIT_LIMIT_TABLE =
    map (\<lambda>error_correction. 0 # map (\<lambda>version.
        case rs_blocks version (int error_correction) of Inl _ \<Rightarrow> 0 | Inr blocks \<Rightarrow> 8 * data_count blocks) [1..<41])
      [0..<4]"

text \<open>\<open>bisect.bisect_left\<close>.\<close>

function bisect_loop :: "nat list \<Rightarrow> nat \<Rightarrow> nat \<Rightarrow> nat \<Rightarrow> nat" where
  "bisect_loop a x lo hi =
    (if lo < hi
     then let mid = (lo + hi) div 2 in if a ! mid < x then bisect_loop a x (mid + 1) hi else bisect_loop a x lo mid
     else lo)"
  by pat_completeness auto
termination
  by (relation "measure (\<lambda>(a, x, lo, hi). hi - lo)") auto

declare bisect_loop.simps [simp del]

definition bisect_left :: "nat list \<Rightarrow> nat \<Rightarrow> nat \<Rightarrow> nat" where
  "bisect_left a x lo = bisect_loop a x lo (length a)"

lemma bisect_lower: "lo \<le> bisect_loop a x lo hi"
proof (induction a x lo hi rule: bisect_loop.induct)
  case (1 a x lo hi)
  then show ?case by (fastforce simp: bisect_loop.simps [of a x lo hi] Let_def)
qed

text \<open>The setter of \<open>version\<close> checks the new version before the code looks at it.\<close>

function best_fit :: "int \<Rightarrow> qr_data list \<Rightarrow> nat \<Rightarrow> exn + nat" where
  "best_fit error_correction data_list start =
    (case check_version start of
       Inl e \<Rightarrow> Inl e
     | Inr _ \<Rightarrow>
        (case write_segments (mode_width (mode_sizes_for_version start)) data_list new_buffer of
           Inl e \<Rightarrow> Inl e
         | Inr b \<Rightarrow>
            (let version = bisect_left (BIT_LIMIT_TABLE ! nat error_correction) (bb_length b) start
             in case check_version version of
                  Inl e \<Rightarrow> Inl e
                | Inr _ \<Rightarrow>
                   (if version = 41 then Inl DataOverflowError
                    else if mode_sizes_for_version start \<noteq> mode_sizes_for_version version
                    then best_fit error_correction data_list version
                    else Inr version))))"
  by pat_completeness auto
termination
proof (relation "measure (\<lambda>(ec, ds, start). 41 - start)")
  fix ec ds start u b version u'
  assume "check_version start = Inr u" "write_segments (mode_width (mode_sizes_for_version start)) ds new_buffer = Inr b"
    and v: "version = bisect_left (BIT_LIMIT_TABLE ! nat ec) (bb_length b) start"
    and "check_version version = Inr u'" "version \<noteq> 41" "mode_sizes_for_version start \<noteq> mode_sizes_for_version version"
  then have "start \<noteq> version" "version \<le> 40" by (auto simp: check_version_def split: if_splits)
  moreover have "start \<le> version" unfolding v bisect_left_def by (rule bisect_lower)
  ultimately show "((ec, ds, version), ec, ds, start) \<in> measure (\<lambda>(ec, ds, start). 41 - start)" by simp
qed simp

declare best_fit.simps [simp del]

section \<open>Writing and filling the buffer\<close>

text \<open>The bits of the segments, with the widths of the length fields.\<close>

definition segment_bits :: "(int \<times> nat) list \<Rightarrow> qr_data \<Rightarrow> bool list" where
  "segment_bits sizes d =
    num_bits (qd_mode d) 4 @ num_bits (int (length (qd_data d))) (the (map_of sizes (qd_mode d))) @ data_bits d"

definition text_bits :: "(int \<times> nat) list \<Rightarrow> qr_data list \<Rightarrow> bool list" where
  "text_bits sizes ds = concat (map (segment_bits sizes) ds)"

lemma good_mode: "good_data d \<Longrightarrow> qd_mode d \<in> {MODE_NUMBER, MODE_ALPHA_NUM, MODE_8BIT_BYTE}"
  by (auto simp: good_data_def)

lemma sizes_known: "good_data d \<Longrightarrow> map_of (mode_sizes_for_version v) (qd_mode d) = Some (the (map_of (mode_sizes_for_version v) (qd_mode d)))"
  using good_mode [of d] by (auto simp: mode_sizes_for_version_def mode_sizes modes)

lemma write_segments_rep:
  assumes "\<And>d. d \<in> set ds \<Longrightarrow> good_data d \<and> width (qd_mode d) = Inr (the (map_of sizes (qd_mode d)))" "rep b bs"
  shows "\<exists>b'. write_segments width ds b = Inr b' \<and> rep b' (bs @ text_bits sizes ds)"
  using assms
proof (induction ds arbitrary: b bs)
  case (Cons d ds)
  let ?w = "the (map_of sizes (qd_mode d))"
  have d: "good_data d" "width (qd_mode d) = Inr ?w" using Cons.prems(1) by simp_all
  have "rep (put (int (length (qd_data d))) ?w (put (qd_mode d) 4 b)) (bs @ num_bits (qd_mode d) 4 @ num_bits (int (length (qd_data d))) ?w)"
    using rep_put [OF rep_put [OF Cons.prems(2)]] by simp
  from write_data_rep [OF d(1) this] obtain b1
    where b1: "write_data d (put (int (length (qd_data d))) ?w (put (qd_mode d) 4 b)) = Inr b1" "rep b1 (bs @ segment_bits sizes d)"
    by (auto simp: segment_bits_def)
  from Cons.IH [OF _ b1(2)] Cons.prems(1) obtain b'
    where "write_segments width ds b1 = Inr b'" "rep b' ((bs @ segment_bits sizes d) @ text_bits sizes ds)" by auto
  then show ?case using d b1(1) by (auto simp: text_bits_def)
qed (simp add: text_bits_def)

text \<open>Both callers write the same bits at a version.\<close>

lemma lengths_of_version:
  assumes "good_data d" "1 \<le> v" "v \<le> 40"
  shows "length_in_bits (qd_mode d) v = Inr (the (map_of (mode_sizes_for_version v) (qd_mode d)))"
    "mode_width (mode_sizes_for_version v) (qd_mode d) = Inr (the (map_of (mode_sizes_for_version v) (qd_mode d)))"
  using assms sizes_known [OF assms(1), of v] good_mode [OF assms(1)]
  by (auto simp: length_in_bits_def mode_width_def check_version_def split: option.splits)

lemma rep_zeros: "rep b bs \<Longrightarrow> rep ((put_bit False ^^ n) b) (bs @ replicate n False)"
proof (induction n)
  case (Suc n)
  then have "rep (put_bit False ((put_bit False ^^ n) b)) ((bs @ replicate n False) @ [False])" by (intro rep_put_bit) simp
  then show ?case by (simp flip: replicate_append_same)
qed simp

lemma rep_length: "rep b bs \<Longrightarrow> bb_length b = length bs"
  by (simp add: rep_def)

lemma rep_fill: "rep b bs \<Longrightarrow> \<exists>ps. rep (fold (\<lambda>i. put (f i) 8) is b) (bs @ ps) \<and> length ps = 8 * length is"
proof (induction "is" arbitrary: b bs)
  case (Cons i "is")
  from Cons.IH [OF rep_put [OF Cons.prems, of "f i" 8]] obtain ps
    where "rep (fold (\<lambda>i. put (f i) 8) is (put (f i) 8 b)) ((bs @ num_bits (f i) 8) @ ps)" "length ps = 8 * length is" by auto
  then show ?case by (intro exI [of _ "num_bits (f i) 8 @ ps"]) simp
qed simp

lemma round_up:
  fixes l n :: nat
  assumes "l \<le> 8 * n" "k = (if l mod 8 = 0 then 0 else 8 - l mod 8)"
  shows "(l + k) mod 8 = 0" "l + k \<le> 8 * n"
proof -
  obtain q r where l: "l = 8 * q + r" "q = l div 8" "r = l mod 8" "r < 8" by simp
  then have k: "k = (if r = 0 then 0 else 8 - r)" using assms(2) by simp
  then have e: "l + k = 8 * (if r = 0 then q else q + 1)" using l(1,4) by simp
  moreover have "(if r = 0 then q else q + 1) \<le> n" using assms(1) l(1) by simp
  ultimately show "(l + k) mod 8 = 0" "l + k \<le> 8 * n" by simp_all
qed

text \<open>What follows the segments: up to four zeros, zeros up to a byte, and then other bytes only after four zeros.\<close>

lemma padded_rep:
  assumes b: "rep b bs" and fits: "length bs \<le> 8 * n"
  shows "\<exists>z ps. rep (fill_bytes (8 * n) (delimit_bits (terminate_bits (8 * n) b))) (bs @ replicate z False @ ps)
    \<and> length bs + z + length ps = 8 * n \<and> (4 \<le> z \<or> z < 4 \<and> ps = [])"
proof -
  let ?t = "min (8 * n - length bs) 4"
  let ?b1 = "terminate_bits (8 * n) b"
  have b1: "rep ?b1 (bs @ replicate ?t False)" unfolding terminate_bits_def rep_length [OF b] by (rule rep_zeros [OF b])
  let ?l = "length bs + ?t"
  define k where "k = (if ?l mod 8 = 0 then 0 else 8 - ?l mod 8)"
  have b2: "rep (delimit_bits ?b1) ((bs @ replicate ?t False) @ replicate k False)"
    using b1 rep_zeros [OF b1, of "8 - ?l mod 8"] rep_length [OF b1] by (auto simp: delimit_bits_def Let_def k_def)
  have "?l \<le> 8 * n" using fits by simp
  note kl = round_up [OF this k_def]
  define L where "L = ?l + k"
  obtain q where q: "L = 8 * q" using kl(1) by (auto simp: L_def)
  have d: "(8 * n - L) div 8 = n - q" unfolding q by simp
  have "bb_length (delimit_bits ?b1) = L" using rep_length [OF b2] by (simp add: L_def)
  then obtain ps where "rep (fill_bytes (8 * n) (delimit_bits ?b1)) (((bs @ replicate ?t False) @ replicate k False) @ ps)"
    and p: "length ps = 8 * (n - q)"
    using rep_fill [OF b2, of "\<lambda>i. if i mod 2 = 0 then PAD0 else PAD1" "[0..<n - q]"] d by (auto simp: fill_bytes_def)
  then have "rep (fill_bytes (8 * n) (delimit_bits ?b1)) (bs @ replicate (?t + k) False @ ps)" by (simp add: replicate_add)
  moreover have "length bs + (?t + k) + length ps = 8 * n" using kl(2) q p unfolding L_def by linarith
  moreover have "4 \<le> ?t + k \<or> ?t + k < 4 \<and> ps = []"
  proof (cases "?t = 4")
    case False
    then have "?l = 8 * n" using fits by linarith
    then have "L = 8 * n" using kl(2) by (simp add: L_def)
    then show ?thesis using p q by auto
  qed simp
  ultimately show ?thesis by blast
qed

section \<open>The table of limits\<close>

fun row_count :: "int list \<Rightarrow> int" where
  "row_count (count # tot # data # rest) = count * data + row_count rest"
| "row_count _ = 0"

lemma expand_count: "list_all (\<lambda>x. 0 \<le> x) row \<Longrightarrow> sum_list (map snd (expand_blocks row)) = row_count row"
  by (induction row rule: row_count.induct) (simp_all add: sum_list_replicate)

lemma rows_positive: "list_all (list_all (\<lambda>x. 0 \<le> x)) RS_BLOCK_TABLE"
  by (simp add: RS_BLOCK_TABLE_def)

definition COUNTS :: "int list" where
  "COUNTS = [
    19, 16, 13, 9, 34, 28, 22, 16, 55, 44, 34, 26, 80, 64, 48, 36, 108, 86, 62, 46, 136, 108, 76, 60, 156, 124, 88,
    66, 194, 154, 110, 86, 232, 182, 132, 100, 274, 216, 154, 122, 324, 254, 180, 140, 370, 290, 206, 158, 428,
    334, 244, 180, 461, 365, 261, 197, 523, 415, 295, 223, 589, 453, 325, 253, 647, 507, 367, 283, 721, 563, 397,
    313, 795, 627, 445, 341, 861, 669, 485, 385, 932, 714, 512, 406, 1006, 782, 568, 442, 1094, 860, 614, 464,
    1174, 914, 664, 514, 1276, 1000, 718, 538, 1370, 1062, 754, 596, 1468, 1128, 808, 628, 1531, 1193, 871, 661,
    1631, 1267, 911, 701, 1735, 1373, 985, 745, 1843, 1455, 1033, 793, 1955, 1541, 1115, 845, 2071, 1631, 1171,
    901, 2191, 1725, 1231, 961, 2306, 1812, 1286, 986, 2434, 1914, 1354, 1054, 2566, 1992, 1426, 1096, 2702, 2102,
    1502, 1142, 2812, 2216, 1582, 1222, 2956, 2334, 1666, 1276]"

lemma row_counts: "map row_count RS_BLOCK_TABLE = COUNTS"
  by (simp add: RS_BLOCK_TABLE_def COUNTS_def)

lemma counts_length: "length COUNTS = 160"
  by (simp add: COUNTS_def)

lemma counts_increase: "list_all2 (<) COUNTS (drop 4 COUNTS @ [3000, 3000, 3000, 3000])"
  by (simp add: COUNTS_def)

lemma counts_bound: "list_all (\<lambda>c. c \<le> 232) (take 36 COUNTS)" "list_all (\<lambda>c. c \<le> 1370) (take 104 COUNTS)"
  "list_all (\<lambda>c. 9 \<le> c \<and> c \<le> 2956) COUNTS"
  by (simp_all add: COUNTS_def)

text \<open>The number of data codewords of a version at a level.\<close>

definition level :: "int \<Rightarrow> bool" where
  "level error_correction \<longleftrightarrow> error_correction \<in> {0, 1, 2, 3}"

definition capacity :: "int \<Rightarrow> nat \<Rightarrow> nat" where
  "capacity ec v = nat (COUNTS ! ((v - 1) * 4 + nat (the (map_of RS_BLOCK_OFFSET ec))))"

lemma offset_of_level: "level ec \<Longrightarrow> \<exists>off. map_of RS_BLOCK_OFFSET ec = Some (int off) \<and> off < 4"
  by (auto simp: level_def RS_BLOCK_OFFSET_def ERROR_CORRECT_L_def ERROR_CORRECT_M_def ERROR_CORRECT_Q_def
      ERROR_CORRECT_H_def intro: exI [of _ 0] exI [of _ 1] exI [of _ 2] exI [of _ 3])

lemma rs_blocks_of_level:
  assumes "level ec" "1 \<le> v" "v \<le> 40"
  obtains blocks where "rs_blocks v ec = Inr blocks" "data_count blocks = capacity ec v" "list_all table_block blocks"
proof -
  obtain off where o': "map_of RS_BLOCK_OFFSET ec = Some (int off)" "off < 4" using offset_of_level [OF assms(1)] by auto
  let ?row = "RS_BLOCK_TABLE ! ((v - 1) * 4 + off)"
  have r: "rs_blocks v ec = Inr (expand_blocks ?row)" using o' by (simp add: rs_blocks_def)
  have i: "(v - 1) * 4 + off < length RS_BLOCK_TABLE" using assms(2,3) o'(2) by (simp add: table_rows)
  then have "list_all (\<lambda>x. 0 \<le> x) ?row" using rows_positive by (simp add: list_all_length)
  then have "sum_list (map snd (expand_blocks ?row)) = map row_count RS_BLOCK_TABLE ! ((v - 1) * 4 + off)"
    using i by (simp add: expand_count)
  then have "data_count (expand_blocks ?row) = capacity ec v" using o' by (simp add: data_count_def capacity_def row_counts)
  then show ?thesis using that [OF r] rs_blocks_table [OF r assms(2,3)] by simp
qed

lemma capacity_bounds:
  assumes "level ec" "1 \<le> v" "v \<le> 40"
  shows "v < 10 \<Longrightarrow> capacity ec v \<le> 232" "v < 27 \<Longrightarrow> capacity ec v \<le> 1370" "9 \<le> capacity ec v" "capacity ec v \<le> 2956"
proof -
  obtain off where o': "map_of RS_BLOCK_OFFSET ec = Some (int off)" "off < 4" using offset_of_level [OF assms(1)] by auto
  let ?i = "(v - 1) * 4 + off"
  have c: "capacity ec v = nat (COUNTS ! ?i)" "?i < length COUNTS" using o' assms(2,3) by (simp_all add: capacity_def counts_length)
  then show "9 \<le> capacity ec v" "capacity ec v \<le> 2956" using counts_bound(3) by (auto simp: list_all_length)
  have "?i < 36" if "v < 10" using that o'(2) assms(2) by linarith
  then show "capacity ec v \<le> 232" if "v < 10" using that counts_bound(1) c by (auto simp: list_all_length counts_length)
  have "?i < 104" if "v < 27" using that o'(2) assms(2) by linarith
  then show "capacity ec v \<le> 1370" if "v < 27" using that counts_bound(2) c by (auto simp: list_all_length counts_length)
qed

lemma capacity_Suc:
  assumes "level ec" "1 \<le> v" "v < 40"
  shows "capacity ec v < capacity ec (Suc v)"
proof -
  obtain off where o': "map_of RS_BLOCK_OFFSET ec = Some (int off)" "off < 4" using offset_of_level [OF assms(1)] by auto
  let ?i = "(v - 1) * 4 + off"
  have i: "?i < 156" "Suc v - 1 = Suc (v - 1)" using o' assms(2,3) by linarith+
  have "COUNTS ! ?i < (drop 4 COUNTS @ [3000, 3000, 3000, 3000]) ! ?i"
    by (rule list_all2_nthD [OF counts_increase]) (use i in \<open>simp add: counts_length\<close>)
  then have "COUNTS ! ?i < COUNTS ! (4 + ?i)" using i by (simp add: nth_append counts_length)
  moreover have "9 \<le> COUNTS ! ?i" using counts_bound(3) i by (simp add: list_all_length counts_length)
  ultimately show ?thesis using o' i by (simp add: capacity_def algebra_simps)
qed

lemma capacity_mono: "level ec \<Longrightarrow> 1 \<le> u \<Longrightarrow> u + n \<le> 40 \<Longrightarrow> capacity ec u \<le> capacity ec (u + n)"
proof (induction n)
  case (Suc n)
  then show ?case using capacity_Suc [of ec "u + n"] by simp
qed simp

lemma limit_table:
  assumes "level ec"
  shows "length (BIT_LIMIT_TABLE ! nat ec) = 41" "BIT_LIMIT_TABLE ! nat ec ! 0 = 0"
    "1 \<le> v \<Longrightarrow> v \<le> 40 \<Longrightarrow> BIT_LIMIT_TABLE ! nat ec ! v = 8 * capacity ec v"
proof -
  let ?f = "\<lambda>version. case rs_blocks version ec of Inl _ \<Rightarrow> 0 | Inr blocks \<Rightarrow> 8 * data_count blocks"
  have "nat ec < 4" "int (nat ec) = ec" using assms by (auto simp: level_def)
  then have t: "BIT_LIMIT_TABLE ! nat ec = 0 # map ?f [1..<41]"
    unfolding BIT_LIMIT_TABLE_def by (subst nth_map) (simp_all del: upt_rec_numeral)
  then show "length (BIT_LIMIT_TABLE ! nat ec) = 41" "BIT_LIMIT_TABLE ! nat ec ! 0 = 0" by (simp_all del: upt_rec_numeral)
  assume v: "1 \<le> v" "v \<le> 40"
  obtain blocks where "rs_blocks v ec = Inr blocks" "data_count blocks = capacity ec v"
    using rs_blocks_of_level [OF assms v] by metis
  then show "BIT_LIMIT_TABLE ! nat ec ! v = 8 * capacity ec v"
    using v by (simp add: t nth_Cons' del: upt_rec_numeral)
qed

lemma limits_sorted:
  assumes "level ec" "i \<le> j" "j < 41"
  shows "BIT_LIMIT_TABLE ! nat ec ! i \<le> BIT_LIMIT_TABLE ! nat ec ! j"
proof (cases "i = 0")
  case False
  then show ?thesis using limit_table(3) [OF assms(1)] capacity_mono [OF assms(1), of i "j - i"] assms(2,3) by simp
qed (simp add: limit_table [OF assms(1)])

section \<open>The smallest version\<close>

lemma bisect_loop_least:
  assumes "\<And>i j. i \<le> j \<Longrightarrow> j < n \<Longrightarrow> a ! i \<le> a ! j" "lo \<le> hi" "hi \<le> n"
  shows "bisect_loop a x lo hi \<le> hi \<and> (\<forall>i. lo \<le> i \<and> i < bisect_loop a x lo hi \<longrightarrow> a ! i < x)
    \<and> (\<forall>i. bisect_loop a x lo hi \<le> i \<and> i < hi \<longrightarrow> x \<le> a ! i)"
  using assms(2,3)
proof (induction "hi - lo" arbitrary: lo hi rule: less_induct)
  case less
  show ?case
  proof (cases "lo < hi")
    case True
    let ?m = "(lo + hi) div 2"
    have m: "lo \<le> ?m" "?m < hi" using True by auto
    show ?thesis
    proof (cases "a ! ?m < x")
      case a: True
      have e: "bisect_loop a x lo hi = bisect_loop a x (?m + 1) hi" using True a by (subst bisect_loop.simps) (simp add: Let_def)
      have "a ! i < x" if "i \<le> ?m" for i using assms(1) [OF that] m less.prems a by fastforce
      then show ?thesis using less.hyps [of hi "?m + 1"] m less.prems True unfolding e
        by (metis Suc_eq_plus1 Suc_leI diff_less_mono2 le_imp_less_Suc not_less_eq_eq)
    next
      case a: False
      have e: "bisect_loop a x lo hi = bisect_loop a x lo ?m" using True a by (subst bisect_loop.simps) (simp add: Let_def)
      have "x \<le> a ! i" if "?m \<le> i" "i < hi" for i using assms(1) [OF that(1)] that less.prems a by fastforce
      moreover have "bisect_loop a x lo ?m \<le> ?m \<and> (\<forall>i. lo \<le> i \<and> i < bisect_loop a x lo ?m \<longrightarrow> a ! i < x)
        \<and> (\<forall>i. bisect_loop a x lo ?m \<le> i \<and> i < ?m \<longrightarrow> x \<le> a ! i)"
        by (rule less.hyps) (use m less.prems in auto)
      ultimately show ?thesis unfolding e using m by (meson le_trans less_imp_le not_le)
    qed
  next
    case False
    then show ?thesis using less.prems by (subst (1 2 3) bisect_loop.simps) auto
  qed
qed

definition fits :: "int \<Rightarrow> qr_data list \<Rightarrow> nat \<Rightarrow> bool" where
  "fits ec ds v \<longleftrightarrow> length (text_bits (mode_sizes_for_version v) ds) \<le> 8 * capacity ec v"

lemma text_bits_mono:
  assumes "u \<le> v" "list_all good_data ds"
  shows "length (text_bits (mode_sizes_for_version u) ds) \<le> length (text_bits (mode_sizes_for_version v) ds)"
  using assms(2)
proof (induction ds)
  case (Cons d ds)
  then have "the (map_of (mode_sizes_for_version u) (qd_mode d)) \<le> the (map_of (mode_sizes_for_version v) (qd_mode d))"
    using good_mode [of d] assms(1) by (auto simp: mode_sizes_for_version_def mode_sizes modes)
  then show ?case using Cons by (simp add: text_bits_def segment_bits_def)
qed (simp add: text_bits_def)

lemma written:
  assumes "list_all good_data ds" "1 \<le> v" "v \<le> 40"
  obtains b where "write_segments (mode_width (mode_sizes_for_version v)) ds new_buffer = Inr b"
    "write_segments (\<lambda>mode. length_in_bits mode v) ds new_buffer = Inr b" "rep b (text_bits (mode_sizes_for_version v) ds)"
proof -
  have w: "write_segments f ds b = write_segments g ds b" if "\<And>d. d \<in> set ds \<Longrightarrow> f (qd_mode d) = g (qd_mode d)" for f g b
    using that by (induction ds arbitrary: b) (auto split: sum.splits)
  have g: "good_data d" if "d \<in> set ds" for d using assms(1) that by (simp add: list_all_iff)
  obtain b where "write_segments (mode_width (mode_sizes_for_version v)) ds new_buffer = Inr b"
    "rep b (text_bits (mode_sizes_for_version v) ds)"
    using write_segments_rep [where b = new_buffer and bs = "[]" and ds = ds and width = "mode_width (mode_sizes_for_version v)" and sizes = "mode_sizes_for_version v"]
      g lengths_of_version(2) [OF _ assms(2,3)] rep_new by auto
  moreover have "write_segments (\<lambda>mode. length_in_bits mode v) ds new_buffer = write_segments (mode_width (mode_sizes_for_version v)) ds new_buffer"
    by (rule w) (simp add: lengths_of_version [OF g assms(2,3)])
  ultimately show ?thesis using that by simp
qed

lemma best_fit_least:
  assumes "level ec" "list_all good_data ds" "1 \<le> start" "start \<le> 40" "\<And>u. 1 \<le> u \<Longrightarrow> u < start \<Longrightarrow> \<not> fits ec ds u"
  shows "case best_fit ec ds start of
      Inl e \<Rightarrow> e = ValueError \<and> (\<forall>u. 1 \<le> u \<and> u \<le> 40 \<longrightarrow> \<not> fits ec ds u)
    | Inr v \<Rightarrow> 1 \<le> v \<and> v \<le> 40 \<and> fits ec ds v \<and> (\<forall>u. 1 \<le> u \<and> u < v \<longrightarrow> \<not> fits ec ds u)"
  using assms(3-5)
proof (induction "41 - start" arbitrary: start rule: less_induct)
  case less
  let ?t = "BIT_LIMIT_TABLE ! nat ec"
  obtain b where b: "write_segments (mode_width (mode_sizes_for_version start)) ds new_buffer = Inr b"
    "rep b (text_bits (mode_sizes_for_version start) ds)"
    using written [OF assms(2) less.prems(1,2)] by metis
  let ?len = "length (text_bits (mode_sizes_for_version start) ds)"
  have len: "bb_length b = ?len" by (rule rep_length [OF b(2)])
  define v where "v = bisect_left ?t ?len start"
  have v: "start \<le> v" "v \<le> 41" "\<And>i. start \<le> i \<Longrightarrow> i < v \<Longrightarrow> ?t ! i < ?len" "\<And>i. v \<le> i \<Longrightarrow> i < 41 \<Longrightarrow> ?len \<le> ?t ! i"
    using bisect_loop_least [of 41 ?t start 41 ?len] limits_sorted [OF assms(1)] less.prems(2)
      bisect_lower [of start ?t ?len 41] limit_table(1) [OF assms(1)]
    by (auto simp: v_def bisect_left_def)
  have low: "\<not> fits ec ds u" if "1 \<le> u" "u < v" for u
  proof (cases "u < start")
    case False
    then have "8 * capacity ec u < ?len" using v(2) v(3) [of u] that limit_table(3) [OF assms(1), of u] by simp
    then show ?thesis using text_bits_mono [of start u, OF _ assms(2)] False by (simp add: fits_def)
  qed (use less.prems(3) that in simp)
  have unfold: "best_fit ec ds start = (case check_version v of Inl e \<Rightarrow> Inl e | Inr _ \<Rightarrow>
      (if v = 41 then Inl DataOverflowError
       else if mode_sizes_for_version start \<noteq> mode_sizes_for_version v then best_fit ec ds v else Inr v))"
    using b(1) less.prems(1,2) by (subst best_fit.simps) (simp add: check_version_def len v_def Let_def)
  show ?case
  proof (cases "v = 41")
    case True
    then show ?thesis using low unfolding unfold by (simp add: check_version_def)
  next
    case False
    then have v40: "1 \<le> v" "v \<le> 40" using v(1,2) less.prems(1) by simp_all
    show ?thesis
    proof (cases "mode_sizes_for_version start = mode_sizes_for_version v")
      case True
      then have "fits ec ds v" using v(4) [of v] v40 limit_table(3) [OF assms(1) v40] by (simp add: fits_def)
      then show ?thesis using True v40 low unfolding unfold by (simp add: check_version_def)
    next
      case sz: False
      then have "start < v" using v(1) by (cases "start = v") auto
      then have "41 - v < 41 - start" using v40 by simp
      from less.hyps [OF this v40 low] show ?thesis using sz v40 unfolding unfold by (simp add: check_version_def)
    qed
  qed
qed

end
