(* ===== verification/QrText.thy ===== *)
theory QrText
  imports QrFit
begin

text \<open>
  The codewords of a text, from one end to the other: the segments fit the version that \<open>best_fit\<close> chooses,
  and the interleaved codewords of \<open>create_data\<close> give the text back to a reader who knows the version.
\<close>

section \<open>Interleaved blocks\<close>

definition column :: "nat \<Rightarrow> int list list \<Rightarrow> int list" where
  "column i bs = concat (map (\<lambda>b. if i < length b then [b ! i] else []) bs)"

definition columns :: "nat \<Rightarrow> int list list \<Rightarrow> int list" where
  "columns n bs = concat (map (\<lambda>i. column i bs) [0..<n])"

text \<open>The reader takes a codeword for every block that still has one, as long as there is such a block.\<close>

fun attach :: "int list \<Rightarrow> nat list \<Rightarrow> int list list \<Rightarrow> int list list" where
  "attach hs (0 # ls) (r # rs) = r # attach hs ls rs"
| "attach (h # hs) (Suc l # ls) (r # rs) = (h # r) # attach hs ls rs"
| "attach _ _ _ = []"

fun deal :: "nat \<Rightarrow> nat list \<Rightarrow> int list \<Rightarrow> int list list" where
  "deal 0 ls ws = map (\<lambda>_. []) ls"
| "deal (Suc n) ls ws =
    (let k = length (filter (\<lambda>l. 0 < l) ls)
     in attach (take k ws) ls (deal n (map (\<lambda>l. l - 1) ls) (drop k ws)))"

definition read_codewords :: "rs_block list \<Rightarrow> int list \<Rightarrow> int list" where
  "read_codewords blocks ws =
    (let ls = map (nat \<circ> snd) blocks in concat (deal (fold (\<lambda>l m. max m l) ls 0) ls ws))"

lemma column_Suc: "column (Suc i) bs = column i (map tl bs)"
  by (induction bs) (auto simp: column_def nth_tl)

lemma columns_Suc: "columns (Suc n) bs = column 0 bs @ columns n (map tl bs)"
proof -
  have "map (\<lambda>i. column i bs) [0..<Suc n] = column 0 bs # map (\<lambda>i. column (Suc i) bs) [0..<n]"
    by (simp only: upt_conv_Cons [of 0 "Suc n"] map_Suc_upt [symmetric]) simp
  then show ?thesis by (simp add: columns_def column_Suc)
qed

lemma column_heads: "column 0 bs = map hd (filter (\<lambda>b. b \<noteq> []) bs)"
  by (induction bs) (auto simp: column_def hd_conv_nth)

lemma attach_heads: "attach (map hd (filter (\<lambda>b. b \<noteq> []) bs)) (map length bs) (map tl bs) = bs"
proof (induction bs)
  case (Cons b bs)
  then show ?case by (cases b) simp_all
qed simp

lemma deal_columns: "list_all (\<lambda>b. length b \<le> n) bs \<Longrightarrow> deal n (map length bs) (columns n bs @ r) = bs"
proof (induction n arbitrary: bs)
  case 0
  then show ?case by (induction bs) simp_all
next
  case (Suc n)
  have k: "length (filter (\<lambda>l. 0 < l) (map length bs)) = length (column 0 bs)"
    by (simp add: column_heads filter_map comp_def)
  have "deal n (map length (map tl bs)) (columns n (map tl bs) @ r) = map tl bs"
    by (rule Suc.IH) (use Suc.prems in \<open>auto simp: list_all_iff\<close>)
  moreover have "map (\<lambda>l. l - 1) (map length bs) = map length (map tl bs)" by simp
  ultimately show ?case by (simp add: columns_Suc k Let_def comp_def column_heads attach_heads)
qed

lemma length_columns: "list_all (\<lambda>b. length b \<le> n) bs \<Longrightarrow> length (columns n bs) = sum_list (map length bs)"
proof (induction n arbitrary: bs)
  case 0
  then show ?case by (induction bs) (simp_all add: columns_def)
next
  case (Suc n)
  have "length (column 0 bs) + sum_list (map length (map tl bs)) = sum_list (map length bs)"
  proof (induction bs)
    case (Cons b bs)
    then show ?case by (cases b) (simp_all add: column_def)
  qed (simp add: column_def)
  moreover have "length (columns n (map tl bs)) = sum_list (map length (map tl bs))"
    by (rule Suc.IH) (use Suc.prems in \<open>auto simp: list_all_iff\<close>)
  ultimately show ?case by (simp add: columns_Suc)
qed

lemma set_columns: "set (columns n bs) \<subseteq> (\<Union>b \<in> set bs. set b)"
proof -
  have "set (column i bs) \<subseteq> (\<Union>b \<in> set bs. set b)" for i by (induction bs) (auto simp: column_def)
  then show ?thesis unfolding columns_def set_concat set_map by blast
qed

lemma fold_max: "a \<le> fold (\<lambda>l m. max m l) ls (a :: nat) \<and> list_all (\<lambda>l. l \<le> fold (\<lambda>l m. max m l) ls a) ls"
proof (induction ls arbitrary: a)
  case (Cons l ls)
  from Cons [of "max a l"] show ?case by (auto simp: list_all_iff)
qed simp

lemma interleave_columns: "interleave bs = columns (fold (\<lambda>l m. max m l) (map length bs) 0) bs"
  by (simp add: interleave_def columns_def column_def fold_map comp_def)

lemma length_interleave: "length (interleave bs) = sum_list (map length bs)"
proof -
  have "list_all (\<lambda>b. length b \<le> fold (\<lambda>l m. max m l) (map length bs) 0) bs"
    using conjunct2 [OF fold_max [of 0 "map length bs"]] by (simp only: list.pred_map comp_def)
  then show ?thesis unfolding interleave_columns by (rule length_columns)
qed

lemma elems_interleave: "list_all elems bs \<Longrightarrow> elems (interleave bs)"
  unfolding interleave_columns elems_def list_all_iff using set_columns by blast

section \<open>The codewords of all blocks\<close>

fun cut :: "nat list \<Rightarrow> 'a list \<Rightarrow> 'a list list" where
  "cut [] xs = []"
| "cut (l # ls) xs = take l xs # cut ls (drop l xs)"

lemma concat_cut: "sum_list ls = length xs \<Longrightarrow> concat (cut ls xs) = xs"
  by (induction ls xs rule: cut.induct) simp_all

lemma length_cut: "sum_list ls \<le> length xs \<Longrightarrow> map length (cut ls xs) = ls"
  by (induction ls xs rule: cut.induct) simp_all

definition zero_block :: "rs_block list \<Rightarrow> int list \<Rightarrow> bool" where
  "zero_block blocks buf \<longleftrightarrow> list_ex (list_all (\<lambda>c. c = 0)) (cut (map (nat \<circ> snd) blocks) buf)"

lemma bytes_kept: "elems buf \<Longrightarrow> i < length buf \<Longrightarrow> and (255 :: int) (buf ! i) = buf ! i"
proof -
  assume "elems buf" "i < length buf"
  then have "0 \<le> buf ! i" "buf ! i < 2 ^ 8" by (auto simp: elems_def list_all_length is_elem_def)
  then have "take_bit 8 (buf ! i) = buf ! i" by (simp only: take_bit_int_eq_self)
  moreover have "(255 :: int) = mask 8" by (simp add: mask_eq_exp_minus_1)
  ultimately show ?thesis by (simp add: take_bit_eq_mask and.commute)
qed

lemma data_slice:
  assumes "elems buf" "off + n \<le> length buf"
  shows "map (\<lambda>i. and 255 (buf ! (i + off))) [0..<n] = take n (drop off buf)"
  by (rule nth_equalityI) (use assms in \<open>auto simp: bytes_kept add.commute\<close>)

text \<open>The loop over the blocks fails at the first block of zeros, and else gives the slices of the buffer and their error correction.\<close>

lemma all_codewords_result:
  assumes "rs_blocks v ec = Inr blocks" "1 \<le> v" "v \<le> 40" "elems buf"
    and "set bs \<subseteq> set blocks" "off + sum_list (map (nat \<circ> snd) bs) \<le> length buf"
  shows "if list_ex (list_all (\<lambda>c. c = 0)) (cut (map (nat \<circ> snd) bs) (drop off buf)) then all_codewords buf off bs = Inl ValueError
    else \<exists>cws. all_codewords buf off bs = Inr cws \<and> map fst cws = cut (map (nat \<circ> snd) bs) (drop off buf)
      \<and> map (\<lambda>(dc, e). int (length (dc @ e))) cws = map fst bs \<and> list_all (\<lambda>(dc, e). elems dc \<and> elems e) cws"
  using assms(5,6)
proof (induction bs arbitrary: off)
  case (Cons b bs)
  obtain tot data where b: "b = (tot, data)" by (cases b)
  let ?n = "nat data"
  have fit: "off + ?n \<le> length buf" "off + ?n + sum_list (map (nat \<circ> snd) bs) \<le> length buf" using Cons.prems(2) b by (simp_all add: comp_def)
  have "(tot, data) \<in> set blocks" using Cons.prems(1) b by simp
  note r = block_codewords_result [OF assms(1-3) this fit(1) refl, unfolded data_slice [OF assms(4) fit(1)]]
  note IH = Cons.IH [of "off + ?n", OF _ fit(2)]
  have sub: "set bs \<subseteq> set blocks" using Cons.prems(1) by simp
  have d: "drop (off + ?n) buf = drop ?n (drop off buf)" by (simp add: add.commute)
  show ?case
  proof (cases "list_all (\<lambda>c. c = 0) (take ?n (drop off buf))")
    case True
    then show ?thesis using r by (simp add: b)
  next
    case False
    then obtain e where e: "block_codewords buf off (tot, data) = Inr (take ?n (drop off buf), e)"
      "int (length (take ?n (drop off buf) @ e)) = tot" "elems (take ?n (drop off buf)) \<and> elems e"
      using r by auto
    show ?thesis using IH [OF sub] False e unfolding b d by (auto simp: b comp_def)
  qed
qed simp

lemma data_count_sum: "list_all table_block blocks \<Longrightarrow> sum_list (map (nat \<circ> snd) blocks) = data_count blocks"
proof (induction blocks)
  case (Cons b bs)
  have "0 \<le> snd b" using Cons.prems by (simp add: table_block_def)
  moreover have "0 \<le> sum_list (map snd bs)"
    by (rule sum_list_nonneg) (use Cons.prems in \<open>fastforce simp: table_block_def list_all_iff\<close>)
  ultimately show ?case using Cons by (simp add: data_count_def nat_add_distrib)
qed (simp add: data_count_def)

lemma create_bytes_result:
  assumes r: "rs_blocks v ec = Inr blocks" "1 \<le> v" "v \<le> 40" and buf: "elems buf" "length buf = data_count blocks"
  shows "if zero_block blocks buf then create_bytes buf blocks = Inl ValueError
    else \<exists>ws. create_bytes buf blocks = Inr ws \<and> read_codewords blocks ws = buf
      \<and> elems ws \<and> int (length ws) = sum_list (map fst blocks)"
proof -
  let ?ls = "map (nat \<circ> snd) blocks"
  have s: "sum_list ?ls = length buf" using data_count_sum rs_blocks_table [OF r] buf(2) by simp
  note a = all_codewords_result [OF r buf(1) order_refl, of 0]
  show ?thesis
  proof (cases "zero_block blocks buf")
    case True
    then show ?thesis using a s by (simp add: zero_block_def create_bytes_def)
  next
    case False
    then obtain cws where c: "all_codewords buf 0 blocks = Inr cws" "map fst cws = cut ?ls buf"
      and t: "map (\<lambda>(dc, e). int (length (dc @ e))) cws = map fst blocks" "list_all (\<lambda>(dc, e). elems dc \<and> elems e) cws"
      using a s by (auto simp: zero_block_def)
    let ?ws = "interleave (map fst cws) @ interleave (map snd cws)"
    have l: "map length (map fst cws) = ?ls" using length_cut [of ?ls buf] s by (simp only: c(2) order_refl)
    let ?m = "fold (\<lambda>l m. max m l) ?ls 0"
    have "list_all (\<lambda>l. l \<le> ?m) (map length (map fst cws))" unfolding l using fold_max [of 0 ?ls] by (rule conjunct2)
    then have "list_all (\<lambda>b. length b \<le> ?m) (map fst cws)" by (simp only: list.pred_map comp_def)
    from deal_columns [OF this, of "interleave (map snd cws)"]
    have "deal ?m ?ls ?ws = map fst cws" by (simp only: interleave_columns [of "map fst cws"] l)
    then have "read_codewords blocks ?ws = buf" by (simp only: read_codewords_def Let_def c(2) concat_cut [OF s])
    moreover have "list_all elems (map fst cws)" "list_all elems (map snd cws)" using t(2) by (fastforce simp: list_all_iff)+
    then have "elems ?ws" by (simp add: elems_interleave)
    moreover have "int (length ?ws) = sum_list (map (\<lambda>(dc, e). int (length (dc @ e))) cws)"
      unfolding length_append length_interleave by (induction cws) auto
    ultimately show ?thesis using False c(1) t(1) by (simp add: create_bytes_def)
  qed
qed

section \<open>Reading the segments\<close>

lemma number_bits_length: "10 * length s \<le> 3 * length (number_bits s)"
proof (induction "length s" arbitrary: s rule: less_induct)
  case less
  show ?case
  proof (cases s)
    case (Cons c t)
    have l: "length (number_bits s) = number_width (length s) + length (number_bits (drop 3 s))"
      using Cons by (simp del: take_Suc_Cons drop_Suc_Cons)
    have IH: "10 * (length s - 3) \<le> 3 * length (number_bits (drop 3 s))" using less [of "drop 3 s"] Cons by simp
    consider "length s = 1" | "length s = 2" | "3 \<le> length s" using Cons by (cases "length t"; cases "length t - 1") auto
    then show ?thesis using IH by cases (simp_all add: l number_width_def)
  qed simp
qed

lemma alnum_bits_length: "11 * length s \<le> 2 * length (alnum_bits s)"
  by (induction s rule: alnum_bits.induct) simp_all

lemma length_field_fits:
  assumes "good_data d" "level ec" "1 \<le> v" "v \<le> 40" "length (data_bits d) \<le> 8 * capacity ec v"
  shows "length (qd_data d) < 2 ^ the (map_of (mode_sizes_for_version v) (qd_mode d))"
proof -
  note cap = capacity_bounds [OF assms(2-4)]
  have b: "length (concat (map (\<lambda>c. num_bits (int (code c)) 8) s)) = 8 * length s" for s by (induction s) simp_all
  let ?n = "length (qd_data d)" and ?c = "capacity ec v"
  have D: "qd_mode d = MODE_NUMBER \<and> 10 * ?n \<le> 24 * ?c \<or> qd_mode d = MODE_ALPHA_NUM \<and> 11 * ?n \<le> 16 * ?c
      \<or> qd_mode d = MODE_8BIT_BYTE \<and> ?n \<le> ?c"
    using assms(5) number_bits_length [of "qd_data d"] alnum_bits_length [of "qd_data d"] b [of "qd_data d"] good_mode [OF assms(1)]
    by (auto simp: data_bits_def modes)
  consider "v < 10" "?c \<le> 232" | "\<not> v < 10" "v < 27" "?c \<le> 1370" | "\<not> v < 10" "\<not> v < 27" "?c \<le> 2956"
    using cap by linarith
  then show ?thesis using D by cases (elim disjE conjE; simp add: mode_sizes_for_version_def mode_sizes modes)+
qed

lemma read_segments:
  assumes "list_all good_data ds" "\<And>d. d \<in> set ds \<Longrightarrow> length (qd_data d) < 2 ^ the (map_of (mode_sizes_for_version v) (qd_mode d))"
    and "4 \<le> z \<or> z < 4 \<and> ps = []"
  shows "read_text v (text_bits (mode_sizes_for_version v) ds @ replicate z False @ ps) = Some (concat (map qd_data ds))"
  using assms(1,2)
proof (induction ds)
  case Nil
  have "nat_of_bits (replicate k False) = 0" for k by (induction k) simp_all
  then have "field_of 4 (replicate z False @ ps) = None \<or> (\<exists>r. field_of 4 (replicate z False @ ps) = Some (0, r))"
    using assms(3) by (auto simp: field_of_def)
  then show ?case by (auto simp: text_bits_def read_text.simps)
next
  case (Cons d ds)
  obtain w where w: "map_of (mode_sizes_for_version v) (qd_mode d) = Some w" using sizes_known [OF Cons.prems(1) [simplified, THEN conjunct1]] by blast
  let ?rest = "text_bits (mode_sizes_for_version v) ds @ replicate z False @ ps"
  have g: "good_data d" and n: "length (qd_data d) < 2 ^ w" using Cons.prems w by fastforce+
  obtain m where m: "qd_mode d = int m" "m < 2 ^ 4" "m \<noteq> 0" using good_mode [OF g] by (auto simp: modes)
  have e: "text_bits (mode_sizes_for_version v) (d # ds) @ replicate z False @ ps
      = num_bits (int m) 4 @ num_bits (int (length (qd_data d))) w @ data_bits d @ ?rest"
    using w by (simp add: text_bits_def segment_bits_def m(1))
  have "read_text v ?rest = Some (concat (map qd_data ds))" using Cons by simp
  then show ?case
    unfolding e using w read_data_bits [OF g, of ?rest] m(3)
    by (subst read_text.simps) (simp add: field_num_bits [OF m(2)] field_num_bits [OF n] m(1))
qed

section \<open>From the text to its codewords and back\<close>

text \<open>The buffer of a text that fits, and what \<open>create_data\<close> makes of it.\<close>

lemma create_data_cases:
  assumes "level ec" "list_all good_data ds" "1 \<le> v" "v \<le> 40" "rs_blocks v ec = Inr blocks"
  shows "if fits ec ds v
    then \<exists>buf. read_text v (concat (map byte_bits buf)) = Some (concat (map qd_data ds))
      \<and> (if zero_block blocks buf then create_data v ec ds = Inl ValueError
         else \<exists>ws. create_data v ec ds = Inr ws \<and> read_codewords blocks ws = buf
           \<and> elems ws \<and> int (length ws) = sum_list (map fst blocks))
    else create_data v ec ds = Inl DataOverflowError"
proof -
  let ?bits = "text_bits (mode_sizes_for_version v) ds" and ?n = "data_count blocks"
  obtain b where b: "write_segments (\<lambda>mode. length_in_bits mode v) ds new_buffer = Inr b" "rep b ?bits"
    using written [OF assms(2-4)] by metis
  have cap: "?n = capacity ec v" using rs_blocks_of_level [OF assms(1,3,4)] assms(5) by (metis sum.inject(2))
  have len: "bb_length b = length ?bits" by (rule rep_length [OF b(2)])
  show ?thesis
  proof (cases "fits ec ds v")
    case False
    then show ?thesis using b(1) assms(5) by (simp add: create_data_def fits_def cap len)
  next
    case True
    then have fit: "length ?bits \<le> 8 * ?n" by (simp add: fits_def cap)
    let ?f = "fill_bytes (8 * ?n) (delimit_bits (terminate_bits (8 * ?n) b))"
    obtain z ps where f: "rep ?f (?bits @ replicate z False @ ps)" "length ?bits + z + length ps = 8 * ?n" "4 \<le> z \<or> z < 4 \<and> ps = []"
      using padded_rep [OF b(2) fit] by auto
    have l: "length (?bits @ replicate z False @ ps) = 8 * ?n" using f(2) by simp
    have buf: "elems (bb_buffer ?f)" "length (bb_buffer ?f) = ?n"
      using f(1) unfolding rep_def l by simp_all
    then have bits: "concat (map byte_bits (bb_buffer ?f)) = ?bits @ replicate z False @ ps" using f(1) unfolding rep_def l by simp
    have "length (qd_data d) < 2 ^ the (map_of (mode_sizes_for_version v) (qd_mode d))" if d: "d \<in> set ds" for d
    proof (rule length_field_fits)
      show "good_data d" using assms(2) d by (simp add: list_all_iff)
      have "length (data_bits d) \<le> length ?bits" using d by (induction ds) (auto simp: text_bits_def segment_bits_def)
      then show "length (data_bits d) \<le> 8 * capacity ec v" using fit cap by simp
    qed (fact assms)+
    from read_segments [OF assms(2) this f(3)]
    have "read_text v (concat (map byte_bits (bb_buffer ?f))) = Some (concat (map qd_data ds))" unfolding bits .
    moreover have "create_data v ec ds = create_bytes (bb_buffer ?f) blocks"
      using b(1) assms(5) fit by (simp add: create_data_def len Let_def)
    ultimately show ?thesis using True create_bytes_result [OF assms(5,3,4) buf] by auto
  qed
qed

lemma overflow_iff:
  assumes "level ec" "list_all good_data ds" "1 \<le> v" "v \<le> 40"
  shows "create_data v ec ds = Inl DataOverflowError \<longleftrightarrow> \<not> fits ec ds v"
proof -
  obtain blocks where "rs_blocks v ec = Inr blocks" using rs_blocks_of_level [OF assms(1,3,4)] by metis
  from create_data_cases [OF assms this] show ?thesis by (auto split: if_splits)
qed

text \<open>
  C33. \<open>smallest_version_chosen\<close>: from version 1 on, \<open>best_fit\<close> answers the smallest of the forty versions
  at which \<open>create_data\<close> does not overflow, however the length fields grow on the way; if it overflows at
  all of them the setter of the version refuses 41, with a ValueError, before the DataOverflowError.
\<close>
theorem smallest_version_chosen:
  assumes "level error_correction" "list_all good_data data_list"
  shows "case best_fit error_correction data_list 1 of
      Inl e \<Rightarrow> e = ValueError \<and> (\<forall>u \<in> {1..40}. create_data u error_correction data_list = Inl DataOverflowError)
    | Inr v \<Rightarrow> v \<in> {1..40} \<and> create_data v error_correction data_list \<noteq> Inl DataOverflowError
        \<and> (\<forall>u \<in> {1..<v}. create_data u error_correction data_list = Inl DataOverflowError)"
  using best_fit_least [OF assms order_refl] overflow_iff [OF assms] by (auto split: sum.splits)

text \<open>
  The codewords made for the segments of a text, at the version chosen for it, give
  that text back to a reader who undoes the interleaving and knows the version; the only refusal is a block
  whose data is all zero.
\<close>
lemma text_read_back:
  assumes "level error_correction" "best_fit error_correction (optimal_data_chunks t minimum) 1 = Inr v"
    and "rs_blocks v error_correction = Inr blocks"
  shows "\<exists>buf. read_text v (concat (map byte_bits buf)) = Some t
    \<and> (if zero_block blocks buf then create_data v error_correction (optimal_data_chunks t minimum) = Inl ValueError
       else \<exists>ws. create_data v error_correction (optimal_data_chunks t minimum) = Inr ws \<and> read_codewords blocks ws = buf)"
proof -
  let ?ds = "optimal_data_chunks t minimum"
  have g: "list_all good_data ?ds" using chunks_good by (auto simp: list_all_iff)
  have v: "1 \<le> v" "v \<le> 40" "fits error_correction ?ds v"
    using best_fit_least [OF assms(1) g order_refl] assms(2) by auto
  from create_data_cases [OF assms(1) g v(1,2) assms(3)] v(3) show ?thesis
    unfolding chunks_join by (auto split: if_splits)
qed

text \<open>A short text at the level the application uses.\<close>

definition sample_text :: string where "sample_text = ''FIND MY PHONE 42''"

lemma sample_chunks: "optimal_data_chunks sample_text 20 = [\<lparr>qd_data = sample_text, qd_mode = MODE_ALPHA_NUM\<rparr>]"
  by code_simp

lemma sample_good: "list_all good_data (optimal_data_chunks sample_text 20)"
  using chunks_good by (auto simp: list_all_iff)

lemma sample_fits: "fits 0 (optimal_data_chunks sample_text 20) 1"
proof -
  have "length (text_bits (mode_sizes_for_version 1) (optimal_data_chunks sample_text 20)) = 101"
    unfolding sample_chunks
    by (simp add: text_bits_def segment_bits_def data_bits_def mode_sizes_for_version_def mode_sizes modes sample_text_def)
  moreover have "capacity 0 1 = 16"
    by (simp add: capacity_def RS_BLOCK_OFFSET_def ERROR_CORRECT_L_def ERROR_CORRECT_M_def COUNTS_def)
  ultimately show ?thesis by (simp add: fits_def)
qed

lemma sample_level: "level 0"
  by (simp add: level_def)

lemma sample_version: "best_fit 0 (optimal_data_chunks sample_text 20) 1 = Inr 1"
  using best_fit_least [OF sample_level sample_good order_refl] sample_fits
  by (force split: sum.splits)

theorem smallest_version_chosen_witness: "create_data 1 0 (optimal_data_chunks sample_text 20) \<noteq> Inl DataOverflowError"
  using smallest_version_chosen [OF sample_level sample_good]
  by (simp only: sample_version sum.case simp_thms)

end
