(* ===== verification/QrMatrix.thy ===== *)
theory QrMatrix
  imports QrText
begin

text \<open>
  \<open>qml/utilities/qrcode/main.py\<close> and the rest of \<open>qrcode/util.py\<close>: the matrix of a QR code, with its fixed
  patterns, the format and version words and the data in zigzag under a mask. A module is \<open>None\<close> until
  it is set.
\<close>

unbundle bit_operations_syntax

type_synonym modules = "bool option list list"

definition mset :: "nat \<Rightarrow> nat \<Rightarrow> bool option \<Rightarrow> modules \<Rightarrow> modules" where
  "mset r c x m = m[r := (m ! r)[c := x]]"

section \<open>Format and version words\<close>

definition G15 :: int where
  "G15 = push_bit 10 1 OR push_bit 8 1 OR push_bit 5 1 OR push_bit 4 1 OR push_bit 2 1 OR push_bit 1 1 OR push_bit 0 1"

definition G18 :: int where
  "G18 = push_bit 12 1 OR push_bit 11 1 OR push_bit 10 1 OR push_bit 9 1 OR push_bit 8 1 OR push_bit 5 1 OR push_bit 2 1
     OR push_bit 0 1"

definition G15_MASK :: int where
  "G15_MASK = push_bit 14 1 OR push_bit 12 1 OR push_bit 10 1 OR push_bit 4 1 OR push_bit 1 1"

text \<open>The loop over the bits ends for a number that is not negative; the code has no other.\<close>

function BCH_digit :: "int \<Rightarrow> nat" where
  "BCH_digit data = (if data \<le> 0 then 0 else Suc (BCH_digit (drop_bit 1 data)))"
  by pat_completeness auto
termination
  by (relation "measure nat") (auto simp: drop_bit_eq_div)

declare BCH_digit.simps [simp del]

text \<open>The division by the generator; \<open>n\<close> bounds its turns, since each one clears the leading bit.\<close>

fun BCH_loop :: "nat \<Rightarrow> int \<Rightarrow> int \<Rightarrow> int" where
  "BCH_loop 0 g d = d"
| "BCH_loop (Suc n) g d =
    (if BCH_digit g \<le> BCH_digit d then BCH_loop n g (d XOR push_bit (BCH_digit d - BCH_digit g) g) else d)"

text \<open>There are turns enough: the loop ends with fewer bits than the generator has.\<close>

lemma BCH_digit_le: "0 \<le> d \<Longrightarrow> BCH_digit d \<le> k \<longleftrightarrow> d < 2 ^ k"
proof (induction k arbitrary: d)
  case 0
  then show ?case by (subst BCH_digit.simps) auto
next
  case (Suc k)
  show ?case
  proof (cases "d = 0")
    case False
    have "drop_bit 1 d < 2 ^ k \<longleftrightarrow> d < 2 ^ Suc k" by (auto simp: drop_bit_eq_div)
    then show ?thesis using Suc False by (subst BCH_digit.simps) simp
  qed (simp add: BCH_digit.simps)
qed

lemma top_bit: "0 \<le> x \<Longrightarrow> x < 2 ^ Suc m \<Longrightarrow> bit x m \<longleftrightarrow> 2 ^ m \<le> x" for x :: int
proof -
  assume x: "0 \<le> x" "x < 2 ^ Suc m"
  have e: "x = 2 ^ m * of_bool (bit x m) + take_bit m x"
    using take_bit_Suc_from_most [of m x] take_bit_int_eq_self [OF x] by simp
  have b: "0 \<le> take_bit m x" "take_bit m x < 2 ^ m" by simp_all
  show ?thesis
  proof (cases "bit x m")
    case True
    then have "x = 2 ^ m + take_bit m x" using e by simp
    then have "2 ^ m \<le> x" using b by linarith
    then show ?thesis using True by simp
  next
    case False
    then have "x = take_bit m x" using e by simp
    then have "\<not> 2 ^ m \<le> x" using b by linarith
    then show ?thesis using False by simp
  qed
qed

lemma BCH_turn:
  assumes "0 < g" "0 \<le> d" "BCH_digit g \<le> BCH_digit d"
  shows "0 \<le> d XOR push_bit (BCH_digit d - BCH_digit g) g"
    "BCH_digit (d XOR push_bit (BCH_digit d - BCH_digit g) g) < BCH_digit d"
proof -
  let ?e = "push_bit (BCH_digit d - BCH_digit g) g" and ?x = "d XOR push_bit (BCH_digit d - BCH_digit g) g"
  have pos: "0 < BCH_digit g" using assms(1) by (subst BCH_digit.simps) simp
  obtain b where b: "BCH_digit g = Suc b" using pos by (cases "BCH_digit g") auto
  obtain m where m: "BCH_digit d = Suc m" using assms(3) pos by (cases "BCH_digit d") auto
  have bm: "b \<le> m" using assms(3) b m by simp
  have g: "2 ^ b \<le> g" "g < 2 ^ Suc b"
    using BCH_digit_le [of g b] BCH_digit_le [of g "Suc b"] assms(1) b by auto
  have d: "2 ^ m \<le> d" "d < 2 ^ Suc m"
    using BCH_digit_le [of d m] BCH_digit_le [of d "Suc m"] assms(2) m by auto
  have p: "?e = g * 2 ^ (m - b)" by (simp add: push_bit_eq_mult b m)
  have pw: "(2 :: int) ^ m = 2 ^ b * 2 ^ (m - b)" using bm by (simp add: power_add [symmetric])
  have e: "2 ^ m \<le> ?e" "?e < 2 ^ Suc m" unfolding p using g by (simp_all add: pw)
  have e0: "0 \<le> ?e" using assms(1) by simp
  show x0: "0 \<le> ?x" using assms(2) e0 by (simp add: xor_nonnegative_int_iff)
  have x: "?x < 2 ^ Suc m" by (rule XOR_upper [OF assms(2) d(2) e(2)])
  have "bit d m" "bit ?e m" using top_bit [OF assms(2) d(2)] top_bit [OF e0 e(2)] d(1) e(1) by blast+
  then have "\<not> bit ?x m" by (simp only: bit_xor_iff simp_thms)
  then have "?x < 2 ^ m" using top_bit [OF x0 x] by simp
  then show "BCH_digit ?x < BCH_digit d" using BCH_digit_le [OF x0, of m] m by simp
qed

lemma BCH_loop_ends: "0 < g \<Longrightarrow> 0 \<le> d \<Longrightarrow> BCH_digit d \<le> n \<Longrightarrow> BCH_digit (BCH_loop n g d) < BCH_digit g"
proof (induction n arbitrary: d)
  case 0
  moreover have "0 < BCH_digit g" using 0(1) by (subst BCH_digit.simps) simp
  ultimately show ?case by simp
next
  case (Suc n)
  show ?case
  proof (cases "BCH_digit g \<le> BCH_digit d")
    case True
    note t = BCH_turn [OF Suc.prems(1,2) True]
    show ?thesis using Suc.IH [OF Suc.prems(1) t(1)] t(2) Suc.prems(3) True by simp
  qed simp
qed

definition BCH_type_info :: "int \<Rightarrow> int" where
  "BCH_type_info data =
    (let d0 = push_bit 10 data; d = BCH_loop (BCH_digit d0) G15 d0 in (push_bit 10 data OR d) XOR G15_MASK)"

definition BCH_type_number :: "int \<Rightarrow> int" where
  "BCH_type_number data =
    (let d0 = push_bit 12 data; d = BCH_loop (BCH_digit d0) G18 d0 in push_bit 12 data OR d)"

definition PATTERN_POSITION_TABLE :: "nat list list" where
  "PATTERN_POSITION_TABLE = [
    [],
    [6, 18],
    [6, 22],
    [6, 26],
    [6, 30],
    [6, 34],
    [6, 22, 38],
    [6, 24, 42],
    [6, 26, 46],
    [6, 28, 50],
    [6, 30, 54],
    [6, 32, 58],
    [6, 34, 62],
    [6, 26, 46, 66],
    [6, 26, 48, 70],
    [6, 26, 50, 74],
    [6, 30, 54, 78],
    [6, 30, 56, 82],
    [6, 30, 58, 86],
    [6, 34, 62, 90],
    [6, 28, 50, 72, 94],
    [6, 26, 50, 74, 98],
    [6, 30, 54, 78, 102],
    [6, 28, 54, 80, 106],
    [6, 32, 58, 84, 110],
    [6, 30, 58, 86, 114],
    [6, 34, 62, 90, 118],
    [6, 26, 50, 74, 98, 122],
    [6, 30, 54, 78, 102, 126],
    [6, 26, 52, 78, 104, 130],
    [6, 30, 56, 82, 108, 134],
    [6, 34, 60, 86, 112, 138],
    [6, 30, 58, 86, 114, 142],
    [6, 34, 62, 90, 118, 146],
    [6, 30, 54, 78, 102, 126, 150],
    [6, 24, 50, 76, 102, 128, 154],
    [6, 28, 54, 80, 106, 132, 158],
    [6, 32, 58, 84, 110, 136, 162],
    [6, 26, 54, 82, 110, 138, 166],
    [6, 30, 58, 86, 114, 142, 170]]"

definition pattern_position :: "nat \<Rightarrow> nat list" where
  "pattern_position version = PATTERN_POSITION_TABLE ! (version - 1)"

definition mask_func :: "nat \<Rightarrow> exn + (nat \<Rightarrow> nat \<Rightarrow> bool)" where
  "mask_func pattern =
    (if pattern = 0 then Inr (\<lambda>i j. (i + j) mod 2 = 0)
     else if pattern = 1 then Inr (\<lambda>i j. i mod 2 = 0)
     else if pattern = 2 then Inr (\<lambda>i j. j mod 3 = 0)
     else if pattern = 3 then Inr (\<lambda>i j. (i + j) mod 3 = 0)
     else if pattern = 4 then Inr (\<lambda>i j. (i div 2 + j div 3) mod 2 = 0)
     else if pattern = 5 then Inr (\<lambda>i j. (i * j) mod 2 + (i * j) mod 3 = 0)
     else if pattern = 6 then Inr (\<lambda>i j. ((i * j) mod 2 + (i * j) mod 3) mod 2 = 0)
     else if pattern = 7 then Inr (\<lambda>i j. ((i * j) mod 3 + (i + j) mod 2) mod 2 = 0)
     else Inl TypeError)"

section \<open>The fixed patterns\<close>

definition probe_dark :: "int \<Rightarrow> int \<Rightarrow> bool" where
  "probe_dark r c \<longleftrightarrow> 0 \<le> r \<and> r \<le> 6 \<and> c \<in> {0, 6} \<or> 0 \<le> c \<and> c \<le> 6 \<and> r \<in> {0, 6} \<or> 2 \<le> r \<and> r \<le> 4 \<and> 2 \<le> c \<and> c \<le> 4"

definition setup_position_probe_pattern :: "nat \<Rightarrow> nat \<Rightarrow> nat \<Rightarrow> modules \<Rightarrow> modules" where
  "setup_position_probe_pattern n row col m =
    fold (\<lambda>r m.
        if int row + r \<le> - 1 \<or> int n \<le> int row + r then m
        else fold (\<lambda>c m.
            if int col + c \<le> - 1 \<or> int n \<le> int col + c then m
            else mset (nat (int row + r)) (nat (int col + c)) (Some (probe_dark r c)) m) [- 1..7] m) [- 1..7] m"

definition adjust_dark :: "int \<Rightarrow> int \<Rightarrow> bool" where
  "adjust_dark r c \<longleftrightarrow> r = - 2 \<or> r = 2 \<or> c = - 2 \<or> c = 2 \<or> r = 0 \<and> c = 0"

definition adjust_at :: "nat \<Rightarrow> nat \<Rightarrow> modules \<Rightarrow> modules" where
  "adjust_at row col m =
    (if m ! row ! col \<noteq> None then m
     else fold (\<lambda>r m. fold (\<lambda>c m. mset (nat (int row + r)) (nat (int col + c)) (Some (adjust_dark r c)) m) [- 2..2] m) [- 2..2] m)"

definition setup_position_adjust_pattern :: "nat \<Rightarrow> modules \<Rightarrow> modules" where
  "setup_position_adjust_pattern version m =
    (let pos = pattern_position version in fold (\<lambda>row m. fold (\<lambda>col m. adjust_at row col m) pos m) pos m)"

definition setup_timing_pattern :: "nat \<Rightarrow> modules \<Rightarrow> modules" where
  "setup_timing_pattern n m =
    fold (\<lambda>c m. if m ! 6 ! c \<noteq> None then m else mset 6 c (Some (c mod 2 = 0)) m) [8..<n - 8]
      (fold (\<lambda>r m. if m ! r ! 6 \<noteq> None then m else mset r 6 (Some (r mod 2 = 0)) m) [8..<n - 8] m)"

definition word_bit :: "bool \<Rightarrow> int \<Rightarrow> nat \<Rightarrow> bool" where
  "word_bit test bits i \<longleftrightarrow> \<not> test \<and> drop_bit i bits AND 1 = 1"

definition setup_type_number :: "nat \<Rightarrow> nat \<Rightarrow> bool \<Rightarrow> modules \<Rightarrow> modules" where
  "setup_type_number version n test m =
    (let bits = BCH_type_number (int version)
     in fold (\<lambda>i. mset (i mod 3 + n - 8 - 3) (i div 3) (Some (word_bit test bits i))) [0..<18]
          (fold (\<lambda>i. mset (i div 3) (i mod 3 + n - 8 - 3) (Some (word_bit test bits i))) [0..<18] m))"

definition setup_type_info :: "int \<Rightarrow> nat \<Rightarrow> bool \<Rightarrow> nat \<Rightarrow> modules \<Rightarrow> modules" where
  "setup_type_info error_correction n test mask_pattern m =
    (let bits = BCH_type_info (push_bit 3 error_correction OR int mask_pattern);
         m1 = fold (\<lambda>i. mset (if i < 6 then i else if i < 8 then i + 1 else n - 15 + i) 8 (Some (word_bit test bits i))) [0..<15] m;
         m2 = fold (\<lambda>i. mset 8 (if i < 8 then n - i - 1 else if i < 9 then 15 - i - 1 + 1 else 15 - i - 1)
                (Some (word_bit test bits i))) [0..<15] m1
     in mset (n - 8) 8 (Some (\<not> test)) m2)"

section \<open>The data\<close>

text \<open>One module of the zigzag: the bit, or nothing once the data is used up, turned round by the mask.\<close>

record placing =
  pl_modules :: modules
  pl_bit :: int       \<comment> \<open>\<open>bitIndex\<close>\<close>
  pl_byte :: nat      \<comment> \<open>\<open>byteIndex\<close>\<close>

definition place_module :: "int list \<Rightarrow> (nat \<Rightarrow> nat \<Rightarrow> bool) \<Rightarrow> nat \<Rightarrow> nat \<Rightarrow> placing \<Rightarrow> placing" where
  "place_module data f row c p =
    (if pl_modules p ! row ! c \<noteq> None then p
     else
      let dark = (if pl_byte p < length data then drop_bit (nat (pl_bit p)) (data ! pl_byte p) AND 1 = 1 else False);
          dark' = (if f row c then \<not> dark else dark);
          bit' = pl_bit p - 1
      in if bit' = - 1 then \<lparr>pl_modules = mset row c (Some dark') (pl_modules p), pl_bit = 7, pl_byte = pl_byte p + 1\<rparr>
         else \<lparr>pl_modules = mset row c (Some dark') (pl_modules p), pl_bit = bit', pl_byte = pl_byte p\<rparr>)"

abbreviation step_of :: "bool \<Rightarrow> int" where
  "step_of up \<equiv> (if up then - 1 else 1)"

text \<open>The \<open>while\<close> loop over one pair of columns; \<open>inc\<close> is -1 when it goes up.\<close>

function column_pass :: "nat \<Rightarrow> int list \<Rightarrow> (nat \<Rightarrow> nat \<Rightarrow> bool) \<Rightarrow> nat \<Rightarrow> int \<Rightarrow> bool \<Rightarrow> placing \<Rightarrow> int \<times> bool \<times> placing" where
  "column_pass n data f col row up p =
    (let p' = place_module data f (nat row) (col - 1) (place_module data f (nat row) col p);
         row' = row + step_of up
     in if row' < 0 \<or> int n \<le> row' then (row' - step_of up, \<not> up, p') else column_pass n data f col row' up p')"
  by pat_completeness auto
termination
  by (relation "measure (\<lambda>(n, data, f, col, row, up, p). if up then nat (row + 1) else nat (int n - row))") auto

declare column_pass.simps [simp del]

text \<open>\<open>range(n - 1, 0, -2)\<close>, with the column of the timing pattern left out.\<close>

definition column_list :: "nat \<Rightarrow> nat list" where
  "column_list n = map (\<lambda>k. let col = n - 1 - 2 * k in if col \<le> 6 then col - 1 else col) [0..<n div 2]"

definition qr_map_data :: "nat \<Rightarrow> int list \<Rightarrow> nat \<Rightarrow> modules \<Rightarrow> exn + modules" where
  "qr_map_data n data mask_pattern m =
    (case mask_func mask_pattern of
       Inl e \<Rightarrow> Inl e
     | Inr f \<Rightarrow>
        (case fold (\<lambda>col (row, up, p). column_pass n data f col row up p) (column_list n)
            (int n - 1, True, \<lparr>pl_modules = m, pl_bit = 7, pl_byte = 0\<rparr>) of
           (_, _, p) \<Rightarrow> Inr (pl_modules p)))"

end
