(* ===== verification/QrPenalty.thy ===== *)
theory QrPenalty
  imports Prelude
begin

text \<open>
  \<open>lost_point\<close> of \<open>qml/utilities/qrcode/util.py\<close>: the penalty by which the mask of a QR code is chosen. Two
  of its loops take the next column out of their iterator when it cannot count; beside the code stands
  the plain count of the rules. The modules are all set when the penalty is asked for. Python's
  floats are exact here.
\<close>

section \<open>The code\<close>

type_synonym matrix = "bool list list"

definition column_of :: "matrix \<Rightarrow> nat \<Rightarrow> bool list" where
  "column_of m col = map (\<lambda>row. row ! col) m"

text \<open>One pass over a line, with the color and length of the run so far.\<close>

definition note_run :: "nat \<Rightarrow> nat list \<Rightarrow> nat list" where
  "note_run len container = (if 5 \<le> len then container[len := container ! len + 1] else container)"

fun count_runs :: "bool \<Rightarrow> nat \<Rightarrow> bool list \<Rightarrow> nat list \<Rightarrow> nat list" where
  "count_runs previous len [] container = note_run len container"
| "count_runs previous len (x # xs) container =
    (if x = previous then count_runs previous (len + 1) xs container
     else count_runs x 1 xs (note_run len container))"

definition count_line :: "bool list \<Rightarrow> nat list \<Rightarrow> nat list" where
  "count_line line container = count_runs (line ! 0) 0 line container"

definition lost_point_level1 :: "matrix \<Rightarrow> nat \<Rightarrow> nat" where
  "lost_point_level1 m n =
    (let c0 = replicate (n + 1) 0;
         c1 = fold (\<lambda>row. count_line (m ! row)) [0..<n] c0;
         c2 = fold (\<lambda>col. count_line (column_of m col)) [0..<n] c1
     in \<Sum>len\<leftarrow>[5..<n + 1]. c2 ! len * (len - 2))"

fun level2_row :: "bool list \<Rightarrow> bool list \<Rightarrow> nat list \<Rightarrow> nat" where
  "level2_row this_row next_row [] = 0"
| "level2_row this_row next_row (col # cols) =
    (let top_right = this_row ! (col + 1)
     in if top_right \<noteq> next_row ! (col + 1) then level2_row this_row next_row (drop 1 cols)
        else if top_right \<noteq> this_row ! col then level2_row this_row next_row cols
        else if top_right \<noteq> next_row ! col then level2_row this_row next_row cols
        else 3 + level2_row this_row next_row cols)"

definition lost_point_level2 :: "matrix \<Rightarrow> nat \<Rightarrow> nat" where
  "lost_point_level2 m n = (\<Sum>row\<leftarrow>[0..<n - 1]. level2_row (m ! row) (m ! (row + 1)) [0..<n - 1])"

text \<open>The condition on eleven modules from \<open>k\<close> on, as the code writes it.\<close>

definition finder_like :: "bool list \<Rightarrow> nat \<Rightarrow> bool" where
  "finder_like line k \<longleftrightarrow>
     \<not> line ! (k + 1) \<and> line ! (k + 4) \<and> \<not> line ! (k + 5) \<and> line ! (k + 6) \<and> \<not> line ! (k + 9)
     \<and> (line ! (k + 0) \<and> line ! (k + 2) \<and> line ! (k + 3) \<and> \<not> line ! (k + 7) \<and> \<not> line ! (k + 8) \<and> \<not> line ! (k + 10)
        \<or> \<not> line ! (k + 0) \<and> \<not> line ! (k + 2) \<and> \<not> line ! (k + 3) \<and> line ! (k + 7) \<and> line ! (k + 8) \<and> line ! (k + 10))"

fun level3_line :: "bool list \<Rightarrow> nat list \<Rightarrow> nat" where
  "level3_line line [] = 0"
| "level3_line line (k # ks) =
    (if finder_like line k then 40 else 0) + level3_line line (if line ! (k + 10) then drop 1 ks else ks)"

definition lost_point_level3 :: "matrix \<Rightarrow> nat \<Rightarrow> nat" where
  "lost_point_level3 m n =
    (\<Sum>row\<leftarrow>[0..<n]. level3_line (m ! row) [0..<n - 10]) + (\<Sum>col\<leftarrow>[0..<n]. level3_line (column_of m col) [0..<n - 10])"

definition lost_point_level4 :: "matrix \<Rightarrow> nat \<Rightarrow> nat" where
  "lost_point_level4 m n =
    (let dark_count = sum_list (map (\<lambda>row. sum_list (map of_bool row)) m);
         percent = of_nat dark_count / (of_nat n ^ 2 :: rat)
     in nat \<lfloor>\<bar>percent * 100 - 50\<bar> / 5\<rfloor> * 10)"

definition lost_point :: "matrix \<Rightarrow> nat" where
  "lost_point m =
    (let n = length m in lost_point_level1 m n + lost_point_level2 m n + lost_point_level3 m n + lost_point_level4 m n)"

section \<open>The rules\<close>

text \<open>The lengths of the runs of one color.\<close>

fun runs :: "bool list \<Rightarrow> nat list" where
  "runs [] = []"
| "runs (x # xs) = (let n = length (takeWhile (\<lambda>y. y = x) xs) in Suc n # runs (drop n xs))"

definition run_penalty :: "bool list \<Rightarrow> nat" where
  "run_penalty line = sum_list (map (\<lambda>len. if 5 \<le> len then 3 + (len - 5) else 0) (runs line))"

definition is_block :: "matrix \<Rightarrow> nat \<Rightarrow> nat \<Rightarrow> bool" where
  "is_block m r c \<longleftrightarrow> m ! r ! (c + 1) = m ! r ! c \<and> m ! (r + 1) ! c = m ! r ! c \<and> m ! (r + 1) ! (c + 1) = m ! r ! c"

definition finder_core :: "bool list" where
  "finder_core = [True, False, True, True, True, False, True]"

definition finder_at :: "bool list \<Rightarrow> nat \<Rightarrow> bool" where
  "finder_at line k \<longleftrightarrow>
     map (\<lambda>i. line ! (k + i)) [0..<11] \<in> {finder_core @ replicate 4 False, replicate 4 False @ finder_core}"

definition lines_of :: "matrix \<Rightarrow> bool list list" where
  "lines_of m = m @ map (column_of m) [0..<length m]"

definition penalty :: "matrix \<Rightarrow> nat" where
  "penalty m =
    (let n = length m; lines = lines_of m
     in sum_list (map run_penalty lines)
        + 3 * card {(r, c). r < n - 1 \<and> c < n - 1 \<and> is_block m r c}
        + 40 * sum_list (map (\<lambda>line. card {k. k < n - 10 \<and> finder_at line k}) lines)
        + lost_point_level4 m n)"

definition square :: "matrix \<Rightarrow> bool" where
  "square m \<longleftrightarrow> m \<noteq> [] \<and> list_all (\<lambda>row. length row = length m) m"

section \<open>Both count the same\<close>

text \<open>Skipping does not leave out anything that counts.\<close>

lemma count_from:
  assumes "a < (b :: nat)"
  shows "card {k. a \<le> k \<and> k < b \<and> P k} = of_bool (P a) + card {k. Suc a \<le> k \<and> k < b \<and> P k}"
proof -
  have "{k. a \<le> k \<and> k < b \<and> P k} = (if P a then {a} else {}) \<union> {k. Suc a \<le> k \<and> k < b \<and> P k}"
    using assms by (auto simp: Suc_le_eq order.order_iff_strict split: if_splits)
  then show ?thesis by (simp add: Suc_le_eq)
qed

lemma count_none: "b \<le> a \<Longrightarrow> card {k :: nat. a \<le> k \<and> k < b \<and> P k} = 0"
  by (auto simp: card_eq_0_iff)

lemma level3_plain: "level3_line line [a..<b] = 40 * card {k. a \<le> k \<and> k < b \<and> finder_like line k}"
proof (induction "b - a" arbitrary: a rule: less_induct)
  case less
  note one = count_from [where P = "finder_like line"]
  consider "b \<le> a" | "a < b" "\<not> line ! (a + 10)" | "Suc a = b" "line ! (a + 10)" | "Suc a < b" "line ! (a + 10)" by linarith
  then show ?case
  proof cases
    case 4
    then have "\<not> finder_like line (Suc a)" by (simp add: finder_like_def numeral_eq_Suc)
    then show ?thesis using 4 less [of "Suc (Suc a)"] one [of a b] one [of "Suc a" b] by (simp add: upt_conv_Cons)
  qed (use less [of "Suc a"] one [of a b] count_none in \<open>auto simp: upt_conv_Cons\<close>)
qed

lemma level2_plain:
  "level2_row t u [a..<b] = 3 * card {c. a \<le> c \<and> c < b \<and> t ! (c + 1) = t ! c \<and> u ! c = t ! c \<and> u ! (c + 1) = t ! c}"
proof (induction "b - a" arbitrary: a rule: less_induct)
  case less
  note one = count_from [where P = "\<lambda>c. t ! (c + 1) = t ! c \<and> u ! c = t ! c \<and> u ! (c + 1) = t ! c"]
  let ?skip = "t ! (a + 1) \<noteq> u ! (a + 1)"
  consider "b \<le> a" | "a < b" "\<not> ?skip" | "Suc a = b" ?skip | "Suc a < b" ?skip by linarith
  then show ?case
  proof cases
    case 2
    then show ?thesis using less [of "Suc a"] one [of a b] by (auto simp: upt_conv_Cons Let_def)
  next
    case 3
    then show ?thesis using one [of a b] count_none by (auto simp: upt_conv_Cons Let_def)
  next
    case 4
    then show ?thesis using less [of "Suc (Suc a)"] one [of a b] one [of "Suc a" b] by (auto simp: upt_conv_Cons Let_def)
  qed (simp add: count_none)
qed

text \<open>The order in which the code writes its two patterns.\<close>

lemma finder_like_at: "finder_like line k \<longleftrightarrow> finder_at line k"
  by (simp add: finder_like_def finder_at_def finder_core_def upt_rec numeral_eq_Suc) blast

text \<open>The counts of the runs, and the sum over them.\<close>

definition container_sum :: "nat \<Rightarrow> nat list \<Rightarrow> nat" where
  "container_sum n c = (\<Sum>len\<leftarrow>[5..<n + 1]. c ! len * (len - 2))"

definition run_cost :: "nat \<Rightarrow> nat" where
  "run_cost len = (if 5 \<le> len then 3 + (len - 5) else 0)"

lemma note_run_sum:
  assumes "length c = n + 1" "len \<le> n"
  shows "container_sum n (note_run len c) = container_sum n c + run_cost len" "length (note_run len c) = n + 1"
proof -
  show "length (note_run len c) = n + 1" using assms by (simp add: note_run_def)
  have "(\<Sum>l\<leftarrow>xs. (c[len := c ! len + 1]) ! l * (l - 2)) = (\<Sum>l\<leftarrow>xs. c ! l * (l - 2)) + (if len \<in> set xs then len - 2 else 0)"
    if "distinct xs" for xs
    using that by (induction xs) (use assms in \<open>auto simp: nth_list_update\<close>)
  from this [of "[5..<n + 1]"] show "container_sum n (note_run len c) = container_sum n c + run_cost len"
    using assms by (auto simp: note_run_def container_sum_def run_cost_def)
qed

lemma count_runs_sum:
  assumes "length c = n + 1" "len + length xs \<le> n"
  shows "container_sum n (count_runs p len xs c) = container_sum n c
      + (let k = length (takeWhile (\<lambda>y. y = p) xs) in run_cost (len + k) + sum_list (map run_cost (runs (drop k xs))))
    \<and> length (count_runs p len xs c) = n + 1"
  using assms
proof (induction xs arbitrary: p len c)
  case Nil
  then show ?case using note_run_sum [of c n len] by simp
next
  case (Cons x xs)
  show ?case
  proof (cases "x = p")
    case True
    then show ?thesis using Cons.IH [of c "len + 1" p] Cons.prems by (simp add: Let_def)
  next
    case False
    then show ?thesis using Cons.IH [of "note_run len c" 1 x] Cons.prems note_run_sum [of c n len] by (simp add: Let_def)
  qed
qed

lemma count_line_sum:
  assumes "length c = n + 1" "length line \<le> n" "line \<noteq> []"
  shows "container_sum n (count_line line c) = container_sum n c + run_penalty line" "length (count_line line c) = n + 1"
proof -
  obtain x xs where l: "line = x # xs" using assms(3) by (cases line) auto
  have e: "count_line line c = count_runs x 1 xs c" by (simp add: count_line_def l)
  have p: "run_penalty line = sum_list (map run_cost (runs line))" by (simp add: run_penalty_def run_cost_def [abs_def])
  show "container_sum n (count_line line c) = container_sum n c + run_penalty line"
    using count_runs_sum [of c n 1 xs x] assms unfolding e p by (simp add: l Let_def)
  show "length (count_line line c) = n + 1" using count_runs_sum [of c n 1 xs x] assms unfolding e by (simp add: l)
qed

lemma fold_lines:
  assumes "length c = n + 1" "list_all (\<lambda>line. line \<noteq> [] \<and> length line \<le> n) ls"
  shows "container_sum n (fold count_line ls c) = container_sum n c + sum_list (map run_penalty ls)
    \<and> length (fold count_line ls c) = n + 1"
  using assms by (induction ls arbitrary: c) (simp_all add: count_line_sum)

lemma level1_rule:
  assumes "square m"
  shows "lost_point_level1 m (length m) = sum_list (map run_penalty (lines_of m))"
proof -
  let ?n = "length m"
  have n: "0 < ?n" using assms by (simp add: square_def)
  have z: "container_sum ?n (replicate (?n + 1) 0) = 0"
    unfolding container_sum_def by (auto simp: sum_list_eq_0_iff simp del: upt_Suc replicate_Suc)
  have ok: "list_all (\<lambda>line. line \<noteq> [] \<and> length line \<le> ?n) (lines_of m)"
    using assms n by (auto simp: square_def lines_of_def list_all_iff column_of_def)
  have "fold (\<lambda>row. count_line (m ! row)) [0..<?n] c = fold count_line m c" for c
    using fold_map [of count_line "(!) m" "[0..<?n]"] by (simp add: map_nth comp_def)
  moreover have "fold (\<lambda>col. count_line (column_of m col)) [0..<?n] c = fold count_line (map (column_of m) [0..<?n]) c" for c
    by (simp add: fold_map comp_def)
  ultimately have "lost_point_level1 m ?n = container_sum ?n (fold count_line (lines_of m) (replicate (?n + 1) 0))"
    by (simp only: lost_point_level1_def Let_def lines_of_def fold_append comp_apply container_sum_def)
  also have "\<dots> = sum_list (map run_penalty (lines_of m))" using fold_lines [OF _ ok, of "replicate (?n + 1) 0"] z by simp
  finally show ?thesis .
qed

lemma level2_rule: "lost_point_level2 m n = 3 * card {(r, c). r < n - 1 \<and> c < n - 1 \<and> is_block m r c}"
proof -
  let ?C = "\<lambda>r. {c. c < n - 1 \<and> is_block m r c}"
  have "level2_row (m ! r) (m ! (r + 1)) [0..<n - 1] = 3 * card (?C r)" for r
    using level2_plain [of "m ! r" "m ! (r + 1)" 0 "n - 1"] by (simp add: is_block_def)
  then have "lost_point_level2 m n = (\<Sum>r\<in>{0..<n - 1}. 3 * card (?C r))"
    by (simp add: lost_point_level2_def interv_sum_list_conv_sum_set_nat)
  also have "\<dots> = 3 * card (SIGMA r:{0..<n - 1}. ?C r)" by (simp add: sum_distrib_left)
  also have "(SIGMA r:{0..<n - 1}. ?C r) = {(r, c). r < n - 1 \<and> c < n - 1 \<and> is_block m r c}" by auto
  finally show ?thesis .
qed

lemma level3_rule:
  "lost_point_level3 m (length m) = 40 * sum_list (map (\<lambda>line. card {k. k < length m - 10 \<and> finder_at line k}) (lines_of m))"
proof -
  have l: "level3_line line [0..<k] = 40 * card {i. i < k \<and> finder_at line i}" for line k
    using level3_plain [of line 0 k] by (simp add: finder_like_at)
  have "(\<Sum>row\<leftarrow>[0..<length m]. f (m ! row)) = sum_list (map f m)" for f :: "bool list \<Rightarrow> nat"
    by (rule arg_cong [of _ _ sum_list], rule nth_equalityI) simp_all
  then show ?thesis by (simp add: lost_point_level3_def l lines_of_def comp_def sum_list_const_mult distrib_left)
qed



end
