(* ===== verification/QrCode.thy ===== *)
theory QrCode
  imports QrMatrix QrPenalty
begin

text \<open>
  The class \<open>QRCode\<close> of \<open>qml/utilities/qrcode/main.py\<close> as a record passed through its methods, with the
  module's cache of blank matrices beside it, and \<open>qr_matrix\<close> of \<open>qml/utilities/api.py\<close>.
\<close>

section \<open>A code and the blank matrices\<close>

record qr_code =
  qc_version :: "nat option"
  qc_level :: int
  qc_border :: nat
  qc_mask_pattern :: "nat option"
  qc_modules :: modules
  qc_count :: nat
  qc_cache :: "int list option"
  qc_data :: "qr_data list"

text \<open>\<open>precomputed_qr_blanks\<close>, by version.\<close>

type_synonym blanks = "nat \<Rightarrow> modules option"

type_synonym qr_state = "qr_code \<times> blanks"

definition check_box_size :: "int \<Rightarrow> exn + unit" where
  "check_box_size sz = (if sz \<le> 0 then Inl ValueError else Inr ())"

definition check_border :: "int \<Rightarrow> exn + unit" where
  "check_border sz = (if sz < 0 then Inl ValueError else Inr ())"

definition check_mask_pattern :: "nat option \<Rightarrow> exn + unit" where
  "check_mask_pattern mask_pattern =
    (case mask_pattern of None \<Rightarrow> Inr () | Some p \<Rightarrow> if 7 < p then Inl ValueError else Inr ())"

definition set_version :: "nat option \<Rightarrow> qr_code \<Rightarrow> exn + qr_code" where
  "set_version version q =
    (case (case version of None \<Rightarrow> Inr () | Some v \<Rightarrow> check_version v) of
       Inl e \<Rightarrow> Inl e
     | Inr _ \<Rightarrow> Inr (q\<lparr>qc_version := version\<rparr>))"

definition set_mask_pattern :: "nat option \<Rightarrow> qr_code \<Rightarrow> exn + qr_code" where
  "set_mask_pattern mask_pattern q =
    (case check_mask_pattern mask_pattern of
       Inl e \<Rightarrow> Inl e
     | Inr _ \<Rightarrow> Inr (q\<lparr>qc_mask_pattern := mask_pattern\<rparr>))"

definition clear_qr :: "qr_code \<Rightarrow> qr_code" where
  "clear_qr q = q\<lparr>qc_modules := [[]], qc_count := 0, qc_cache := None, qc_data := []\<rparr>"

definition new_qr :: "nat option \<Rightarrow> int \<Rightarrow> int \<Rightarrow> int \<Rightarrow> nat option \<Rightarrow> exn + qr_code" where
  "new_qr version error_correction box_size border mask_pattern =
    (case check_box_size box_size of
       Inl e \<Rightarrow> Inl e
     | Inr _ \<Rightarrow>
        (case check_border border of
           Inl e \<Rightarrow> Inl e
         | Inr _ \<Rightarrow>
            (case set_version version \<lparr>qc_version = None, qc_level = error_correction, qc_border = nat border,
                qc_mask_pattern = None, qc_modules = [[]], qc_count = 0, qc_cache = None, qc_data = []\<rparr> of
               Inl e \<Rightarrow> Inl e
             | Inr q \<Rightarrow>
                (case set_mask_pattern mask_pattern q of
                   Inl e \<Rightarrow> Inl e
                 | Inr q' \<Rightarrow> Inr (clear_qr q')))))"

definition add_data :: "string \<Rightarrow> nat \<Rightarrow> qr_code \<Rightarrow> exn + qr_code" where
  "add_data data optimize q =
    (if optimize \<noteq> 0 then Inr (q\<lparr>qc_data := qc_data q @ optimal_data_chunks data optimize, qc_cache := None\<rparr>)
     else case new_data data None True of
       Inl e \<Rightarrow> Inl e
     | Inr d \<Rightarrow> Inr (q\<lparr>qc_data := qc_data q @ [d], qc_cache := None\<rparr>))"

text \<open>The property \<open>version\<close>, which looks for a version when there is none.\<close>

definition version_of :: "qr_code \<Rightarrow> (exn + nat) \<times> qr_code" where
  "version_of q =
    (case qc_version q of
       Some v \<Rightarrow> (Inr v, q)
     | None \<Rightarrow>
        (case best_fit (qc_level q) (qc_data q) 1 of
           Inl e \<Rightarrow> (Inl e, q)
         | Inr v \<Rightarrow> (Inr v, q\<lparr>qc_version := Some v\<rparr>)))"

section \<open>Making the matrix\<close>

definition fresh_modules :: "nat \<Rightarrow> nat \<Rightarrow> modules" where
  "fresh_modules version n =
    (let m0 = replicate n (replicate n None);
         m1 = setup_position_probe_pattern n 0 0 m0;
         m2 = setup_position_probe_pattern n (n - 7) 0 m1;
         m3 = setup_position_probe_pattern n 0 (n - 7) m2
     in setup_timing_pattern n (setup_position_adjust_pattern version m3))"

definition blank_modules :: "nat \<Rightarrow> nat \<Rightarrow> blanks \<Rightarrow> modules \<times> blanks" where
  "blank_modules version n blanks =
    (case blanks version of
       Some m \<Rightarrow> (m, blanks)
     | None \<Rightarrow> let m = fresh_modules version n in (m, blanks(version \<mapsto> m)))"

definition typed_modules :: "int \<Rightarrow> nat \<Rightarrow> nat \<Rightarrow> bool \<Rightarrow> nat \<Rightarrow> modules \<Rightarrow> modules" where
  "typed_modules error_correction version n test mask_pattern m =
    (let m1 = setup_type_info error_correction n test mask_pattern m
     in if 7 \<le> version then setup_type_number version n test m1 else m1)"

definition cached_data :: "nat \<Rightarrow> qr_code \<Rightarrow> exn + int list" where
  "cached_data version q =
    (case qc_cache q of Some ws \<Rightarrow> Inr ws | None \<Rightarrow> create_data version (qc_level q) (qc_data q))"

definition make_impl :: "bool \<Rightarrow> nat \<Rightarrow> qr_state \<Rightarrow> (exn + unit) \<times> qr_state" where
  "make_impl test mask_pattern s =
    (case version_of (fst s) of
       (Inl e, q) \<Rightarrow> (Inl e, q, snd s)
     | (Inr version, q) \<Rightarrow>
        (let n = version * 4 + 17
         in case blank_modules version n (snd s) of
              (m, blanks) \<Rightarrow>
                (let m' = typed_modules (qc_level q) version n test mask_pattern m;
                     q' = q\<lparr>qc_count := n, qc_modules := m'\<rparr>
                 in case cached_data version q' of
                      Inl e \<Rightarrow> (Inl e, q', blanks)
                    | Inr ws \<Rightarrow>
                       (case qr_map_data n ws mask_pattern m' of
                          Inl e \<Rightarrow> (Inl e, q'\<lparr>qc_cache := Some ws\<rparr>, blanks)
                        | Inr m'' \<Rightarrow> (Inr (), q'\<lparr>qc_cache := Some ws, qc_modules := m''\<rparr>, blanks)))))"

definition dark_modules :: "modules \<Rightarrow> matrix" where
  "dark_modules m = map (map (\<lambda>x. x = Some True)) m"

fun mask_loop :: "nat list \<Rightarrow> nat \<Rightarrow> nat \<Rightarrow> qr_state \<Rightarrow> (exn + nat) \<times> qr_state" where
  "mask_loop [] min_lost_point pattern s = (Inr pattern, s)"
| "mask_loop (i # is) min_lost_point pattern s =
    (case make_impl True i s of
       (Inl e, s') \<Rightarrow> (Inl e, s')
     | (Inr _, s') \<Rightarrow>
        (let lp = lost_point (dark_modules (qc_modules (fst s')))
         in if i = 0 \<or> lp < min_lost_point then mask_loop is lp i s' else mask_loop is min_lost_point pattern s'))"

definition best_mask_pattern :: "qr_state \<Rightarrow> (exn + nat) \<times> qr_state" where
  "best_mask_pattern s = mask_loop [0..<8] 0 0 s"

definition make_masked :: "qr_state \<Rightarrow> (exn + unit) \<times> qr_state" where
  "make_masked s =
    (case qc_mask_pattern (fst s) of
       Some p \<Rightarrow> make_impl False p s
     | None \<Rightarrow>
        (case best_mask_pattern s of
           (Inl e, s') \<Rightarrow> (Inl e, s')
         | (Inr p, s') \<Rightarrow> make_impl False p s'))"

definition make :: "bool \<Rightarrow> qr_state \<Rightarrow> (exn + unit) \<times> qr_state" where
  "make fit s =
    (case version_of (fst s) of
       (Inl e, q) \<Rightarrow> (Inl e, q, snd s)
     | (Inr v, q) \<Rightarrow>
        (if fit
         then case best_fit (qc_level q) (qc_data q) v of
                Inl e \<Rightarrow> (Inl e, q, snd s)
              | Inr v' \<Rightarrow> make_masked (q\<lparr>qc_version := Some v'\<rparr>, snd s)
         else make_masked (q, snd s)))"

definition bordered :: "nat \<Rightarrow> modules \<Rightarrow> modules" where
  "bordered border m =
    (if border = 0 then m
     else let width = length m + border * 2;
              edge = replicate border (replicate width (Some False));
              x_border = replicate border (Some False)
          in edge @ map (\<lambda>row. x_border @ row @ x_border) m @ edge)"

definition get_matrix :: "qr_state \<Rightarrow> (exn + modules) \<times> qr_state" where
  "get_matrix s =
    (case (if qc_cache (fst s) = None then make True s else (Inr (), s)) of
       (Inl e, s') \<Rightarrow> (Inl e, s')
     | (Inr _, s') \<Rightarrow> (Inr (bordered (qc_border (fst s')) (qc_modules (fst s'))), s'))"

text \<open>\<open>qr_matrix\<close>: the empty dictionary, also after any exception, is \<open>None\<close>.\<close>

definition matrix_rows :: "modules \<Rightarrow> string list" where
  "matrix_rows m = map (map (\<lambda>cell. if cell = Some True then CHR ''1'' else CHR ''0'')) m"

definition qr_matrix :: "blanks \<Rightarrow> string \<Rightarrow> (nat \<times> string list) option \<times> blanks" where
  "qr_matrix blanks t =
    (if t = [] then (None, blanks)
     else case new_qr None ERROR_CORRECT_M 10 2 None of
       Inl _ \<Rightarrow> (None, blanks)
     | Inr q \<Rightarrow>
        (case add_data t 20 q of
           Inl _ \<Rightarrow> (None, blanks)
         | Inr q1 \<Rightarrow>
            (case make True (q1, blanks) of
               (Inl _, s) \<Rightarrow> (None, snd s)
             | (Inr _, s) \<Rightarrow>
                (case get_matrix s of
                   (Inl _, s') \<Rightarrow> (None, snd s')
                 | (Inr m, s') \<Rightarrow> (let rows = matrix_rows m in (Some (length rows, rows), snd s'))))))"

end
