(* ===== verification/QrPlace.thy ===== *)
theory QrPlace
  imports QrMatrix
begin

text \<open>
  The data of a QR code in its matrix: the zigzag of \<open>map_data\<close> as one list of places, each visited once,
  and the modules it leaves there, from which the codewords can be taken again.
\<close>

unbundle bit_operations_syntax

section \<open>Matrices\<close>

definition shape :: "nat \<Rightarrow> modules \<Rightarrow> bool" where
  "shape n m \<longleftrightarrow> length m = n \<and> (\<forall>row \<in> set m. length row = n)"

type_synonym place = "nat \<times> nat"

definition module_at :: "modules \<Rightarrow> place \<Rightarrow> bool option" where
  "module_at m p = m ! fst p ! snd p"

definition inside :: "nat \<Rightarrow> place \<Rightarrow> bool" where
  "inside n p \<longleftrightarrow> fst p < n \<and> snd p < n"

lemma shape_mset [simp]: "shape n m \<Longrightarrow> shape n (mset r c x m)"
proof -
  assume s: "shape n m"
  show "shape n (mset r c x m)"
  proof (cases "r < n")
    case True
    then have "length (m ! r) = n" using s by (auto simp: shape_def)
    then show ?thesis using s by (auto simp: shape_def mset_def dest!: set_update_subset_insert [THEN subsetD])
  next
    case False
    then show ?thesis using s by (simp add: shape_def mset_def list_update_beyond)
  qed
qed

lemma at_mset: "shape n m \<Longrightarrow> inside n (r, c) \<Longrightarrow> module_at (mset r c x m) p = (if p = (r, c) then x else module_at m p)"
  by (cases p) (auto simp: shape_def module_at_def mset_def inside_def nth_list_update)

text \<open>The operations of \<open>QrMatrix\<close> only write modules, one after the other.\<close>

definition write_at :: "place \<times> bool \<Rightarrow> modules \<Rightarrow> modules" where
  "write_at w m = (case w of ((r, c), x) \<Rightarrow> mset r c (Some x) m)"

definition writes :: "(place \<times> bool) list \<Rightarrow> modules \<Rightarrow> modules" where
  "writes ws m = fold write_at ws m"

lemma shape_writes [simp]: "shape n m \<Longrightarrow> shape n (writes ws m)"
  by (induction ws arbitrary: m) (auto simp: writes_def write_at_def split: prod.splits)

lemma writes_append: "writes (xs @ ys) m = writes ys (writes xs m)"
  by (simp add: writes_def)

lemma at_writes:
  assumes "shape n m" "list_all (inside n) (map fst ws)"
  shows "module_at (writes ws m) p = (case map_of (rev ws) p of None \<Rightarrow> module_at m p | Some x \<Rightarrow> Some x)"
  using assms
proof (induction ws arbitrary: m)
  case (Cons w ws)
  obtain r c x where w: "w = ((r, c), x)" by (metis prod.exhaust)
  have s: "shape n (mset r c (Some x) m)" "inside n (r, c)" using Cons.prems w by simp_all
  have "module_at (writes (w # ws) m) p = module_at (writes ws (mset r c (Some x) m)) p" by (simp add: writes_def write_at_def w)
  also have "\<dots> = (case map_of (rev ws) p of None \<Rightarrow> module_at (mset r c (Some x) m) p | Some x \<Rightarrow> Some x)"
    by (rule Cons.IH [OF s(1)]) (use Cons.prems in simp)
  finally show ?case using at_mset [OF Cons.prems(1) s(2)] w by (auto simp: map_add_def split: option.splits)
qed (simp add: writes_def)

lemma at_unwritten: "shape n m \<Longrightarrow> list_all (inside n) (map fst ws) \<Longrightarrow> p \<notin> set (map fst ws) \<Longrightarrow> module_at (writes ws m) p = module_at m p"
  using map_of_eq_None_iff [of "rev ws" p] by (simp add: at_writes)

lemma at_written:
  "shape n m \<Longrightarrow> list_all (inside n) (map fst ws) \<Longrightarrow> distinct (map fst ws) \<Longrightarrow> (p, x) \<in> set ws \<Longrightarrow> module_at (writes ws m) p = Some x"
proof -
  assume a: "shape n m" "list_all (inside n) (map fst ws)" "distinct (map fst ws)" "(p, x) \<in> set ws"
  have "map_of (rev ws) p = Some x" using a(3,4) by (intro map_of_is_SomeI) (simp_all add: rev_map [symmetric])
  then show ?thesis using at_writes [OF a(1,2)] by simp
qed

lemma at_some: "shape n m \<Longrightarrow> list_all (inside n) (map fst ws) \<Longrightarrow>
    module_at (writes ws m) p \<noteq> None \<longleftrightarrow> p \<in> set (map fst ws) \<or> module_at m p \<noteq> None"
  using map_of_eq_None_iff [of "rev ws" p] by (auto simp: at_writes split: option.splits)

section \<open>The zigzag\<close>

definition pair_places :: "nat \<Rightarrow> nat list \<Rightarrow> place list" where
  "pair_places col rows = concat (map (\<lambda>r. [(r, col), (r, col - 1)]) rows)"

definition rows_of :: "nat \<Rightarrow> bool \<Rightarrow> nat list" where
  "rows_of n up = (if up then rev [0..<n] else [0..<n])"

fun zigzag :: "nat \<Rightarrow> bool \<Rightarrow> nat list \<Rightarrow> place list" where
  "zigzag n up [] = []"
| "zigzag n up (col # cols) = pair_places col (rows_of n up) @ zigzag n (\<not> up) cols"

abbreviation place_all :: "int list \<Rightarrow> (nat \<Rightarrow> nat \<Rightarrow> bool) \<Rightarrow> place list \<Rightarrow> placing \<Rightarrow> placing" where
  "place_all data f ps \<equiv> fold (\<lambda>p. place_module data f (fst p) (snd p)) ps"

lemma place_pairs_Cons:
  "place_all data f (pair_places col (r # rows)) p
   = place_all data f (pair_places col rows) (place_module data f r (col - 1) (place_module data f r col p))"
  by (simp add: pair_places_def)

lemma pass_up: "row < n \<Longrightarrow>
    column_pass n data f col (int row) True p = (0, False, place_all data f (pair_places col (rev [0..<Suc row])) p)"
proof (induction row arbitrary: p)
  case 0
  then show ?case by (subst column_pass.simps) (simp add: pair_places_def Let_def)
next
  case (Suc row)
  moreover have "nat (1 + int row) = Suc row" by simp
  ultimately show ?case by (subst column_pass.simps) (simp add: place_pairs_Cons Let_def)
qed

lemma pass_down: "row < n \<Longrightarrow>
    column_pass n data f col (int row) False p = (int n - 1, True, place_all data f (pair_places col [row..<n]) p)"
proof (induction "n - row" arbitrary: row p rule: less_induct)
  case less
  have u: "[row..<n] = row # [Suc row..<n]" using less.prems by (simp add: upt_conv_Cons)
  show ?case
  proof (cases "Suc row < n")
    case True
    then have "n - Suc row < n - row" by simp
    from less.hyps [OF this True] True show ?thesis
      unfolding u place_pairs_Cons by (subst column_pass.simps) (simp add: Let_def add.commute)
  next
    case False
    then have "n = Suc row" using less.prems by simp
    then show ?thesis unfolding u place_pairs_Cons by (subst column_pass.simps) (simp add: Let_def pair_places_def)
  qed
qed

lemma passes:
  assumes "0 < n"
  shows "fold (\<lambda>col (row, up, p). column_pass n data f col row up p) cols (if up then int n - 1 else 0, up, p)
    = (if up = even (length cols) then int n - 1 else 0, up = even (length cols), place_all data f (zigzag n up cols) p)"
proof (induction cols arbitrary: up p)
  case (Cons col cols)
  obtain k where k: "n = Suc k" using assms by (cases n) auto
  have "column_pass n data f col (if up then int n - 1 else 0) up p
    = (if \<not> up then int n - 1 else 0, \<not> up, place_all data f (pair_places col (rows_of n up)) p)"
    using pass_up [of k n data f col p] pass_down [of 0 n data f col p] k by (cases up) (simp_all add: rows_of_def)
  then show ?case using Cons [of "\<not> up"] by (auto simp: fold_append)
qed simp

abbreviation places :: "nat \<Rightarrow> place list" where
  "places n \<equiv> zigzag n True (column_list n)"

lemma map_data_places:
  assumes "0 < n" "mask_func mask_pattern = Inr f"
  shows "qr_map_data n data mask_pattern m
    = Inr (pl_modules (place_all data f (places n) \<lparr>pl_modules = m, pl_bit = 7, pl_byte = 0\<rparr>))"
  using passes [OF assms(1), of data f "column_list n" True] assms(2) by (simp add: qr_map_data_def)

text \<open>Every place comes once, and all but those of the sixth column come.\<close>

lemma set_zigzag: "set (zigzag n up cols) = {0..<n} \<times> (\<Union>col \<in> set cols. {col, col - 1})"
  by (induction cols arbitrary: up) (auto simp: pair_places_def rows_of_def)

lemma distinct_pairs: "distinct rows \<Longrightarrow> 0 < col \<Longrightarrow> distinct (pair_places col rows)"
  by (induction rows) (auto simp: pair_places_def)

lemma distinct_zigzag: "sorted_wrt (\<lambda>a b. b + 2 \<le> a) cols \<Longrightarrow> \<forall>col \<in> set cols. 0 < col \<Longrightarrow> distinct (zigzag n up cols)"
proof (induction cols arbitrary: up)
  case (Cons col cols)
  have "distinct (pair_places col (rows_of n up))" using Cons.prems by (intro distinct_pairs) (simp_all add: rows_of_def)
  moreover have "set (pair_places col (rows_of n up)) = {0..<n} \<times> {col, col - 1}" by (auto simp: pair_places_def rows_of_def)
  moreover have "c + 2 \<le> col" if "c \<in> set cols" for c using Cons.prems(1) that by simp
  then have "({0..<n} \<times> {col, col - 1}) \<inter> ({0..<n} \<times> (\<Union>col \<in> set cols. {col, col - 1})) = {}" by fastforce
  ultimately show ?case using Cons by (auto simp: set_zigzag)
qed simp

lemma columns_sorted:
  assumes "odd n"
  shows "sorted_wrt (\<lambda>a b. b + 2 \<le> a) (column_list n)" "\<forall>col \<in> set (column_list n). 0 < col \<and> col < n"
proof -
  let ?c = "\<lambda>k. let col = n - 1 - 2 * k in if col \<le> 6 then col - 1 else col"
  have l: "2 * k + 2 \<le> n - 1" if "k < n div 2" for k using that assms by presburger
  have "?c j + 2 \<le> ?c i" if "i < j" "j < n div 2" for i j
    using l [of j] that by (auto simp: Let_def) 
  then show "sorted_wrt (\<lambda>a b. b + 2 \<le> a) (column_list n)"
    by (auto simp: column_list_def sorted_wrt_iff_nth_less simp del: Let_def)
  show "\<forall>col \<in> set (column_list n). 0 < col \<and> col < n"
    using l by (fastforce simp: column_list_def Let_def)
qed

lemma distinct_places: "odd n \<Longrightarrow> distinct (places n)"
  using columns_sorted [of n] by (intro distinct_zigzag) auto

lemma places_inside: "odd n \<Longrightarrow> list_all (inside n) (places n)"
  using columns_sorted(2) [of n] by (fastforce simp: list_all_iff set_zigzag inside_def)

section \<open>What the zigzag leaves in the matrix\<close>

definition data_bit :: "int list \<Rightarrow> nat \<Rightarrow> bool" where
  "data_bit data i \<longleftrightarrow> i div 8 < length data \<and> bit (data ! (i div 8)) (7 - i mod 8)"

definition counted :: "placing \<Rightarrow> nat \<Rightarrow> bool" where
  "counted p k \<longleftrightarrow> pl_byte p = k div 8 \<and> pl_bit p = 7 - int (k mod 8)"

definition free :: "modules \<Rightarrow> place list \<Rightarrow> place list" where
  "free m ps = filter (\<lambda>p. module_at m p = None) ps"

lemma place_taken: "module_at (pl_modules p) (r, c) \<noteq> None \<Longrightarrow> place_module data f r c p = p"
  by (simp add: place_module_def module_at_def)

lemma place_free:
  assumes "module_at (pl_modules p) (r, c) = None" "counted p k"
  shows "pl_modules (place_module data f r c p) = mset r c (Some (data_bit data k \<noteq> f r c)) (pl_modules p)"
    "counted (place_module data f r c p) (Suc k)"
proof -
  have n: "nat (7 - int (k mod 8)) = 7 - k mod 8" by linarith
  have b: "pl_byte p = k div 8" "pl_bit p = 7 - int (k mod 8)" using assms(2) by (simp_all add: counted_def)
  have sb: "drop_bit (nat (pl_bit p)) x AND 1 = 1 \<longleftrightarrow> bit x (7 - k mod 8)" for x :: int by (simp only: b(2) n shifted_bit)
  show "pl_modules (place_module data f r c p) = mset r c (Some (data_bit data k \<noteq> f r c)) (pl_modules p)"
    using assms(1) by (simp add: place_module_def module_at_def Let_def sb b(1) data_bit_def)
  have "k mod 8 = 7 \<Longrightarrow> Suc k mod 8 = 0 \<and> Suc k div 8 = Suc (k div 8)"
    "k mod 8 \<noteq> 7 \<Longrightarrow> Suc k mod 8 = Suc (k mod 8) \<and> Suc k div 8 = k div 8"
    by (auto simp: mod_Suc div_Suc)
  then show "counted (place_module data f r c p) (Suc k)"
    using assms by (cases "k mod 8 = 7") (auto simp: place_module_def module_at_def counted_def Let_def)
qed

lemma place_all_result:
  assumes "shape n (pl_modules p)" "list_all (inside n) ps" "distinct ps" "counted p k"
  shows "shape n (pl_modules (place_all data f ps p))
    \<and> (\<forall>q. q \<notin> set ps \<or> module_at (pl_modules p) q \<noteq> None \<longrightarrow> module_at (pl_modules (place_all data f ps p)) q = module_at (pl_modules p) q)
    \<and> (\<forall>i < length (free (pl_modules p) ps). module_at (pl_modules (place_all data f ps p)) (free (pl_modules p) ps ! i)
        = Some (data_bit data (k + i) \<noteq> f (fst (free (pl_modules p) ps ! i)) (snd (free (pl_modules p) ps ! i))))"
  using assms
proof (induction ps arbitrary: p k)
  case (Cons q ps)
  obtain r c where q: "q = (r, c)" by (cases q)
  show ?case
  proof (cases "module_at (pl_modules p) q = None")
    case False
    then have "place_module data f r c p = p" using place_taken q by simp
    then show ?thesis using Cons.IH [OF Cons.prems(1) _ _ Cons.prems(4)] Cons.prems(2,3) False by (auto simp: q free_def)
  next
    case True
    let ?p = "place_module data f r c p"
    have p: "pl_modules ?p = mset r c (Some (data_bit data k \<noteq> f r c)) (pl_modules p)" "counted ?p (Suc k)"
      using place_free [OF _ Cons.prems(4)] True q by simp_all
    have in': "inside n (r, c)" using Cons.prems(2) q by simp
    have a: "module_at (pl_modules ?p) z = (if z = (r, c) then Some (data_bit data k \<noteq> f r c) else module_at (pl_modules p) z)" for z
      unfolding p(1) by (rule at_mset [OF Cons.prems(1) in'])
    have "free (pl_modules ?p) ps = free (pl_modules p) ps"
      using Cons.prems(3) q by (auto simp: free_def a intro: filter_cong)
    moreover have "shape n (pl_modules ?p)" unfolding p(1) using Cons.prems(1) by simp
    note IH = Cons.IH [OF this _ _ p(2)]
    moreover have "free (pl_modules p) (q # ps) = q # free (pl_modules p) ps" using True by (simp add: free_def)
    ultimately show ?thesis using Cons.prems(2,3) a q True by (auto simp: nth_Cons split: nat.splits)
  qed
qed (simp add: free_def)

text \<open>The matrix that \<open>map_data\<close> makes: only free places change, and the data can be taken from them again.\<close>

lemma map_data_ok: "odd n \<Longrightarrow> mask_func mask_pattern = Inr f \<Longrightarrow> \<exists>m'. qr_map_data n data mask_pattern m = Inr m'"
  using map_data_places [OF odd_pos] by blast

lemma map_data_result:
  assumes "shape n m" "odd n" "mask_func mask_pattern = Inr f" "qr_map_data n data mask_pattern m = Inr m'"
  shows "shape n m'"
    "q \<notin> set (places n) \<or> module_at m q \<noteq> None \<Longrightarrow> module_at m' q = module_at m q"
    "map (\<lambda>p. (module_at m' p = Some True) \<noteq> f (fst p) (snd p)) (free m (places n))
      = map (data_bit data) [0..<length (free m (places n))]"
    "q \<in> set (places n) \<Longrightarrow> module_at m' q \<noteq> None"
proof -
  let ?p = "\<lparr>pl_modules = m, pl_bit = 7, pl_byte = 0\<rparr>" and ?fr = "free m (places n)"
  have n: "0 < n" using assms(2) by (rule odd_pos)
  have m': "m' = pl_modules (place_all data f (places n) ?p)" using map_data_places [OF n assms(3)] assms(4) by simp
  have c: "counted ?p 0" by (simp add: counted_def)
  note r = place_all_result [of n ?p "places n" 0 data f, unfolded placing.simps, OF assms(1) places_inside [OF assms(2)]
    distinct_places [OF assms(2)] c, folded m']
  show "shape n m'" using r by simp
  show "module_at m' q = module_at m q" if "q \<notin> set (places n) \<or> module_at m q \<noteq> None" for q using r that by blast
  have i: "module_at m' (?fr ! i) = Some (data_bit data i \<noteq> f (fst (?fr ! i)) (snd (?fr ! i)))" if "i < length ?fr" for i
    using r that by simp
  show "map (\<lambda>p. (module_at m' p = Some True) \<noteq> f (fst p) (snd p)) ?fr = map (data_bit data) [0..<length ?fr]"
    by (rule nth_equalityI) (auto simp: i)
  show "module_at m' q \<noteq> None" if "q \<in> set (places n)" for q
  proof (cases "module_at m q = None")
    case True
    then have "q \<in> set ?fr" using that by (simp add: free_def)
    then obtain k where "k < length ?fr" "?fr ! k = q" unfolding in_set_conv_nth by blast
    then show ?thesis using i [of k] by simp
  next
    case False
    then show ?thesis using r by (cases q) auto
  qed
qed

text \<open>Eight bits at a time are the codewords.\<close>

lemma data_bits_codewords: "map (data_bit data) [0..<8 * length data] = concat (map byte_bits data)"
proof (induction data)
  case (Cons x data)
  have "map (data_bit (x # data)) [0..<8] = byte_bits x"
    by (rule nth_equalityI) (simp_all add: data_bit_def nth_byte_bits del: upt_rec_numeral)
  moreover have "map (data_bit (x # data)) [8..<8 + 8 * length data] = map (data_bit data) [0..<8 * length data]"
    by (rule nth_equalityI) (simp_all add: data_bit_def del: upt_rec_numeral)
  moreover have "[0..<8 * length (x # data)] = [0..<8] @ [8..<8 + 8 * length data]"
    using upt_add_eq_append [of 0 8 "8 * length data"] by (simp add: add.commute del: upt_rec_numeral)
  ultimately show ?case using Cons by (simp del: upt_rec_numeral)
qed simp

end
