(* ===== verification/QrFilled.thy ===== *)
theory QrFilled
  imports QrPlace QrCode
begin

text \<open>
  Which modules of a QR code the fixed patterns take: what each operation of \<open>QrMatrix\<close> sets, how many
  modules that is at most, and that the zigzag has room for all codewords of every version.
\<close>

section \<open>What an operation sets\<close>

definition sets :: "nat \<Rightarrow> (modules \<Rightarrow> modules) \<Rightarrow> place set \<Rightarrow> bool" where
  "sets n g S \<longleftrightarrow> (\<forall>m. shape n m \<longrightarrow> shape n (g m) \<and> (\<forall>p. module_at (g m) p \<noteq> None \<longleftrightarrow> p \<in> S \<or> module_at m p \<noteq> None))"

lemma sets_shape: "sets n g S \<Longrightarrow> shape n m \<Longrightarrow> shape n (g m)"
  by (simp add: sets_def)

lemma sets_comp: "sets n g S \<Longrightarrow> sets n h T \<Longrightarrow> sets n (\<lambda>m. h (g m)) (S \<union> T)"
  by (auto simp: sets_def)

lemma sets_writes: "list_all (inside n) (map fst ws) \<Longrightarrow> S = set (map fst ws) \<Longrightarrow> sets n (writes ws) S"
  unfolding sets_def using at_some [of n _ ws] by simp

lemma sets_fold: "(\<And>x. x \<in> set xs \<Longrightarrow> sets n (g x) (S x)) \<Longrightarrow> sets n (fold g xs) (\<Union>x \<in> set xs. S x)"
proof (induction xs)
  case (Cons x xs)
  then have "sets n (\<lambda>m. fold g xs (g x m)) (S x \<union> (\<Union>x \<in> set xs. S x))" by (intro sets_comp) auto
  then show ?case by (simp add: comp_def)
qed (simp add: sets_def)

lemma fold_writes: "fold (\<lambda>i. mset (r i) (c i) (Some (b i))) is m = writes (map (\<lambda>i. ((r i, c i), b i)) is) m"
  by (induction "is" arbitrary: m) (simp_all add: writes_def write_at_def)

lemma guarded_writes:
  "fold (\<lambda>r m. if P r then m else fold (\<lambda>c m. if Q c then m else mset (a r) (b c) (Some (x r c)) m) cs m) rs m
   = writes (concat (map (\<lambda>r. if P r then [] else concat (map (\<lambda>c. if Q c then [] else [((a r, b c), x r c)]) cs)) rs)) m"
proof (induction rs arbitrary: m)
  case (Cons r rs)
  have "fold (\<lambda>c m. if Q c then m else mset (a r) (b c) (Some (x r c)) m) cs m
    = writes (concat (map (\<lambda>c. if Q c then [] else [((a r, b c), x r c)]) cs)) m" for m
    by (induction cs arbitrary: m) (simp_all add: writes_def write_at_def)
  then show ?case using Cons by (simp add: writes_append) (simp add: writes_def)
qed (simp add: writes_def)

lemma guarded_member:
  assumes "r \<in> set rs" "\<not> P r" "c \<in> set cs" "\<not> Q c"
  shows "(a r, b c) \<in> set (map fst (concat (map (\<lambda>r. if P r then [] else
    concat (map (\<lambda>c. if Q c then [] else [((a r, b c), x r c)]) cs)) rs)))"
  using assms by force

section \<open>The operations\<close>

definition box :: "nat \<Rightarrow> nat \<Rightarrow> nat \<Rightarrow> nat \<Rightarrow> place set" where
  "box r r' c c' = {r..r'} \<times> {c..c'}"

lemma sets_probe: "sets n (setup_position_probe_pattern n row col) {(a, b). inside n (a, b) \<and> row \<le> a + 1 \<and> a \<le> row + 7 \<and> col \<le> b + 1 \<and> b \<le> col + 7}"
proof -
  let ?ws = "concat (map (\<lambda>r. if int row + r \<le> - 1 \<or> int n \<le> int row + r then []
      else concat (map (\<lambda>c. if int col + c \<le> - 1 \<or> int n \<le> int col + c then []
        else [((nat (int row + r), nat (int col + c)), probe_dark r c)]) [- 1..7])) [- 1..7])"
  have e: "setup_position_probe_pattern n row col = writes ?ws"
    by (rule ext) (simp only: setup_position_probe_pattern_def guarded_writes)
  have s: "set (map fst ?ws) = {(a, b). inside n (a, b) \<and> row \<le> a + 1 \<and> a \<le> row + 7 \<and> col \<le> b + 1 \<and> b \<le> col + 7}"
  proof (intro set_eqI iffI)
    fix p
    assume "p \<in> set (map fst ?ws)"
    then show "p \<in> {(a, b). inside n (a, b) \<and> row \<le> a + 1 \<and> a \<le> row + 7 \<and> col \<le> b + 1 \<and> b \<le> col + 7}"
      by (auto simp: inside_def split: if_splits simp del: upto_rec_numeral)
  next
    fix p
    assume "p \<in> {(a, b). inside n (a, b) \<and> row \<le> a + 1 \<and> a \<le> row + 7 \<and> col \<le> b + 1 \<and> b \<le> col + 7}"
    then obtain a b where p: "p = (a, b)" "a < n" "b < n" "row \<le> a + 1" "a \<le> row + 7" "col \<le> b + 1" "b \<le> col + 7"
      by (auto simp: inside_def)
    have "(nat (int row + (int a - int row)), nat (int col + (int b - int col))) \<in> set (map fst ?ws)"
      by (rule guarded_member) (use p in \<open>auto simp del: upto_rec_numeral\<close>)
    then show "p \<in> set (map fst ?ws)" unfolding p(1) by simp
  qed
  show ?thesis unfolding e by (rule sets_writes) (use s in \<open>auto simp: list_all_iff simp del: upto_rec_numeral\<close>)
qed

lemma sets_if_free:
  assumes "\<And>x. x \<in> set xs \<Longrightarrow> inside n (r x, c x)"
  shows "sets n (fold (\<lambda>x m. if m ! r x ! c x \<noteq> None then m else mset (r x) (c x) (Some (b x)) m) xs) ((\<lambda>x. (r x, c x)) ` set xs)"
proof -
  have "sets n (\<lambda>m. if m ! r x ! c x \<noteq> None then m else mset (r x) (c x) (Some (b x)) m) {(r x, c x)}" if "x \<in> set xs" for x
    unfolding sets_def
  proof (intro allI impI)
    fix m
    assume m: "shape n m"
    show "shape n (if m ! r x ! c x \<noteq> None then m else mset (r x) (c x) (Some (b x)) m) \<and>
      (\<forall>p. module_at (if m ! r x ! c x \<noteq> None then m else mset (r x) (c x) (Some (b x)) m) p \<noteq> None
        \<longleftrightarrow> p \<in> {(r x, c x)} \<or> module_at m p \<noteq> None)"
      using m at_mset [OF m assms [OF that]] by (auto simp: module_at_def)
  qed
  from sets_fold [where g = "\<lambda>x m. if m ! r x ! c x \<noteq> None then m else mset (r x) (c x) (Some (b x)) m" and S = "\<lambda>x. {(r x, c x)}" and xs = xs, OF this]
  show ?thesis unfolding UNION_singleton_eq_range .
qed

lemma sets_timing:
  assumes "17 \<le> n"
  shows "sets n (setup_timing_pattern n) ((\<lambda>r. (r, 6)) ` {8..<n - 8} \<union> (\<lambda>c. (6, c)) ` {8..<n - 8})"
proof -
  have "sets n (fold (\<lambda>r m. if m ! r ! 6 \<noteq> None then m else mset r 6 (Some (r mod 2 = 0)) m) [8..<n - 8]) ((\<lambda>r. (r, 6)) ` set [8..<n - 8])"
    "sets n (fold (\<lambda>c m. if m ! 6 ! c \<noteq> None then m else mset 6 c (Some (c mod 2 = 0)) m) [8..<n - 8]) ((\<lambda>c. (6, c)) ` set [8..<n - 8])"
    by (rule sets_if_free; use assms in \<open>auto simp: inside_def\<close>)+
  from sets_comp [OF this] show ?thesis by (simp add: setup_timing_pattern_def [abs_def])
qed

text \<open>An alignment pattern, only where its center is free.\<close>

definition sq :: "nat \<Rightarrow> nat \<Rightarrow> place set" where
  "sq row col = {row - 2..row + 2} \<times> {col - 2..col + 2}"

lemma adjust_result:
  assumes "shape n m" "2 \<le> row" "row + 2 < n" "2 \<le> col" "col + 2 < n"
  shows "shape n (adjust_at row col m)"
    "module_at (adjust_at row col m) p \<noteq> None \<longleftrightarrow> module_at m p \<noteq> None \<or> p \<in> sq row col \<and> module_at m (row, col) = None"
proof -
  let ?ws = "concat (map (\<lambda>r. if False then [] else concat (map (\<lambda>c. if False then [] else
      [((nat (int row + r), nat (int col + c)), adjust_dark r c)]) [- 2..2])) [- 2..2])"
  have e: "adjust_at row col m = (if module_at m (row, col) \<noteq> None then m else writes ?ws m)"
    unfolding adjust_at_def module_at_def fst_conv snd_conv guarded_writes [symmetric]
    by (simp only: if_False if_cancel)
  have s: "set (map fst ?ws) = sq row col"
  proof (intro set_eqI iffI)
    fix p
    assume "p \<in> set (map fst ?ws)"
    then show "p \<in> sq row col" using assms by (auto simp: sq_def simp del: upto_rec_numeral)
  next
    fix p
    assume "p \<in> sq row col"
    then obtain a b where p: "p = (a, b)" "row \<le> a + 2" "a \<le> row + 2" "col \<le> b + 2" "b \<le> col + 2" by (auto simp: sq_def)
    have "(nat (int row + (int a - int row)), nat (int col + (int b - int col))) \<in> set (map fst ?ws)"
      by (rule guarded_member) (use p in \<open>auto simp del: upto_rec_numeral\<close>)
    then show "p \<in> set (map fst ?ws)" unfolding p(1) by simp
  qed
  have i: "list_all (inside n) (map fst ?ws)"
    unfolding list_all_iff s using assms by (auto simp: sq_def inside_def)
  show "shape n (adjust_at row col m)" using assms(1) by (simp add: e)
  show "module_at (adjust_at row col m) p \<noteq> None \<longleftrightarrow> module_at m p \<noteq> None \<or> p \<in> sq row col \<and> module_at m (row, col) = None"
    using at_some [OF assms(1) i, of p] unfolding e s by auto
qed

lemma fold_product: "fold (\<lambda>a m. fold (\<lambda>b m. g a b m) ys m) xs m = fold (\<lambda>p. g (fst p) (snd p)) (List.product xs ys) m"
proof (induction xs arbitrary: m)
  case (Cons x xs)
  have "fold (\<lambda>p. g (fst p) (snd p)) (map (Pair x) ys) m = fold (\<lambda>b m. g x b m) ys m" for m by (simp add: fold_map comp_def)
  then show ?case using Cons by simp
qed simp

lemma adjust_fold:
  assumes "shape n m" "\<forall>p \<in> set ps. 2 \<le> fst p \<and> fst p + 2 < n \<and> 2 \<le> snd p \<and> snd p + 2 < n"
  shows "shape n (fold (\<lambda>p. adjust_at (fst p) (snd p)) ps m)
    \<and> (\<forall>q. module_at m q \<noteq> None \<longrightarrow> module_at (fold (\<lambda>p. adjust_at (fst p) (snd p)) ps m) q \<noteq> None)
    \<and> (\<forall>q. module_at (fold (\<lambda>p. adjust_at (fst p) (snd p)) ps m) q \<noteq> None
        \<longrightarrow> module_at m q \<noteq> None \<or> (\<exists>p \<in> set ps. module_at m p = None \<and> q \<in> sq (fst p) (snd p)))"
  using assms
proof (induction ps arbitrary: m)
  case (Cons p ps)
  let ?m = "adjust_at (fst p) (snd p) m"
  have p: "2 \<le> fst p" "fst p + 2 < n" "2 \<le> snd p" "snd p + 2 < n" using Cons.prems(2) by simp_all
  note a = adjust_result [OF Cons.prems(1) p]
  have a2: "module_at ?m q \<noteq> None \<longleftrightarrow> module_at m q \<noteq> None \<or> q \<in> sq (fst p) (snd p) \<and> module_at m p = None" for q
    using a(2) [of q] by simp
  have "\<forall>p \<in> set ps. 2 \<le> fst p \<and> fst p + 2 < n \<and> 2 \<le> snd p \<and> snd p + 2 < n" using Cons.prems(2) by simp
  note IH = Cons.IH [OF a(1) this]
  have mono: "module_at ?m q = None \<Longrightarrow> module_at m q = None" for q using a2 [of q] by blast
  have f: "fold (\<lambda>p. adjust_at (fst p) (snd p)) (p # ps) m = fold (\<lambda>p. adjust_at (fst p) (snd p)) ps ?m" by simp
  show ?case unfolding f
  proof (intro conjI allI impI)
    show "shape n (fold (\<lambda>p. adjust_at (fst p) (snd p)) ps ?m)" using IH by blast
    show "module_at (fold (\<lambda>p. adjust_at (fst p) (snd p)) ps ?m) q \<noteq> None" if "module_at m q \<noteq> None" for q
      using IH mono [of q] that by blast
    show "module_at m q \<noteq> None \<or> (\<exists>p \<in> set (p # ps). module_at m p = None \<and> q \<in> sq (fst p) (snd p))"
      if "module_at (fold (\<lambda>p. adjust_at (fst p) (snd p)) ps ?m) q \<noteq> None" for q
    proof -
      from IH that have "module_at ?m q \<noteq> None \<or> (\<exists>p \<in> set ps. module_at ?m p = None \<and> q \<in> sq (fst p) (snd p))" by blast
      then show ?thesis using a2 [of q] mono by (metis list.set_intros(1,2))
    qed
  qed
qed simp

definition info_places :: "nat \<Rightarrow> place list" where
  "info_places n =
    map (\<lambda>i. (if i < 6 then i else if i < 8 then i + 1 else n - 15 + i, 8)) [0..<15]
    @ map (\<lambda>i. (8, if i < 8 then n - i - 1 else if i < 9 then 15 - i - 1 + 1 else 15 - i - 1)) [0..<15] @ [(n - 8, 8)]"

definition number_places :: "nat \<Rightarrow> place list" where
  "number_places n = map (\<lambda>i. (i div 3, i mod 3 + n - 8 - 3)) [0..<18] @ map (\<lambda>i. (i mod 3 + n - 8 - 3, i div 3)) [0..<18]"

definition info_writes :: "int \<Rightarrow> nat \<Rightarrow> bool \<Rightarrow> nat \<Rightarrow> (place \<times> bool) list" where
  "info_writes ec n test mask_pattern =
    zip (info_places n)
      (let bs = map (word_bit test (BCH_type_info (or (push_bit 3 ec) (int mask_pattern)))) [0..<15] in bs @ bs @ [\<not> test])"

lemma type_info_writes: "setup_type_info ec n test mask_pattern = writes (info_writes ec n test mask_pattern)"
proof (rule ext)
  fix m
  let ?b = "word_bit test (BCH_type_info (or (push_bit 3 ec) (int mask_pattern)))"
  have z: "zip (map g [0..<15] @ map h [0..<15] @ [y]) (map ?b [0..<15] @ map ?b [0..<15] @ [x])
    = map (\<lambda>i. (g i, ?b i)) [0..<15] @ map (\<lambda>i. (h i, ?b i)) [0..<15] @ [(y, x)]" for g h :: "nat \<Rightarrow> place" and x y
    by (simp add: zip_append zip_map_map map_zip_map zip_same_conv_map del: upt_rec_numeral)
  show "setup_type_info ec n test mask_pattern m = writes (info_writes ec n test mask_pattern) m"
    unfolding setup_type_info_def info_writes_def info_places_def Let_def z writes_append fold_writes
    by (simp add: writes_def write_at_def)
qed

definition number_writes :: "nat \<Rightarrow> nat \<Rightarrow> bool \<Rightarrow> (place \<times> bool) list" where
  "number_writes version n test =
    zip (number_places n) (let bs = map (word_bit test (BCH_type_number (int version))) [0..<18] in bs @ bs)"

lemma type_number_writes: "setup_type_number version n test = writes (number_writes version n test)"
proof (rule ext)
  fix m
  let ?b = "word_bit test (BCH_type_number (int version))"
  have z: "zip (map g [0..<18] @ map h [0..<18]) (map ?b [0..<18] @ map ?b [0..<18])
    = map (\<lambda>i. (g i, ?b i)) [0..<18] @ map (\<lambda>i. (h i, ?b i)) [0..<18]" for g h :: "nat \<Rightarrow> place"
    by (simp add: zip_append zip_map_map map_zip_map zip_same_conv_map del: upt_rec_numeral)
  show "setup_type_number version n test m = writes (number_writes version n test) m"
    unfolding setup_type_number_def number_writes_def number_places_def Let_def z writes_append fold_writes ..
qed

lemma places_of_writes:
  "map fst (info_writes ec n test k) = info_places n" "map fst (number_writes v n test) = number_places n"
  by (simp_all add: info_writes_def number_writes_def info_places_def number_places_def Let_def del: upt_rec_numeral)

lemma word_places_inside: "21 \<le> n \<Longrightarrow> list_all (inside n) (info_places n)" "21 \<le> n \<Longrightarrow> list_all (inside n) (number_places n)"
  by (auto simp: list_all_iff info_places_def number_places_def inside_def simp del: upt_rec_numeral)

lemma sets_words:
  assumes "21 \<le> n"
  shows "sets n (setup_type_info ec n test k) (set (info_places n))" "sets n (setup_type_number v n test) (set (number_places n))"
  unfolding type_info_writes type_number_writes
  by (rule sets_writes; simp only: places_of_writes word_places_inside [OF assms])+

lemma word_places_length: "length (info_places n) = 31" "length (number_places n) = 36"
  by (simp_all add: info_places_def number_places_def)

section \<open>A blank matrix\<close>

definition finders :: "nat \<Rightarrow> place set" where
  "finders n = {(a, b). inside n (a, b) \<and> ((a \<le> 7 \<or> n \<le> a + 8) \<and> b \<le> 7 \<or> a \<le> 7 \<and> n \<le> b + 8)}"

definition timing :: "nat \<Rightarrow> place set" where
  "timing n = (\<lambda>r. (r, 6)) ` {8..<n - 8} \<union> (\<lambda>c. (6, c)) ` {8..<n - 8}"

definition centers :: "nat \<Rightarrow> place list" where
  "centers v = List.product (pattern_position v) (pattern_position v)"

definition aligned :: "nat \<Rightarrow> nat \<Rightarrow> place set" where
  "aligned v n = (\<Union>p \<in> {p \<in> set (centers v). p \<notin> finders n}. sq (fst p) (snd p))"

text \<open>The positions of the table, and how many modules the alignment patterns may add.\<close>

definition position_ok :: "nat \<Rightarrow> nat \<Rightarrow> bool" where
  "position_ok n a \<longleftrightarrow> a = 6 \<or> a + 7 = n \<or> 10 \<le> a \<and> a + 11 \<le> n"

definition need :: "nat \<Rightarrow> place \<Rightarrow> nat" where
  "need n p = (if p = (6, 6) \<or> p = (6, n - 7) \<or> p = (n - 7, 6) then 0 else if fst p = 6 \<or> snd p = 6 then 20 else 25)"

definition ROOM :: "nat list" where
  "ROOM = [
    208, 359, 567, 807, 1079, 1383, 1568, 1936, 2336, 2768, 3232, 3728, 4256, 4651, 5243, 5867, 6523, 7211,
    7931, 8683, 9252, 10068, 10916, 11796, 12708, 13652, 14628, 15371, 16411, 17483, 18587, 19723, 20891,
    22091, 23008, 24272, 25568, 26896, 28256, 29648]"

fun all_from :: "(nat \<Rightarrow> 'a \<Rightarrow> bool) \<Rightarrow> nat \<Rightarrow> 'a list \<Rightarrow> bool" where
  "all_from P i [] \<longleftrightarrow> True"
| "all_from P i (x # xs) \<longleftrightarrow> P i x \<and> all_from P (i + 1) xs"

lemma all_from_nth: "all_from P i xs \<Longrightarrow> k < length xs \<Longrightarrow> P (i + k) (xs ! k)"
proof (induction xs arbitrary: i k)
  case (Cons x xs)
  then show ?case using Cons.IH [of "i + 1" "k - 1"] by (cases k) auto
qed simp

lemma positions_ok: "all_from (\<lambda>v pos. list_all (position_ok (v * 4 + 17)) pos) 1 PATTERN_POSITION_TABLE"
  by (simp add: PATTERN_POSITION_TABLE_def position_ok_def)

lemma room_rows: "all_from (\<lambda>v (pos, room). 192 + 2 * (v * 4 + 1) + 31 + (if 7 \<le> v then 36 else 0)
    + sum_list (map (need (v * 4 + 17)) (List.product pos pos)) + room = (v * 4 + 17) * (v * 4 + 17))
    1 (zip PATTERN_POSITION_TABLE ROOM)"
  by (simp add: PATTERN_POSITION_TABLE_def need_def ROOM_def)

lemma table_length: "length PATTERN_POSITION_TABLE = 40" "length ROOM = 40"
  by (simp_all add: PATTERN_POSITION_TABLE_def ROOM_def)

lemma position_cases:
  assumes "1 \<le> v" "v \<le> 40" "a \<in> set (pattern_position v)"
  shows "position_ok (v * 4 + 17) a"
proof -
  have "list_all (position_ok ((1 + (v - 1)) * 4 + 17)) (PATTERN_POSITION_TABLE ! (v - 1))"
    by (rule all_from_nth [OF positions_ok]) (use assms in \<open>simp add: table_length\<close>)
  then show ?thesis using assms by (simp add: pattern_position_def list_all_iff)
qed

lemma room_of_version:
  assumes "1 \<le> v" "v \<le> 40"
  shows "192 + 2 * (v * 4 + 1) + 31 + (if 7 \<le> v then 36 else 0) + sum_list (map (need (v * 4 + 17)) (centers v)) + ROOM ! (v - 1)
    = (v * 4 + 17) * (v * 4 + 17)"
proof -
  have "case zip PATTERN_POSITION_TABLE ROOM ! (v - 1) of (pos, room) \<Rightarrow>
      192 + 2 * ((1 + (v - 1)) * 4 + 1) + 31 + (if 7 \<le> 1 + (v - 1) then 36 else 0)
      + sum_list (map (need ((1 + (v - 1)) * 4 + 17)) (List.product pos pos)) + room = ((1 + (v - 1)) * 4 + 17) * ((1 + (v - 1)) * 4 + 17)"
    by (rule all_from_nth [OF room_rows]) (use assms in \<open>simp add: table_length\<close>)
  then show ?thesis using assms by (simp add: centers_def pattern_position_def table_length)
qed

lemma centers_inside:
  assumes "1 \<le> v" "v \<le> 40" "p \<in> set (centers v)"
  shows "2 \<le> fst p \<and> fst p + 2 < v * 4 + 17 \<and> 2 \<le> snd p \<and> snd p + 2 < v * 4 + 17"
proof -
  have "position_ok (v * 4 + 17) (fst p)" "position_ok (v * 4 + 17) (snd p)"
    using position_cases [OF assms(1,2)] assms(3) by (auto simp: centers_def)
  then show ?thesis using assms(1) by (auto simp: position_ok_def)
qed

text \<open>The fixed patterns of a version: all of these modules are set, and no others but those of alignment patterns.\<close>

lemma fresh_result:
  assumes "1 \<le> v" "v \<le> 40" "n = v * 4 + 17"
  shows "shape n (fresh_modules v n)"
    "p \<in> finders n \<union> timing n \<Longrightarrow> module_at (fresh_modules v n) p \<noteq> None"
    "inside n p \<Longrightarrow> module_at (fresh_modules v n) p \<noteq> None \<Longrightarrow> p \<in> finders n \<union> timing n \<union> aligned v n"
proof -
  let ?m0 = "replicate n (replicate n None)"
  let ?g = "\<lambda>m. setup_position_probe_pattern n 0 (n - 7) (setup_position_probe_pattern n (n - 7) 0 (setup_position_probe_pattern n 0 0 m))"
  let ?h = "fold (\<lambda>p. adjust_at (fst p) (snd p)) (centers v)"
  have n: "21 \<le> n" using assms by simp
  have m0: "shape n ?m0" by (simp add: shape_def)
  have "sets n ?g ({(a, b). inside n (a, b) \<and> 0 \<le> a + 1 \<and> a \<le> 0 + 7 \<and> 0 \<le> b + 1 \<and> b \<le> 0 + 7}
      \<union> {(a, b). inside n (a, b) \<and> n - 7 \<le> a + 1 \<and> a \<le> n - 7 + 7 \<and> 0 \<le> b + 1 \<and> b \<le> 0 + 7}
      \<union> {(a, b). inside n (a, b) \<and> 0 \<le> a + 1 \<and> a \<le> 0 + 7 \<and> n - 7 \<le> b + 1 \<and> b \<le> n - 7 + 7})"
    by (intro sets_comp sets_probe)
  also have "{(a, b). inside n (a, b) \<and> 0 \<le> a + 1 \<and> a \<le> 0 + 7 \<and> 0 \<le> b + 1 \<and> b \<le> 0 + 7}
      \<union> {(a, b). inside n (a, b) \<and> n - 7 \<le> a + 1 \<and> a \<le> n - 7 + 7 \<and> 0 \<le> b + 1 \<and> b \<le> 0 + 7}
      \<union> {(a, b). inside n (a, b) \<and> 0 \<le> a + 1 \<and> a \<le> 0 + 7 \<and> n - 7 \<le> b + 1 \<and> b \<le> n - 7 + 7} = finders n"
    using n by (auto simp: finders_def inside_def)
  finally have g: "sets n ?g (finders n)" .
  let ?m1 = "?g ?m0"
  have m1: "shape n ?m1" by (rule sets_shape [OF g m0])
  have f1: "module_at ?m1 q \<noteq> None \<longleftrightarrow> q \<in> finders n" if "inside n q" for q
  proof -
    have "module_at ?m0 q = None" using that by (simp add: module_at_def inside_def)
    then show ?thesis using g m0 unfolding sets_def by blast
  qed
  have ins: "\<forall>p \<in> set (centers v). 2 \<le> fst p \<and> fst p + 2 < n \<and> 2 \<le> snd p \<and> snd p + 2 < n"
    using centers_inside [OF assms(1,2)] assms(3) by auto
  note h = adjust_fold [OF m1 ins]
  have t: "sets n (setup_timing_pattern n) (timing n)" unfolding timing_def using n by (intro sets_timing) simp
  have e: "fresh_modules v n = setup_timing_pattern n (?h ?m1)"
    by (simp only: fresh_modules_def setup_position_adjust_pattern_def Let_def centers_def fold_product)
  have h1: "shape n (?h ?m1)" using h by blast
  show "shape n (fresh_modules v n)" unfolding e by (rule sets_shape [OF t h1])
  have r: "module_at (fresh_modules v n) q \<noteq> None \<longleftrightarrow> q \<in> timing n \<or> module_at (?h ?m1) q \<noteq> None" for q
    using t h1 unfolding e sets_def by blast
  show "module_at (fresh_modules v n) p \<noteq> None" if "p \<in> finders n \<union> timing n"
  proof -
    have "inside n p" if "p \<in> finders n" using that by (auto simp: finders_def)
    then show ?thesis using that h f1 unfolding r by blast
  qed
  show "p \<in> finders n \<union> timing n \<union> aligned v n" if i: "inside n p" and "module_at (fresh_modules v n) p \<noteq> None"
  proof -
    have "p \<in> timing n \<or> module_at ?m1 p \<noteq> None \<or> (\<exists>c \<in> set (centers v). module_at ?m1 c = None \<and> p \<in> sq (fst c) (snd c))"
      using that(2) h unfolding r by blast
    moreover have "c \<notin> finders n" if "c \<in> set (centers v)" "module_at ?m1 c = None" for c
    proof -
      have "inside n c" using ins that(1) by (cases c) (fastforce simp: inside_def)
      then show ?thesis using f1 that(2) by blast
    qed
    ultimately show ?thesis using f1 [OF i] unfolding aligned_def by blast
  qed
qed

section \<open>Room for the codewords\<close>

lemma card_finders: "21 \<le> n \<Longrightarrow> card (finders n) \<le> 192 \<and> finite (finders n)"
proof -
  assume n: "21 \<le> n"
  let ?U = "{..7} \<times> {..7} \<union> {n - 8..<n} \<times> {..7} \<union> {..7} \<times> {n - 8..<n} :: place set"
  have s: "finders n \<subseteq> ?U" by (auto simp: finders_def inside_def)
  have "card ?U \<le> 64 + 64 + 64"
    by (intro order_trans [OF card_Un_le] add_mono) (use n in \<open>simp_all add: card_cartesian_product\<close>)
  moreover have f: "finite ?U" by simp
  ultimately show ?thesis using card_mono [OF f s] finite_subset [OF s f] by simp
qed

lemma card_timing: "card (timing n) \<le> 2 * (n - 16)"
proof -
  have "card ((\<lambda>r. (r, 6 :: nat)) ` {8..<n - 8}) \<le> n - 16" "card ((\<lambda>c. (6 :: nat, c)) ` {8..<n - 8}) \<le> n - 16"
    by (rule order_trans [OF card_image_le]; simp)+
  then show ?thesis unfolding timing_def using card_Un_le [of "(\<lambda>r. (r, 6 :: nat)) ` {8..<n - 8}" "(\<lambda>c. (6, c)) ` {8..<n - 8}"] by linarith
qed

lemma sum_set_le: "(\<Sum>x \<in> set xs. f x) \<le> sum_list (map f xs)" for f :: "'a \<Rightarrow> nat"
  by (induction xs) (auto simp: sum.insert_if)

lemma card_square:
  assumes n: "21 \<le> n" and "position_ok n a" "position_ok n b" "(a, b) \<notin> finders n"
  shows "card (sq a b - timing n) \<le> need n (a, b)"
proof -
  have all: "card (sq a b - timing n) \<le> 25"
  proof -
    have "card (sq a b - timing n) \<le> card (sq a b)" by (rule card_mono) (auto simp: sq_def)
    also have "\<dots> \<le> 25" by (simp add: sq_def card_cartesian_product) (rule mult_le_mono [of _ 5 _ 5, simplified]; simp)
    finally show ?thesis .
  qed
  have "(6, 6) \<in> finders n" "(6, n - 7) \<in> finders n" "(n - 7, 6) \<in> finders n" using n by (auto simp: finders_def inside_def)
  then have c: "(a, b) \<noteq> (6, 6)" "(a, b) \<noteq> (6, n - 7)" "(a, b) \<noteq> (n - 7, 6)" using assms(4) by auto
  show ?thesis
  proof (cases "a = 6 \<or> b = 6")
    case False
    then show ?thesis using all c by (simp add: need_def)
  next
    case True
    then consider "a = 6" "10 \<le> b" "b + 11 \<le> n" | "b = 6" "10 \<le> a" "a + 11 \<le> n"
      using assms(2,3) c n by (auto simp: position_ok_def)
    then have "card (sq a b - timing n) \<le> 20"
    proof cases
      case 1
      have s: "sq a b - timing n \<subseteq> {4, 5, 7, 8} \<times> {b - 2..b + 2}"
      proof
        fix p
        assume p: "p \<in> sq a b - timing n"
        then have "snd p \<in> {8..<n - 8}" using 1 by (auto simp: sq_def)
        then have "fst p \<noteq> 6" using p by (cases p) (auto simp: timing_def)
        then show "p \<in> {4, 5, 7, 8} \<times> {b - 2..b + 2}" using p 1 by (auto simp: sq_def)
      qed
      have "card ({4, 5, 7, 8 :: nat} \<times> {b - 2..b + 2}) = 20" using 1 by (simp add: card_cartesian_product)
      then show ?thesis using card_mono [OF _ s] by simp
    next
      case 2
      have s: "sq a b - timing n \<subseteq> {a - 2..a + 2} \<times> {4, 5, 7, 8}"
      proof
        fix p
        assume p: "p \<in> sq a b - timing n"
        then have "fst p \<in> {8..<n - 8}" using 2 by (auto simp: sq_def)
        then have "snd p \<noteq> 6" using p by (cases p) (auto simp: timing_def)
        then show "p \<in> {a - 2..a + 2} \<times> {4, 5, 7, 8}" using p 2 by (auto simp: sq_def)
      qed
      have "card ({a - 2..a + 2} \<times> {4, 5, 7, 8 :: nat}) = 20" using 2 by (simp add: card_cartesian_product)
      then show ?thesis using card_mono [OF _ s] by simp
    qed
    then show ?thesis using True c by (auto simp: need_def)
  qed
qed

definition taken :: "nat \<Rightarrow> nat \<Rightarrow> place set" where
  "taken v n = finders n \<union> timing n \<union> (\<Union>p \<in> {p \<in> set (centers v). p \<notin> finders n}. sq (fst p) (snd p) - timing n)
    \<union> set (info_places n) \<union> (if 7 \<le> v then set (number_places n) else {})"

lemma card_taken:
  assumes "1 \<le> v" "v \<le> 40" "n = v * 4 + 17"
  shows "finite (taken v n)" "card (taken v n) + ROOM ! (v - 1) \<le> n * n"
proof -
  have n: "21 \<le> n" using assms by simp
  let ?I = "{p \<in> set (centers v). p \<notin> finders n}"
  let ?A = "\<Union>p \<in> ?I. sq (fst p) (snd p) - timing n"
  have "card ?A \<le> (\<Sum>p \<in> ?I. card (sq (fst p) (snd p) - timing n))" by (rule card_UN_le) simp
  also have "\<dots> \<le> (\<Sum>p \<in> ?I. need n p)"
  proof (rule sum_mono)
    fix p
    assume "p \<in> ?I"
    then have "position_ok n (fst p)" "position_ok n (snd p)" "(fst p, snd p) \<notin> finders n"
      using position_cases [OF assms(1,2)] assms(3) by (auto simp: centers_def)
    then show "card (sq (fst p) (snd p) - timing n) \<le> need n p" using card_square [OF n] by fastforce
  qed
  also have "\<dots> \<le> (\<Sum>p \<in> set (centers v). need n p)" by (rule sum_mono2) auto
  also have "\<dots> \<le> sum_list (map (need n) (centers v))" by (rule sum_set_le)
  finally have a: "card ?A \<le> sum_list (map (need n) (centers v))" .
  let ?V = "if 7 \<le> v then set (number_places n) else {}"
  have v: "card ?V \<le> (if 7 \<le> v then 36 else 0)" "card (set (info_places n)) \<le> 31"
    using card_length [of "number_places n"] card_length [of "info_places n"] by (simp_all add: word_places_length)
  have "card (taken v n) \<le> card (finders n) + card (timing n) + card ?A + card (set (info_places n)) + card ?V"
    unfolding taken_def by (meson add_mono card_Un_le order_refl order_trans)
  then have "card (taken v n) \<le> 192 + 2 * (n - 16) + sum_list (map (need n) (centers v)) + 31 + (if 7 \<le> v then 36 else 0)"
    using card_finders [OF n] card_timing [of n] a v by linarith
  then show "card (taken v n) + ROOM ! (v - 1) \<le> n * n"
    using room_of_version [OF assms(1,2)] assms(3) by (simp add: algebra_simps)
  have "finite (timing n)" "finite ?A" by (auto simp: timing_def sq_def)
  then show "finite (taken v n)" using card_finders [OF n] by (simp add: taken_def)
qed

lemma typed_result:
  assumes "1 \<le> v" "v \<le> 40" "n = v * 4 + 17"
  shows "shape n (typed_modules ec v n test k (fresh_modules v n))"
    "inside n p \<Longrightarrow> module_at (typed_modules ec v n test k (fresh_modules v n)) p \<noteq> None \<longleftrightarrow>
       module_at (fresh_modules v n) p \<noteq> None \<or> p \<in> set (info_places n) \<or> 7 \<le> v \<and> p \<in> set (number_places n)"
    "inside n p \<Longrightarrow> module_at (typed_modules ec v n test k (fresh_modules v n)) p \<noteq> None \<Longrightarrow> p \<in> taken v n"
proof -
  have n: "21 \<le> n" using assms by simp
  note f = fresh_result [OF assms]
  have s: "sets n (typed_modules ec v n test k) (set (info_places n) \<union> (if 7 \<le> v then set (number_places n) else {}))"
    using sets_words(1) [OF n, of ec test k] sets_comp [OF sets_words(1) [OF n, of ec test k] sets_words(2) [OF n, of v test]]
    by (simp add: typed_modules_def [abs_def] Let_def)
  show "shape n (typed_modules ec v n test k (fresh_modules v n))" by (rule sets_shape [OF s f(1)])
  show e: "module_at (typed_modules ec v n test k (fresh_modules v n)) p \<noteq> None \<longleftrightarrow>
       module_at (fresh_modules v n) p \<noteq> None \<or> p \<in> set (info_places n) \<or> 7 \<le> v \<and> p \<in> set (number_places n)" if "inside n p"
  proof -
    have "module_at (typed_modules ec v n test k (fresh_modules v n)) p \<noteq> None
      \<longleftrightarrow> p \<in> set (info_places n) \<union> (if 7 \<le> v then set (number_places n) else {}) \<or> module_at (fresh_modules v n) p \<noteq> None"
      using s f(1) unfolding sets_def by blast
    then show ?thesis by (cases "7 \<le> v") (simp_all only: if_True if_False Un_iff empty_iff, blast+)
  qed
  show "p \<in> taken v n" if "inside n p" "module_at (typed_modules ec v n test k (fresh_modules v n)) p \<noteq> None"
    using that(2) f(3) [OF that(1)] unfolding e [OF that(1)] taken_def aligned_def by auto
qed

text \<open>The zigzag passes every module but those of column 6, where the timing pattern is.\<close>

lemma in_places:
  assumes "odd n" "inside n p" "snd p \<noteq> 6" "21 \<le> n"
  shows "p \<in> set (places n)"
proof -
  define x where "x = snd p"
  have x: "x < n" "x \<noteq> 6" using assms(2,3) by (simp_all add: inside_def x_def)
  define c where "c = (if x > 6 then (if even x then x else x + 1) else (if odd x then x + 1 else x + 2))"
  have c: "even c" "2 \<le> c" "c \<le> n - 1" "x > 6 \<longleftrightarrow> c > 6" "6 < c \<Longrightarrow> x = c \<or> x = c - 1" "c \<le> 6 \<Longrightarrow> x = c - 1 \<or> x = c - 2"
    using x assms(1,4) unfolding c_def by (auto simp: odd_pos elim!: oddE evenE split: if_splits)
  let ?k = "(n - 1 - c) div 2"
  have "even (n - 1)" using assms(1) by simp
  then have k: "n - 1 - 2 * ?k = c" "?k < n div 2" using c(1-3) assms(1) by (auto elim!: oddE evenE)
  have "(let col = n - 1 - 2 * ?k in if col \<le> 6 then col - 1 else col) \<in> set (column_list n)"
    using k(2) by (auto simp: column_list_def)
  then have "(if c \<le> 6 then c - 1 else c) \<in> set (column_list n)" by (simp only: k(1) Let_def)
  moreover have "x \<in> {if c \<le> 6 then c - 1 else c, (if c \<le> 6 then c - 1 else c) - 1}" using c(5,6) by auto
  ultimately show ?thesis using assms(2) by (cases p) (auto simp: set_zigzag inside_def x_def)
qed

lemma column_six:
  assumes "1 \<le> v" "v \<le> 40" "n = v * 4 + 17" "inside n p" "snd p = 6"
  shows "module_at (typed_modules ec v n test k (fresh_modules v n)) p \<noteq> None"
proof -
  have "p \<in> finders n \<union> timing n" using assms by (cases p) (auto simp: finders_def timing_def inside_def)
  then show ?thesis using fresh_result(2) [OF assms(1-3)] typed_result(2) [OF assms(1-4)] by blast
qed

text \<open>So there is room for as many bits as a version has.\<close>

lemma room_in_places:
  assumes "1 \<le> v" "v \<le> 40" "n = v * 4 + 17"
  shows "ROOM ! (v - 1) \<le> length (free (typed_modules ec v n test k (fresh_modules v n)) (places n))"
proof -
  let ?m = "typed_modules ec v n test k (fresh_modules v n)"
  have odd: "odd n" using assms by simp
  let ?P = "{..<n} \<times> {..<n}"
  have "?P - taken v n \<subseteq> set (free ?m (places n))"
  proof
    fix p
    assume p: "p \<in> ?P - taken v n"
    then have i: "inside n p" by (auto simp: inside_def)
    then have "module_at ?m p = None" using typed_result(3) [OF assms i] p by blast
    moreover from this have "snd p \<noteq> 6" using column_six [OF assms i] by blast
    ultimately show "p \<in> set (free ?m (places n))" using in_places [OF odd i] assms by (simp add: free_def)
  qed
  then have "card (?P - taken v n) \<le> length (free ?m (places n))"
    by (meson card_length card_mono finite_set order_trans)
  moreover have "n * n - card (taken v n) \<le> card (?P - taken v n)"
    using diff_card_le_card_Diff [OF card_taken(1) [OF assms], of ?P] by (simp add: card_cartesian_product)
  ultimately show ?thesis using card_taken(2) [OF assms] by linarith
qed

end
