(* ===== verification/QrScan.thy ===== *)
theory QrScan
  imports QrFilled
begin

text \<open>
  Scanning: from the rows that \<open>qr_matrix\<close> hands to the QML page back to the text. The reader takes the
  version from the size, the level and the mask from the format word, the bits in zigzag from the modules
  that no fixed pattern takes, and the text from the codewords. It reads every code the program makes.
\<close>

unbundle bit_operations_syntax

section \<open>The reader\<close>

definition format_data :: "(place \<Rightarrow> bool) \<Rightarrow> nat \<Rightarrow> int" where
  "format_data cell n =
    drop_bit 10 (horner_sum of_bool 2 (map (\<lambda>i. cell (info_places n ! i)) [0..<15]) XOR G15_MASK)"

fun codewords :: "nat \<Rightarrow> bool list \<Rightarrow> int list" where
  "codewords 0 bits = []"
| "codewords (Suc n) bits = int (nat_of_bits (take 8 bits)) # codewords n (drop 8 bits)"

definition data_places :: "nat \<Rightarrow> nat \<Rightarrow> place list" where
  "data_places v n = free (typed_modules 0 v n True 0 (fresh_modules v n)) (places n)"

definition scan_modules :: "(place \<Rightarrow> bool) \<Rightarrow> nat \<Rightarrow> string option" where
  "scan_modules cell n =
    (let v = (n - 17) div 4; d = format_data cell n
     in case mask_func (nat (d AND 7)) of
          Inl _ \<Rightarrow> None
        | Inr f \<Rightarrow>
           (case rs_blocks v (drop_bit 3 d) of
              Inl _ \<Rightarrow> None
            | Inr blocks \<Rightarrow>
               (let bits = map (\<lambda>p. cell p \<noteq> f (fst p) (snd p)) (data_places v n);
                    ws = codewords (nat (sum_list (map fst blocks))) bits
                in read_text v (concat (map byte_bits (read_codewords blocks ws))))))"

definition scan :: "string list \<Rightarrow> string option" where
  "scan rows = scan_modules (\<lambda>p. rows ! (fst p + 2) ! (snd p + 2) = CHR ''1'') (length rows - 4)"

section \<open>Codewords from bits\<close>

lemma byte_num_bits: "byte_bits x = num_bits x 8"
  by (simp add: byte_bits_def num_bits_def del: upt_rec_numeral)

lemma codewords_bits: "elems ws \<Longrightarrow> codewords (length ws) (concat (map byte_bits ws) @ r) = ws"
proof (induction ws)
  case (Cons x ws)
  then have x: "0 \<le> x" "x < 256" by (simp_all add: elems_def is_elem_def)
  obtain k where k: "x = int k" by (rule nonneg_int_cases [OF x(1)])
  have "k < 2 ^ 8" using x(2) k by simp
  then have v: "nat_of_bits (byte_bits (int k)) = k" by (simp only: byte_num_bits nat_of_num_bits)
  have l: "length (byte_bits x) = 8" by (simp add: byte_num_bits num_bits_def)
  have "elems ws" using Cons.prems by (simp add: elems_def)
  note Cons.IH [OF this]
  moreover have "codewords (length (x # ws)) (byte_bits x @ s) = int (nat_of_bits (byte_bits x)) # codewords (length ws) s" for s
    using l by simp
  ultimately show ?case by (simp only: list.map concat.simps append_assoc k v)
qed simp

section \<open>The format word\<close>

definition format_ok :: "int \<Rightarrow> bool" where
  "format_ok d \<longleftrightarrow> 0 \<le> BCH_type_info d \<and> BCH_type_info d < 32768 \<and> drop_bit 10 (BCH_type_info d XOR G15_MASK) = d"

lemma formats: "list_all format_ok [0, 1, 2, 3, 4, 5, 6, 7, 8, 9, 10, 11, 12, 13, 14, 15,
    16, 17, 18, 19, 20, 21, 22, 23, 24, 25, 26, 27, 28, 29, 30, 31]"
  by (simp add: format_ok_def BCH_type_info_def Let_def BCH_digit.simps G15_def G15_MASK_def numeral_eq_Suc)

lemma format_parts:
  assumes "level ec" "k < 8"
  shows "format_ok (push_bit 3 ec OR int k)" "(push_bit 3 ec OR int k) AND 7 = int k" "drop_bit 3 (push_bit 3 ec OR int k) = ec"
proof -
  have "k \<in> {0, 1, 2, 3, 4, 5, 6, 7}" using assms(2) by auto
  moreover have "ec \<in> {0, 1, 2, 3}" using assms(1) by (simp add: level_def)
  ultimately show "format_ok (push_bit 3 ec OR int k)" "(push_bit 3 ec OR int k) AND 7 = int k" "drop_bit 3 (push_bit 3 ec OR int k) = ec"
    using formats by (elim insertE emptyE; simp)+
qed

lemma masks_defined: "k < 8 \<Longrightarrow> \<exists>f. mask_func k = Inr f"
  by (simp add: mask_func_def)

lemma info_distinct: "21 \<le> n \<Longrightarrow> distinct (info_places n)"
  by (auto simp: info_places_def distinct_map inj_on_def simp del: upt_rec_numeral split: if_splits)

text \<open>The format word stands in column 8, and nothing writes over it.\<close>

lemma format_module:
  assumes "1 \<le> v" "v \<le> 40" "n = v * 4 + 17" "i < 15"
  shows "module_at (typed_modules ec v n False k (fresh_modules v n)) (info_places n ! i)
    = Some (bit (BCH_type_info (push_bit 3 ec OR int k)) i)"
proof -
  have n: "21 \<le> n" using assms by simp
  let ?w = "BCH_type_info (push_bit 3 ec OR int k)" and ?ws = "info_writes ec n False k"
  have l: "length ?ws = 31" using arg_cong [OF places_of_writes(1), of length] by (simp add: word_places_length)
  have "?ws ! i = (info_places n ! i, word_bit False ?w i)"
    using assms(4) by (simp add: info_writes_def word_places_length Let_def nth_append del: upt_rec_numeral)
  then have "(info_places n ! i, bit ?w i) \<in> set ?ws"
    using l assms(4) nth_mem [of i ?ws] by (simp add: word_bit_def shifted_bit)
  then have w: "module_at (writes ?ws (fresh_modules v n)) (info_places n ! i) = Some (bit ?w i)"
    using at_written [OF fresh_result(1) [OF assms(1-3)]] word_places_inside(1) [OF n] info_distinct [OF n]
    by (simp add: places_of_writes)
  have p: "snd (info_places n ! i) = 8" using assms(4) by (simp add: info_places_def nth_append del: upt_rec_numeral)
  have "info_places n ! i \<notin> set (number_places n)"
  proof
    assume "info_places n ! i \<in> set (number_places n)"
    with p show False using n by (auto simp: number_places_def simp del: upt_rec_numeral)
  qed
  then have "module_at (writes (number_writes v n False) (writes ?ws (fresh_modules v n))) (info_places n ! i)
    = module_at (writes ?ws (fresh_modules v n)) (info_places n ! i)"
    using word_places_inside(2) [OF n]
    by (intro at_unwritten [OF shape_writes [OF fresh_result(1) [OF assms(1-3)]]]) (simp_all only: places_of_writes not_False_eq_True)
  then show ?thesis using w by (simp add: typed_modules_def type_info_writes type_number_writes Let_def)
qed

section \<open>Reading a matrix\<close>

fun row_total :: "int list \<Rightarrow> int" where
  "row_total (count # tot # data # rest) = count * tot + row_total rest"
| "row_total _ = 0"

lemma expand_total: "list_all (\<lambda>x. 0 \<le> x) row \<Longrightarrow> sum_list (map fst (expand_blocks row)) = row_total row"
  by (induction row rule: row_total.induct) (simp_all add: sum_list_replicate)

lemma rows_fit: "all_from (\<lambda>i row. 8 * row_total row \<le> int (ROOM ! (i div 4))) 0 RS_BLOCK_TABLE"
  by (simp add: RS_BLOCK_TABLE_def ROOM_def)

lemma blocks_fit:
  assumes "level ec" "1 \<le> v" "v \<le> 40" "rs_blocks v ec = Inr blocks"
  shows "8 * sum_list (map fst blocks) \<le> int (ROOM ! (v - 1))"
proof -
  obtain off where o': "map_of RS_BLOCK_OFFSET ec = Some (int off)" "off < 4" using offset_of_level [OF assms(1)] by auto
  let ?i = "(v - 1) * 4 + off"
  have b: "blocks = expand_blocks (RS_BLOCK_TABLE ! ?i)" using assms(4) o' by (simp add: rs_blocks_def)
  have i: "?i < length RS_BLOCK_TABLE" "?i div 4 = v - 1" using o' assms(2,3) by (simp_all add: table_rows)
  then have "list_all (\<lambda>x. 0 \<le> x) (RS_BLOCK_TABLE ! ?i)" using rows_positive by (simp add: list_all_length)
  moreover have "8 * row_total (RS_BLOCK_TABLE ! ?i) \<le> int (ROOM ! ((0 + ?i) div 4))" by (rule all_from_nth [OF rows_fit i(1)])
  ultimately show ?thesis using i(2) by (simp add: b expand_total)
qed

lemma scan_made:
  assumes v: "1 \<le> v" "v \<le> 40" "n = v * 4 + 17" and l: "level ec" "k < 8"
    and data: "rs_blocks v ec = Inr blocks" "elems ws" "int (length ws) = sum_list (map fst blocks)"
      "read_text v (concat (map byte_bits (read_codewords blocks ws))) = Some t"
    and m': "qr_map_data n ws k (typed_modules ec v n False k (fresh_modules v n)) = Inr m'"
  shows "scan_modules (\<lambda>p. module_at m' p = Some True) n = Some t"
proof -
  let ?m = "typed_modules ec v n False k (fresh_modules v n)"
  let ?w = "BCH_type_info (push_bit 3 ec OR int k)"
  have odd: "odd n" using v by simp
  note T = typed_result [OF v]
  obtain f where f: "mask_func k = Inr f" using masks_defined [OF l(2)] by auto
  note r = map_data_result [OF T(1) odd f m']
  have "(module_at m' (info_places n ! i) = Some True) = bit ?w i" if "i < 15" for i
  proof -
    have "module_at ?m (info_places n ! i) = Some (bit ?w i)" by (rule format_module [OF v that])
    moreover from this have "module_at m' (info_places n ! i) = module_at ?m (info_places n ! i)"
      using r(2) [of "info_places n ! i"] by simp
    ultimately show ?thesis by simp
  qed
  then have "map (\<lambda>i. module_at m' (info_places n ! i) = Some True) [0..<15] = map (bit ?w) [0..<15]"
    by (intro map_cong [OF refl]) (simp del: upt_rec_numeral)
  moreover have w: "0 \<le> ?w" "?w < 2 ^ 15" "drop_bit 10 (?w XOR G15_MASK) = push_bit 3 ec OR int k"
    using format_parts(1) [OF l] by (simp_all add: format_ok_def)
  have "take_bit 15 ?w = ?w" by (rule take_bit_int_eq_self [OF w(1,2)])
  ultimately have "horner_sum of_bool 2 (map (\<lambda>i. module_at m' (info_places n ! i) = Some True) [0..<15]) = ?w"
    by (simp only: horner_sum_bit_eq_take_bit)
  then have d: "format_data (\<lambda>p. module_at m' p = Some True) n = push_bit 3 ec OR int k"
    by (simp only: format_data_def w(3))
  have dp: "data_places v n = free ?m (places n)"
    unfolding data_places_def free_def
  proof (rule filter_cong [OF refl])
    fix p
    assume "p \<in> set (places n)"
    then have i: "inside n p" using places_inside [OF odd] by (simp add: list_all_iff)
    show "(module_at (typed_modules 0 v n True 0 (fresh_modules v n)) p = None) = (module_at ?m p = None)"
      using T(2) [OF i, of 0 True 0] T(2) [OF i, of ec False k] by blast
  qed
  let ?L = "length (free ?m (places n))"
  have "8 * length ws \<le> ?L"
    using blocks_fit [OF l(1) v(1,2) data(1)] data(3) room_in_places [OF v, of ec False k] by linarith
  then have "[0..<?L] = [0..<8 * length ws] @ [8 * length ws..<?L]" using upt_add_eq_append [of 0 "8 * length ws" "?L - 8 * length ws"] by simp
  then have "map (\<lambda>p. (module_at m' p = Some True) \<noteq> f (fst p) (snd p)) (data_places v n)
      = concat (map byte_bits ws) @ map (data_bit ws) [8 * length ws..<?L]"
    using r(3) unfolding dp by (simp add: data_bits_codewords)
  moreover have "nat (sum_list (map fst blocks)) = length ws" using data(3) by simp
  moreover have "(n - 17) div 4 = v" using v(3) by simp
  ultimately show ?thesis
    using f data(1,2,4) format_parts(2,3) [OF l] by (simp add: scan_modules_def d Let_def codewords_bits)
qed

end
