(* ===== verification/QrWhole.thy ===== *)
theory QrWhole
  imports QrScan
begin

text \<open>
  From \<open>qr_matrix\<close> to the scanned text: the passes of \<open>make\<close> over one matrix, the choice of a mask, the
  border and the rows, composed with the reader of \<open>QrScan\<close>.
\<close>

section \<open>A code on its way through \<open>make\<close>\<close>

definition good_blanks :: "blanks \<Rightarrow> bool" where
  "good_blanks blanks \<longleftrightarrow> (\<forall>v m. blanks v = Some m \<longrightarrow> m = fresh_modules v (v * 4 + 17))"

lemma blank_result: "good_blanks blanks \<Longrightarrow> n = v * 4 + 17 \<Longrightarrow>
    \<exists>blanks'. blank_modules v n blanks = (fresh_modules v n, blanks') \<and> good_blanks blanks'"
  by (cases "blanks v") (auto simp: blank_modules_def good_blanks_def Let_def)

definition ready :: "nat \<Rightarrow> int \<Rightarrow> qr_data list \<Rightarrow> int list \<Rightarrow> qr_state \<Rightarrow> bool" where
  "ready v ec ds ws s \<longleftrightarrow> qc_version (fst s) = Some v \<and> qc_level (fst s) = ec \<and> qc_data (fst s) = ds
    \<and> qc_border (fst s) = 2 \<and> qc_mask_pattern (fst s) = None \<and> qc_cache (fst s) \<in> {None, Some ws} \<and> good_blanks (snd s)"

definition made :: "nat \<Rightarrow> int \<Rightarrow> int list \<Rightarrow> bool \<Rightarrow> nat \<Rightarrow> qr_state \<Rightarrow> bool" where
  "made v ec ws test k s \<longleftrightarrow> qc_cache (fst s) = Some ws
    \<and> qr_map_data (v * 4 + 17) ws k (typed_modules ec v (v * 4 + 17) test k (fresh_modules v (v * 4 + 17))) = Inr (qc_modules (fst s))"

lemma make_impl_ready:
  assumes "ready v ec ds ws s" "create_data v ec ds = Inr ws" "k < 8"
  shows "\<exists>s'. make_impl test k s = (Inr (), s') \<and> ready v ec ds ws s' \<and> made v ec ws test k s'"
proof -
  let ?n = "v * 4 + 17"
  let ?m = "typed_modules ec v ?n test k (fresh_modules v ?n)"
  obtain q blanks where s: "s = (q, blanks)" by (cases s)
  obtain blanks' where b: "blank_modules v ?n blanks = (fresh_modules v ?n, blanks')" "good_blanks blanks'"
    using blank_result [of blanks ?n v] assms(1) by (auto simp: ready_def s)
  obtain f where f: "mask_func k = Inr f" using masks_defined [OF assms(3)] by auto
  have "odd ?n" by simp
  then obtain m' where m: "qr_map_data ?n ws k ?m = Inr m'" using map_data_ok [OF _ f] by blast
  have c: "cached_data v (q\<lparr>qc_count := ?n, qc_modules := ?m\<rparr>) = Inr ws"
    using assms(1,2) by (auto simp: cached_data_def ready_def s)
  have v: "version_of q = (Inr v, q)" "qc_level q = ec" using assms(1) by (simp_all add: version_of_def ready_def s)
  have "make_impl test k s = (Inr (), q\<lparr>qc_count := ?n, qc_modules := m', qc_cache := Some ws\<rparr>, blanks')"
    using m c by (simp add: make_impl_def s v b(1) Let_def)
  then show ?thesis using assms(1) b(2) m by (simp add: ready_def made_def s)
qed

lemma make_impl_refused:
  assumes "ready v ec ds ws s" "create_data v ec ds = Inl e" "qc_cache (fst s) = None"
  shows "\<exists>s'. make_impl test k s = (Inl e, s') \<and> good_blanks (snd s')"
proof -
  let ?n = "v * 4 + 17"
  obtain q blanks where s: "s = (q, blanks)" by (cases s)
  obtain blanks' where b: "blank_modules v ?n blanks = (fresh_modules v ?n, blanks')" "good_blanks blanks'"
    using blank_result [of blanks ?n v] assms(1) by (auto simp: ready_def s)
  have v: "version_of q = (Inr v, q)" "qc_level q = ec" "qc_data q = ds" "qc_cache q = None"
    using assms(1,3) by (simp_all add: version_of_def ready_def s)
  show ?thesis using b(2) assms(2) by (simp add: make_impl_def s v b(1) Let_def cached_data_def)
qed

text \<open>A finished pass leaves no module unset, so a penalty never meets one.\<close>

lemma every_module_set:
  assumes "1 \<le> v" "v \<le> 40" "k < 8" "made v ec ws test k s" "inside (v * 4 + 17) p"
  shows "module_at (qc_modules (fst s)) p \<noteq> None"
proof -
  let ?n = "v * 4 + 17"
  have o: "odd ?n" "21 \<le> ?n" using assms(1) by simp_all
  obtain f where f: "mask_func k = Inr f" using masks_defined [OF assms(3)] by auto
  have m: "qr_map_data ?n ws k (typed_modules ec v ?n test k (fresh_modules v ?n)) = Inr (qc_modules (fst s))"
    using assms(4) by (simp add: made_def)
  note r = map_data_result [OF typed_result(1) [OF assms(1,2) refl] o(1) f m]
  show ?thesis
  proof (cases "snd p = 6")
    case True
    with column_six [OF assms(1,2) refl assms(5)] have "module_at (typed_modules ec v ?n test k (fresh_modules v ?n)) p \<noteq> None" by blast
    then show ?thesis using r(2) [of p] by simp
  next
    case False
    then show ?thesis using r(4) in_places [OF o(1) assms(5) _ o(2)] by blast
  qed
qed

text \<open>What each mask would cost, and the loop over the masks: the first of the cheapest ones.\<close>

definition mask_penalty :: "nat \<Rightarrow> int \<Rightarrow> int list \<Rightarrow> nat \<Rightarrow> nat" where
  "mask_penalty v ec ws k =
    (case qr_map_data (v * 4 + 17) ws k (typed_modules ec v (v * 4 + 17) True k (fresh_modules v (v * 4 + 17))) of
       Inl _ \<Rightarrow> 0
     | Inr m \<Rightarrow> lost_point (dark_modules m))"

lemma made_penalty: "made v ec ws True k s \<Longrightarrow> lost_point (dark_modules (qc_modules (fst s))) = mask_penalty v ec ws k"
  by (simp add: made_def mask_penalty_def)

definition cheapest :: "(nat \<Rightarrow> nat) \<Rightarrow> nat list \<Rightarrow> nat \<Rightarrow> bool" where
  "cheapest cost ks p \<longleftrightarrow> p \<in> set ks \<and> (\<forall>j \<in> set ks. cost p \<le> cost j \<and> (j < p \<longrightarrow> cost p < cost j))"

lemma cheapest_step:
  assumes "sorted_wrt (<) (k # i # is)"
  shows "cost i < cost k \<Longrightarrow> cheapest cost (i # is) p \<Longrightarrow> cheapest cost (k # i # is) p"
    "\<not> cost i < cost k \<Longrightarrow> cheapest cost (k # is) p \<Longrightarrow> cheapest cost (k # i # is) p"
  using assms by (fastforce simp: cheapest_def)+

lemma mask_loop_cheapest:
  assumes "create_data v ec ds = Inr ws"
  shows "ready v ec ds ws s \<Longrightarrow> qc_cache (fst s) = Some ws \<Longrightarrow> sorted_wrt (<) (pattern # is) \<Longrightarrow> \<forall>i \<in> set is. i < 8 \<Longrightarrow>
    \<exists>p s'. mask_loop is (mask_penalty v ec ws pattern) pattern s = (Inr p, s')
      \<and> cheapest (mask_penalty v ec ws) (pattern # is) p \<and> ready v ec ds ws s'
      \<and> qc_cache (fst s') = Some ws"
proof (induction "is" arbitrary: pattern s)
  case (Cons i "is")
  have i: "i < 8" "\<forall>i \<in> set is. i < 8" "0 < i" using Cons.prems by auto
  obtain s1 where s1: "make_impl True i s = (Inr (), s1)" "ready v ec ds ws s1" "made v ec ws True i s1"
    using make_impl_ready [OF Cons.prems(1) assms i(1)] by blast
  have c: "qc_cache (fst s1) = Some ws" using s1(3) by (simp add: made_def)
  note lp = made_penalty [OF s1(3)]
  have so: "sorted_wrt (<) (i # is)" "sorted_wrt (<) (pattern # is)" using Cons.prems(3) by simp_all
  note step = cheapest_step [OF Cons.prems(3), of "mask_penalty v ec ws"]
  show ?case
  proof (cases "mask_penalty v ec ws i < mask_penalty v ec ws pattern")
    case True
    with Cons.IH [OF s1(2) c so(1) i(2)] step(1) [OF True] s1(1) i(3) show ?thesis by (simp add: Let_def lp) blast
  next
    case False
    with Cons.IH [OF s1(2) c so(2) i(2)] step(2) [OF False] s1(1) i(3) show ?thesis by (simp add: Let_def lp) blast
  qed
qed (auto simp: cheapest_def)

lemma best_mask_ready:
  assumes "ready v ec ds ws s" "create_data v ec ds = Inr ws"
  shows "\<exists>k s'. best_mask_pattern s = (Inr k, s') \<and> cheapest (mask_penalty v ec ws) [0..<8] k \<and> ready v ec ds ws s'
    \<and> qc_cache (fst s') = Some ws"
proof -
  have u: "[0..<8] = 0 # [1..<8]" by (simp add: upt_rec)
  obtain s1 where s1: "make_impl True 0 s = (Inr (), s1)" "ready v ec ds ws s1" "made v ec ws True 0 s1"
    using make_impl_ready [OF assms zero_less_numeral, of True] by blast
  have "sorted_wrt (<) (0 # [1..<8])" "\<forall>i \<in> set [1..<8]. i < 8" unfolding u [symmetric] by simp_all
  from mask_loop_cheapest [OF assms(2) s1(2) _ this] show ?thesis
    unfolding best_mask_pattern_def u using s1(1,3) by (simp add: made_penalty [OF s1(3)] made_def Let_def del: upt_rec_numeral)
qed

text \<open>
  C35. \<open>best_mask_chosen\<close>: \<open>best_mask_pattern\<close> tries all eight masks over the same data and answers the first of
  those with the least penalty; the codewords made in the first pass serve all the others.
\<close>
theorem best_mask_chosen:
  assumes "ready v ec ds ws s" "create_data v ec ds = Inr ws"
  shows "\<exists>k s'. best_mask_pattern s = (Inr k, s') \<and> k < 8 \<and> qc_cache (fst s') = Some ws
    \<and> (\<forall>j < 8. mask_penalty v ec ws k \<le> mask_penalty v ec ws j) \<and> (\<forall>j < k. mask_penalty v ec ws k < mask_penalty v ec ws j)"
proof -
  obtain k s' where k: "best_mask_pattern s = (Inr k, s')" "cheapest (mask_penalty v ec ws) [0..<8] k" "qc_cache (fst s') = Some ws"
    using best_mask_ready [OF assms] by blast
  have "k < 8" "\<forall>j < 8. mask_penalty v ec ws k \<le> mask_penalty v ec ws j \<and> (j < k \<longrightarrow> mask_penalty v ec ws k < mask_penalty v ec ws j)"
    using k(2) by (simp_all add: cheapest_def del: upt_rec_numeral)
  then show ?thesis using k(1,3) by auto
qed

lemma make_masked_ready:
  assumes "ready v ec ds ws s" "create_data v ec ds = Inr ws"
  shows "\<exists>k s'. make_masked s = (Inr (), s') \<and> k < 8 \<and> ready v ec ds ws s' \<and> made v ec ws False k s'"
proof -
  obtain k s1 where s1: "best_mask_pattern s = (Inr k, s1)" "cheapest (mask_penalty v ec ws) [0..<8] k" "ready v ec ds ws s1"
    using best_mask_ready [OF assms] by blast
  moreover from this have k: "k < 8" by (simp add: cheapest_def del: upt_rec_numeral)
  moreover have "qc_mask_pattern (fst s) = None" using assms(1) by (simp add: ready_def)
  ultimately show ?thesis using make_impl_ready [OF s1(3) assms(2) k, of False] by (auto simp: make_masked_def)
qed

lemma make_masked_refused:
  assumes "ready v ec ds ws s" "create_data v ec ds = Inl e" "qc_cache (fst s) = None"
  shows "\<exists>s'. make_masked s = (Inl e, s') \<and> good_blanks (snd s')"
proof -
  obtain s' where "make_impl True 0 s = (Inl e, s')" "good_blanks (snd s')" using make_impl_refused [OF assms] by blast
  moreover have "[0..<8] = 0 # [1..<8]" by (simp add: upt_rec)
  moreover have "qc_mask_pattern (fst s) = None" using assms(1) by (simp add: ready_def)
  ultimately show ?thesis by (simp add: make_masked_def best_mask_pattern_def del: upt_rec_numeral)
qed

section \<open>Rows\<close>

lemma bordered_rows:
  assumes "shape n m" "inside n p"
  shows "matrix_rows (bordered 2 m) ! (fst p + 2) ! (snd p + 2) = (if module_at m p = Some True then CHR ''1'' else CHR ''0'')"
proof -
  have "fst p < length m" "snd p < length (m ! fst p)" using assms by (auto simp: shape_def inside_def)
  then show ?thesis by (simp add: bordered_def matrix_rows_def Let_def nth_append module_at_def numeral_2_eq_2)
qed

lemma bordered_length: "shape n m \<Longrightarrow> length (matrix_rows (bordered 2 m)) = n + 4"
  by (simp add: bordered_def matrix_rows_def Let_def shape_def)

lemma scan_cong:
  assumes "21 \<le> n" "odd n" "\<And>p. inside n p \<Longrightarrow> c p = c' p"
  shows "scan_modules c n = scan_modules c' n"
proof -
  have "c (info_places n ! i) = c' (info_places n ! i)" if "i < 15" for i
    using word_places_inside(1) [OF assms(1)] that by (intro assms(3)) (simp add: list_all_length word_places_length)
  then have "map (\<lambda>i. c (info_places n ! i)) [0..<15] = map (\<lambda>i. c' (info_places n ! i)) [0..<15]"
    by (intro map_cong [OF refl]) (simp del: upt_rec_numeral)
  then have d: "format_data c n = format_data c' n" by (simp only: format_data_def)
  have "c p = c' p" if "p \<in> set (data_places v n)" for p v
    using places_inside [OF assms(2)] that by (intro assms(3)) (simp add: list_all_iff data_places_def free_def)
  then have e: "map (\<lambda>p. c p \<noteq> f (fst p) (snd p)) (data_places v n) = map (\<lambda>p. c' p \<noteq> f (fst p) (snd p)) (data_places v n)" for f v
    by (intro map_cong [OF refl]) simp
  show ?thesis by (simp only: scan_modules_def d e Let_def)
qed

lemma scan_rows:
  assumes v: "1 \<le> v" "v \<le> 40" and l: "level ec" "k < 8"
    and data: "rs_blocks v ec = Inr blocks" "elems ws" "int (length ws) = sum_list (map fst blocks)"
      "read_text v (concat (map byte_bits (read_codewords blocks ws))) = Some t"
    and m: "made v ec ws False k s"
  shows "scan (matrix_rows (bordered 2 (qc_modules (fst s)))) = Some t"
proof -
  let ?n = "v * 4 + 17" and ?m = "qc_modules (fst s)"
  have o: "odd ?n" "21 \<le> ?n" using v by simp_all
  obtain f where f: "mask_func k = Inr f" using masks_defined [OF l(2)] by auto
  have m: "qr_map_data ?n ws k (typed_modules ec v ?n False k (fresh_modules v ?n)) = Inr ?m" using m by (simp add: made_def)
  have sh: "shape ?n ?m" by (rule map_data_result(1) [OF typed_result(1) [OF v refl] o(1) f m])
  have "scan (matrix_rows (bordered 2 ?m)) = scan_modules (\<lambda>p. module_at ?m p = Some True) ?n"
    unfolding scan_def bordered_length [OF sh]
    using bordered_rows [OF sh] by (simp only: diff_add_inverse2) (rule scan_cong [OF o(2,1)], simp)
  then show ?thesis using scan_made [OF v refl l data m] by simp
qed

section \<open>What the QML page shows\<close>

lemma same_version:
  assumes "level ec" "list_all good_data ds" "best_fit ec ds 1 = Inr v"
  shows "1 \<le> v" "v \<le> 40" "fits ec ds v" "best_fit ec ds v = Inr v"
proof -
  show v: "1 \<le> v" "v \<le> 40" "fits ec ds v" using best_fit_least [OF assms(1,2) order_refl] assms(3) by auto
  have u: "\<not> fits ec ds u" if "1 \<le> u" "u < v" for u using best_fit_least [OF assms(1,2) order_refl] assms(3) that by auto
  show "best_fit ec ds v = Inr v"
  proof (cases "best_fit ec ds v")
    case (Inl e)
    then show ?thesis using best_fit_least [OF assms(1,2) v(1,2) u] v by auto
  next
    case (Inr w)
    then have "1 \<le> w" "fits ec ds w" "\<forall>u. 1 \<le> u \<and> u < w \<longrightarrow> \<not> fits ec ds u"
      using best_fit_least [OF assms(1,2) v(1,2) u] by auto
    then have "w = v" using u v by (metis linorder_neqE_nat)
    then show ?thesis using Inr by simp
  qed
qed

abbreviation chunks :: "string \<Rightarrow> qr_data list" where
  "chunks t \<equiv> optimal_data_chunks t 20"

definition made_of :: "string \<Rightarrow> qr_code" where
  "made_of t = \<lparr>qc_version = None, qc_level = ERROR_CORRECT_M, qc_border = 2, qc_mask_pattern = None, qc_modules = [[]],
    qc_count = 0, qc_cache = None, qc_data = chunks t\<rparr>"

lemma qr_matrix_make: "t \<noteq> [] \<Longrightarrow> qr_matrix blanks t =
    (case make True (made_of t, blanks) of
       (Inl _, s) \<Rightarrow> (None, snd s)
     | (Inr _, s) \<Rightarrow>
        (case get_matrix s of
           (Inl _, s') \<Rightarrow> (None, snd s')
         | (Inr m, s') \<Rightarrow> (Some (length (matrix_rows m), matrix_rows m), snd s')))"
  unfolding qr_matrix_def Let_def
  by (simp add: new_qr_def set_version_def set_mask_pattern_def clear_qr_def check_box_size_def check_border_def check_mask_pattern_def add_data_def made_of_def)

lemma make_fits:
  assumes "best_fit ERROR_CORRECT_M (chunks t) 1 = Inr v"
  shows "make True (made_of t, blanks) = make_masked ((made_of t)\<lparr>qc_version := Some v\<rparr>, blanks)"
proof -
  have "list_all good_data (chunks t)" using chunks_good by (auto simp: list_all_iff)
  moreover have "level ERROR_CORRECT_M" by (simp add: level_def ERROR_CORRECT_M_def)
  ultimately show ?thesis
    using assms same_version(4) [of ERROR_CORRECT_M "chunks t" v] by (simp add: make_def version_of_def made_of_def)
qed

lemma qr_matrix_result:
  assumes "good_blanks blanks" "t \<noteq> []"
  shows "case best_fit ERROR_CORRECT_M (chunks t) 1 of
      Inl e \<Rightarrow> qr_matrix blanks t = (None, blanks)
    | Inr v \<Rightarrow>
       (case create_data v ERROR_CORRECT_M (chunks t) of
          Inl e \<Rightarrow> e = ValueError \<and> (\<exists>blanks'. qr_matrix blanks t = (None, blanks') \<and> good_blanks blanks')
        | Inr ws \<Rightarrow> \<exists>rows blanks'. qr_matrix blanks t = (Some (length rows, rows), blanks') \<and> good_blanks blanks'
            \<and> scan rows = Some t)"
proof (cases "best_fit ERROR_CORRECT_M (chunks t) 1")
  case (Inl e)
  then show ?thesis by (simp add: qr_matrix_make [OF assms(2)] make_def version_of_def made_of_def)
next
  case (Inr v)
  let ?s = "((made_of t)\<lparr>qc_version := Some v\<rparr>, blanks)"
  have l: "level ERROR_CORRECT_M" by (simp add: level_def ERROR_CORRECT_M_def)
  have g: "list_all good_data (chunks t)" using chunks_good by (auto simp: list_all_iff)
  note v = same_version [OF l g Inr]
  note mk = qr_matrix_make [OF assms(2), of blanks, unfolded make_fits [OF Inr]]
  have r: "ready v ERROR_CORRECT_M (chunks t) ws ?s" "qc_cache (fst ?s) = None" for ws
    using assms(1) by (simp_all add: ready_def made_of_def)
  show ?thesis
  proof (cases "create_data v ERROR_CORRECT_M (chunks t)")
    case (Inl e)
    obtain s' where "make_masked ?s = (Inl e, s')" "good_blanks (snd s')" using make_masked_refused [OF r(1) Inl r(2)] by blast
    moreover have "e = ValueError"
    proof -
      obtain blocks where b: "rs_blocks v ERROR_CORRECT_M = Inr blocks" using rs_blocks_of_level [OF l v(1,2)] by metis
      show ?thesis using create_data_cases [OF l g v(1,2) b] v(3) Inl by (auto split: if_splits)
    qed
    ultimately show ?thesis using Inl Inr by (simp add: mk)
  next
    case c: (Inr ws)
    obtain k s' where s': "make_masked ?s = (Inr (), s')" "k < 8" "ready v ERROR_CORRECT_M (chunks t) ws s'"
        "made v ERROR_CORRECT_M ws False k s'"
      using make_masked_ready [OF r(1) c] by blast
    obtain blocks where b: "rs_blocks v ERROR_CORRECT_M = Inr blocks" using rs_blocks_of_level [OF l v(1,2)] by metis
    have w: "elems ws" "int (length ws) = sum_list (map fst blocks)" "read_text v (concat (map byte_bits (read_codewords blocks ws))) = Some t"
      using create_data_cases [OF l g v(1,2) b] v(3) c unfolding chunks_join by (auto split: if_splits)
    let ?m = "bordered 2 (qc_modules (fst s'))"
    have "get_matrix s' = (Inr ?m, s')" using s'(3,4) by (simp add: get_matrix_def made_def ready_def)
    then have "qr_matrix blanks t = (Some (length (matrix_rows ?m), matrix_rows ?m), snd s')" by (simp add: mk s'(1))
    moreover have "good_blanks (snd s')" using s'(3) by (simp add: ready_def)
    moreover have "scan (matrix_rows ?m) = Some t" by (rule scan_rows [OF v(1,2) l s'(2) b w s'(4)])
    ultimately show ?thesis using Inr c by simp
  qed
qed

text \<open>
  C4. \<open>scanned_code_gives_text\<close>: the rows that \<open>qr_matrix\<close> gives the QML page, border and all, are scanned back
  to the text they were made for, by a reader that knows nothing but the rows; there are no rows only for
  the empty text, for one that no version holds, and when a block of codewords is refused. The cache of blank
  matrices holds fresh ones only, so a second code of the same version is none the worse for the first.
\<close>
theorem scanned_code_gives_text:
  assumes "good_blanks blanks"
  shows "good_blanks (snd (qr_matrix blanks t))
    \<and> (case fst (qr_matrix blanks t) of
         Some (sz, rows) \<Rightarrow> sz = length rows \<and> scan rows = Some t
       | None \<Rightarrow> t = [] \<or> (case best_fit ERROR_CORRECT_M (optimal_data_chunks t 20) 1 of
           Inl e \<Rightarrow> e = ValueError
         | Inr v \<Rightarrow> create_data v ERROR_CORRECT_M (optimal_data_chunks t 20) = Inl ValueError))"
proof (cases "t = []")
  case True
  then show ?thesis using assms by (simp add: qr_matrix_def)
next
  case False
  have l: "level ERROR_CORRECT_M" by (simp add: level_def ERROR_CORRECT_M_def)
  have g: "list_all good_data (chunks t)" using chunks_good by (auto simp: list_all_iff)
  have "case best_fit ERROR_CORRECT_M (chunks t) 1 of Inl e \<Rightarrow> e = ValueError | Inr v \<Rightarrow> True"
    using best_fit_least [OF l g order_refl] by (simp split: sum.splits)
  then show ?thesis using qr_matrix_result [OF assms False] assms by (auto split: sum.splits)
qed

text \<open>A text that is shown: its only block would be all zero only if there were no text.\<close>

lemma zero_start: "zero_block [(26, 16)] buf \<Longrightarrow> read_text 1 (concat (map byte_bits buf)) = Some []"
proof -
  assume z: "zero_block [(26, 16)] buf"
  show ?thesis
  proof (cases buf)
    case Nil
    then show ?thesis by (simp add: read_text.simps field_of_def)
  next
    case (Cons x r)
    then have "x = 0" using z by (simp add: zero_block_def numeral_eq_Suc)
    then have "byte_bits x = replicate 8 False" by (simp add: byte_bits_def numeral_eq_Suc)
    then have "field_of 4 (concat (map byte_bits buf)) = Some (0, drop 4 (concat (map byte_bits buf)))"
      using Cons by (simp add: field_of_def numeral_eq_Suc)
    then show ?thesis by (subst read_text.simps) simp
  qed
qed

lemma sample_made: "\<exists>ws. create_data 1 ERROR_CORRECT_M (optimal_data_chunks sample_text 20) = Inr ws"
proof -
  have b: "rs_blocks 1 0 = Inr [(26, 16)]"
    by (simp add: rs_blocks_def RS_BLOCK_OFFSET_def ERROR_CORRECT_L_def ERROR_CORRECT_M_def RS_BLOCK_TABLE_def)
  obtain buf where "read_text 1 (concat (map byte_bits buf)) = Some sample_text"
    and c: "if zero_block [(26, 16)] buf then create_data 1 0 (optimal_data_chunks sample_text 20) = Inl ValueError
      else \<exists>ws. create_data 1 0 (optimal_data_chunks sample_text 20) = Inr ws"
    using create_data_cases [OF sample_level sample_good _ _ b] sample_fits unfolding chunks_join
    by (auto split: if_splits)
  then have "\<not> zero_block [(26, 16)] buf" using zero_start [of buf] by (auto simp: sample_text_def)
  then show ?thesis using c by (auto simp: ERROR_CORRECT_M_def)
qed

theorem scanned_code_gives_text_witness:
  "\<exists>sz rows. fst (qr_matrix Map.empty sample_text) = Some (sz, rows) \<and> scan rows = Some ''FIND MY PHONE 42''"
proof -
  have b: "good_blanks Map.empty" by (simp add: good_blanks_def)
  have v: "best_fit ERROR_CORRECT_M (optimal_data_chunks sample_text 20) 1 = Inr 1"
    unfolding ERROR_CORRECT_M_def by (rule sample_version)
  have ne: "sample_text \<noteq> []" by (simp add: sample_text_def)
  note r = scanned_code_gives_text [OF b, of sample_text, unfolded v sum.case]
  obtain sz rows where "fst (qr_matrix Map.empty sample_text) = Some (sz, rows)"
    using r ne sample_made by (cases "fst (qr_matrix Map.empty sample_text)") auto
  then show ?thesis using r unfolding sample_text_def by auto
qed

theorem best_mask_chosen_witness:
  "\<exists>ws k s'. create_data 1 0 (optimal_data_chunks sample_text 20) = Inr ws
    \<and> best_mask_pattern ((made_of sample_text)\<lparr>qc_version := Some 1\<rparr>, Map.empty) = (Inr k, s')
    \<and> mask_penalty 1 0 ws k \<le> mask_penalty 1 0 ws 7"
proof -
  obtain ws where ws: "create_data 1 0 (optimal_data_chunks sample_text 20) = Inr ws"
    using sample_made unfolding ERROR_CORRECT_M_def by blast
  have "ready 1 0 (optimal_data_chunks sample_text 20) ws ((made_of sample_text)\<lparr>qc_version := Some 1\<rparr>, Map.empty)"
    by (simp add: ready_def made_of_def good_blanks_def ERROR_CORRECT_M_def)
  note r = best_mask_chosen [OF this ws]
  have "(7 :: nat) < 8" by simp
  with r ws show ?thesis by blast
qed

end
