(* ===== verification/Spec2Isabelle.thy ===== *)
theory Spec2Isabelle
  imports Prelude Paths Codec Hashes Obfuscation Store Settings Runtime Devices Gpsstore Fixedloc Tokens
    SmsListener SmsSender MqttClient Mobiledata LocationControl PrivService GpsReader GpsDaemon RingControl
    LockControl Camera CmdExec CmdServe UiState UiCommands UiButtons
    UiLocation UiTracking UiSettings QrField QrBlocks QrStream QrRead
    QrFit QrText QrMatrix QrPenalty QrCode QrPlace QrFilled QrScan QrWhole
begin

text \<open>
  \<^bold>\<open>harbour-find-my-device\<close>: finding, ringing, locking and wiping a Sailfish OS phone over MQTT or
  SMS. Two user daemons (\<open>src/daemon-rpm/src/daemon_cmd.py\<close>, \<open>daemon_gps.py\<close>), a root service that
  works off a spool directory (\<open>priv_service.py\<close>) and the UI's Python backend (\<open>src/qml/utilities/api.py\<close>)
  share one SQLite file and the modules of \<open>src/qml/utilities/\<close>.

  \<^bold>\<open>Layout.\<close> \<open>Prelude\<close> holds Python's values, strings, integers and floats and the locale
  \<open>event_system\<close> (an invariant that every event keeps holds after every run), interpreted by the
  components driven by events. \<open>Codec\<close> and \<open>Hashes\<close> are the parts of \<open>base64\<close>, \<open>hashlib\<close> and \<open>hmac\<close> that
  the code uses, on bytes and 32-bit words.

  \<^item> \<open>Paths\<close> (\<open>fmd/paths.py\<close>, \<open>notify.py\<close>): the data directory and the one-time move of older data into it,
    in which no entry is lost; local notifications.
  \<^item> \<open>Store\<close> (\<open>fmd/db.py\<close>): the tables and their constraints, connections, schema upgrade; the locale
    \<open>kv_table\<close> is the contract of the two key/value tables. \<open>Obfuscation\<close> (\<open>fmd/obfuscation.py\<close>),
    \<open>Settings\<close> (\<open>fmd/settings.py\<close>), \<open>Runtime\<close> (\<open>fmd/runtime.py\<close>: heartbeats, the settings generation,
    requests of the UI), \<open>Devices\<close> (\<open>fmd/devices.py\<close>), \<open>Gpsstore\<close> (\<open>fmd/gpsstore.py\<close>), \<open>Fixedloc\<close>
    (\<open>fmd/fixedloc.py\<close>, \<open>fixed_location.py\<close>) work on the record \<open>database\<close>; an operation that can raise
    returns \<open>exn + result\<close> beside the committed database.
  \<^item> \<open>Tokens\<close> (\<open>fmd/tokens.py\<close>): command tokens, TOTP, backup codes. \<open>SmsListener\<close>
    (\<open>sms_command_listener.py\<close>) and \<open>SmsSender\<close> (\<open>sms_sender.py\<close>): the SMS channel.
  \<^item> \<open>MqttClient\<close> (\<open>mqtt_client.py\<close>): the wrapper around one paho client as a state machine over calls
    and callbacks, with verified publishing and the health check.
  \<^item> \<open>Mobiledata\<close> (\<open>mobiledata_control.py\<close>), \<open>LocationControl\<close> (\<open>location_control.py\<close>), \<open>PrivService\<close>
    (\<open>priv_client.py\<close>, \<open>priv_service.py\<close>), \<open>RingControl\<close> (\<open>ring_control.py\<close>): the device's switches.
  \<^item> \<open>GpsReader\<close> (\<open>gps_reader.py\<close>, \<open>net_watch.py\<close>) and \<open>GpsDaemon\<close> (\<open>daemon_gps.py\<close>): the GPS service.
  \<^item> \<open>LockControl\<close> (\<open>lock_control.py\<close>) and \<open>Camera\<close> (\<open>camera_capture.py\<close>): the device lock and one photo.
    \<open>CmdExec\<close> and \<open>CmdServe\<close> (\<open>daemon_cmd.py\<close>): the executor of commands and its worker, with everything
    they do to the outside as a list of effects; then the two command channels, the watchdog, the ConnMan
    watcher and the main loop.
  \<^item> \<open>UiState\<close>, \<open>UiCommands\<close> and \<open>UiButtons\<close> (\<open>api.py\<close>): the UI backend's state, its MQTT client, the
    commands sent from the devices page and what acknowledgements, timers and edits make of its buttons.
    \<open>UiButtons\<close> has the locale \<open>event_refinement\<close>, an abstract machine that an event system follows.
  \<^item> \<open>UiLocation\<close>, \<open>UiTracking\<close> and \<open>UiSettings\<close> (\<open>api.py\<close>): the own position, asked of the QML side, stored
    and published; the polling chain of the app as an event system over its timers and threads; the
    settings and map pages, the secrets shown there, and staging the daemon's RPM.
  \<^item> \<open>QrField\<close> and \<open>QrBlocks\<close> (\<open>qrcode/base.py\<close>, \<open>LUT.py\<close>, \<open>create_bytes\<close> of \<open>qrcode/util.py\<close>): the
    error correction of the enrolment code, from the tables of the field GF(256) up to the codewords.
    \<open>QrStream\<close>, \<open>QrFit\<close> and \<open>QrText\<close> (\<open>qrcode/util.py\<close>, \<open>best_fit\<close> of \<open>qrcode/main.py\<close>): the text cut into
    segments, the bit buffer, the choice of a version and \<open>create_data\<close>; \<open>QrRead\<close> is a reader of segments.
    \<open>QrMatrix\<close> (fixed patterns, format and version words, zigzag), \<open>QrPenalty\<close> (\<open>lost_point\<close> against the four
    rules) and \<open>QrCode\<close> (the class \<open>QRCode\<close> as a record, its cache of blank matrices, \<open>qr_matrix\<close> of \<open>api.py\<close>).
    \<open>QrPlace\<close> shows the zigzag to visit each place once, \<open>QrFilled\<close> which modules the fixed patterns take and
    that every version has room for its codewords, \<open>QrScan\<close> defines a scanner of whole matrices and \<open>QrWhole\<close>
    shows that it reads every code that \<open>qr_matrix\<close> makes.

  \<^bold>\<open>Environment.\<close> What paho, D-Bus, ofono, ConnMan, GStreamer, the file system, the clock and random
  draws answer is an argument of the operation that asks. The code's loops take the list of their
  turns, so they end with the list. Fuel bounds only \<open>BCH_loop\<close>, the division of a format or
  version word; it has as many turns as the number has bits and each turn clears the leading one, so the
  loop comes to its end (\<open>BCH_loop_ends\<close>).

  \<^bold>\<open>Not modelled.\<close> The vendored \<open>paho\<close>, the printing and image rendering of \<open>qrcode\<close>, the GStreamer pipelines, the QML pages,
  argument parsing and log set-up. Case and digit classes are the ASCII ones. SQLite's column
  affinity is not applied: a value is stored as it is bound.
\<close>

end
